(* ===== verification/Prelude.thy ===== *)
theory Prelude
  imports Main "HOL-Library.Word" "HOL-Library.Signed_Division" "HOL-Library.Monad_Syntax"
begin

text \<open>
  Shared vocabulary of the development: bytes, the signed 32-bit integers of the program,
  the ways in which a piece of C++ can fail to return a value, the generic list lemmas
  that the buffers and byte streams need, and a locale for invariants of step functions
  and step relations.
\<close>

unbundle bit_operations_syntax

named_theorems relay_simps \<open>equations that evaluate the state passing of the model\<close>
named_theorems trace_simps \<open>what a system call adds to the observable byte streams\<close>


section \<open>Integers of the program\<close>

type_synonym byte = "8 word"

text \<open>A C++ \<open>int\<close> expression, reduced to 32 bits of two's complement.\<close>

definition i32 :: "int \<Rightarrow> int" where
  "i32 x = signed_take_bit 31 x"

lemma i32_id [simp]: "- 2147483648 \<le> x \<Longrightarrow> x < 2147483648 \<Longrightarrow> i32 x = x"
  by (simp add: i32_def signed_take_bit_int_eq_self)

lemma i32_lower: "- 2147483648 \<le> i32 x"
  using signed_take_bit_int_greater_eq_minus_exp [of 31 x] by (simp add: i32_def)

lemma i32_upper: "i32 x < 2147483648"
  using signed_take_bit_int_less_exp [of 31 x] by (simp add: i32_def)

lemma i32_idem [simp]: "i32 (i32 x) = i32 x"
  by (rule i32_id) (rule i32_lower, rule i32_upper)


section \<open>Ways of not returning a value\<close>

text \<open>
  Undefined behaviour and aborts of the C++ program are values of the model, so that a
  theorem has to say that they do not occur.
\<close>

datatype fault =
    Assertion_failed    \<comment> \<open>a failed \<open>assert\<close>\<close>
  | Out_of_bounds       \<comment> \<open>a read or write outside of an object\<close>
  | Division_by_zero    \<comment> \<open>an integer \<open>%\<close> or \<open>/\<close> by zero\<close>
  | Uninitialised       \<comment> \<open>a branch on an indeterminate value\<close>
  | Missing_return      \<comment> \<open>control leaves a non-void function without \<open>return\<close>\<close>

datatype stop =
    Fault fault
  | Exited int          \<comment> \<open>the process called \<open>exit\<close>\<close>

text \<open>The result of a computation that may stop: \<open>Inl\<close> the reason or \<open>Inr\<close> the value.\<close>

type_synonym 'a result = "stop + 'a"

definition bindR :: "'a result \<Rightarrow> ('a \<Rightarrow> 'b result) \<Rightarrow> 'b result" where
  "bindR m f = (case m of Inl e \<Rightarrow> Inl e | Inr x \<Rightarrow> f x)"

lemma bindR_Inl [simp]: "bindR (Inl e) f = Inl e"
  by (simp add: bindR_def)

lemma bindR_Inr [simp]: "bindR (Inr x) f = f x"
  by (simp add: bindR_def)

lemma bindR_eq_Inr: "bindR m f = Inr y \<longleftrightarrow> (\<exists>x. m = Inr x \<and> f x = Inr y)"
  by (cases m) auto

lemma bindR_assoc: "bindR (bindR m f) g = bindR m (\<lambda>x. bindR (f x) g)"
  by (cases m) auto


text \<open>The same for a computation that, besides, need not return (\<open>None\<close>).\<close>

definition bindO :: "'a result option \<Rightarrow> ('a \<Rightarrow> 'b result option) \<Rightarrow> 'b result option" where
  "bindO m f = (case m of None \<Rightarrow> None | Some (Inl e) \<Rightarrow> Some (Inl e) | Some (Inr x) \<Rightarrow> f x)"

lemma bindO_simps [simp]:
  "bindO None f = None"
  "bindO (Some (Inl e)) f = Some (Inl e)"
  "bindO (Some (Inr x)) f = f x"
  by (simp_all add: bindO_def)

lemma bindO_eq_Inr: "bindO m f = Some (Inr y) \<longleftrightarrow> (\<exists>x. m = Some (Inr x) \<and> f x = Some (Inr y))"
  by (auto simp: bindO_def split: option.split sum.split)


section \<open>Iteration\<close>

text \<open>A step that keeps an invariant and decreases a measure reaches its bottom.\<close>

lemma funpow_reaches_bottom:
  fixes m :: "'s \<Rightarrow> nat"
  assumes "\<And>x. I x \<Longrightarrow> I (f x) \<and> (0 < m x \<longrightarrow> m (f x) < m x)" and "I x"
  shows "\<exists>n \<le> m x. m ((f ^^ n) x) = 0"
  using assms(2)
proof (induction "m x" arbitrary: x rule: less_induct)
  case less
  show ?case
  proof (cases "m x = 0")
    case True
    then show ?thesis by (intro exI [of _ 0]) simp
  next
    case False
    with assms(1) [OF less.prems] have "I (f x)" "m (f x) < m x" by auto
    with less.hyps obtain n where "n \<le> m (f x)" "m ((f ^^ n) (f x)) = 0" by blast
    with \<open>m (f x) < m x\<close> show ?thesis
      by (intro exI [of _ "Suc n"]) (simp add: funpow_swap1)
  qed
qed


section \<open>Lists as memory\<close>

text \<open>Storing a chunk at an offset inside of a block of memory.\<close>

definition overwrite :: "nat \<Rightarrow> 'a list \<Rightarrow> 'a list \<Rightarrow> 'a list" where
  "overwrite off chunk mem = take off mem @ chunk @ drop (off + length chunk) mem"

lemma length_overwrite [simp]:
  "off + length chunk \<le> length mem \<Longrightarrow> length (overwrite off chunk mem) = length mem"
  by (simp add: overwrite_def)

lemma overwrite_Nil [simp]: "overwrite off [] mem = mem"
  by (simp add: overwrite_def)

lemma nth_overwrite:
  assumes "off + length chunk \<le> length mem" and "i < length mem"
  shows "overwrite off chunk mem ! i =
    (if off \<le> i \<and> i < off + length chunk then chunk ! (i - off) else mem ! i)"
  using assms by (auto simp: overwrite_def nth_append min_def)

lemma take_overwrite:
  assumes "off + length chunk \<le> length mem"
  shows "take (off + length chunk) (overwrite off chunk mem) = take off mem @ chunk"
  using assms by (simp add: overwrite_def)


section \<open>Invariants of transition systems\<close>

text \<open>
  The states reached from a set of initial states by a step relation, and the interface
  under which an inductive invariant holds in all of them.
\<close>

inductive reach :: "('s \<Rightarrow> bool) \<Rightarrow> ('s \<Rightarrow> 's \<Rightarrow> bool) \<Rightarrow> 's \<Rightarrow> bool"
  for init :: "'s \<Rightarrow> bool" and step :: "'s \<Rightarrow> 's \<Rightarrow> bool" where
  reach_init: "init s \<Longrightarrow> reach init step s"
| reach_step: "reach init step s \<Longrightarrow> step s t \<Longrightarrow> reach init step t"

locale inductive_invariant =
  fixes init :: "'s \<Rightarrow> bool" and step :: "'s \<Rightarrow> 's \<Rightarrow> bool" and inv :: "'s \<Rightarrow> bool"
  assumes inv_init: "init s \<Longrightarrow> inv s"
    and inv_step: "step s t \<Longrightarrow> inv s \<Longrightarrow> inv t"
begin

lemma reach_inv: "reach init step s \<Longrightarrow> inv s"
  by (induction rule: reach.induct) (auto intro: inv_init inv_step)

end

end
