(* ===== verification/Loopbuffer.thy ===== *)
theory Loopbuffer
  imports Prelude
begin

text \<open>
  The ring buffer of \<^verbatim>\<open>src/include/loopbuffer.h\<close>: one record field per member of the
  class, one definition per member function, and the list of bytes that a buffer holds as
  its abstraction. The locale \<open>byte_fifo\<close> is the contract a client of the buffer relies
  on; it is interpreted on the member functions, and shows that what is taken out of a
  buffer is what was put in, in order.
\<close>


section \<open>The class\<close>

record loopbuffer =
  lb_len :: int       \<comment> \<open>buffer length\<close>
  lb_atom :: int      \<comment> \<open>largest contiguous chunk\<close>
  lb_size :: int      \<comment> \<open>data size\<close>
  lb_buf :: "byte list"
  lb_read_p :: int    \<comment> \<open>pointer to begin\<close>
  lb_writ_p :: int    \<comment> \<open>pointer to end\<close>

text \<open>
  The constructor. \<open>mem\<close> is the block that \<open>new char[sz]\<close> returns (its contents are
  indeterminate). The condition of the constructor is the assignment \<open>atom = 0\<close>: it
  stores 0 and its value, 0, is the truth value of the condition.
\<close>

definition lb_new :: "byte list \<Rightarrow> int \<Rightarrow> loopbuffer" where
  "lb_new mem at =
     (let b = \<lparr>lb_len = int (length mem), lb_atom = at, lb_size = 0, lb_buf = mem,
               lb_read_p = 0, lb_writ_p = 0\<rparr>;
          b = b\<lparr>lb_atom := 0\<rparr>
      in if lb_atom b \<noteq> 0 then b\<lparr>lb_atom := lb_len b\<rparr> else b)"

definition lb_isful :: "loopbuffer \<Rightarrow> bool" where
  "lb_isful b \<longleftrightarrow> lb_size b = lb_len b"

definition lb_isempty :: "loopbuffer \<Rightarrow> bool" where
  "lb_isempty b \<longleftrightarrow> lb_size b = 0"

definition lb_getReadSpace :: "loopbuffer \<Rightarrow> int" where
  "lb_getReadSpace b =
     min (lb_atom b)
       (if lb_read_p b + lb_size b \<le> lb_len b then lb_size b else lb_len b - lb_read_p b)"

definition lb_getWriteSpace :: "loopbuffer \<Rightarrow> int" where
  "lb_getWriteSpace b =
     (if lb_size b = lb_len b then 0
      else min (lb_atom b)
        (if lb_writ_p b > lb_read_p b then lb_len b - lb_writ_p b
         else lb_read_p b - lb_writ_p b))"

text \<open>
  The client writes its bytes through \<open>getWritePointer()\<close> and reads them through
  \<open>getReadPointer()\<close>; both are accesses to \<open>buf\<close>, and fault when they leave it.
\<close>

definition lb_poke :: "byte list \<Rightarrow> loopbuffer \<Rightarrow> loopbuffer result" where
  "lb_poke bs b =
     (if 0 \<le> lb_writ_p b \<and> lb_writ_p b + int (length bs) \<le> int (length (lb_buf b))
      then Inr (b\<lparr>lb_buf := overwrite (nat (lb_writ_p b)) bs (lb_buf b)\<rparr>)
      else Inl (Fault Out_of_bounds))"

definition lb_peek :: "int \<Rightarrow> loopbuffer \<Rightarrow> byte list result" where
  "lb_peek n b =
     (if 0 \<le> lb_read_p b \<and> lb_read_p b + n \<le> int (length (lb_buf b))
      then Inr (take (nat n) (drop (nat (lb_read_p b)) (lb_buf b)))
      else Inl (Fault Out_of_bounds))"

text \<open>\<open>%\<close> of C++ truncates towards zero (\<open>smod\<close>) and traps for a zero divisor.\<close>

definition lb_writen :: "int \<Rightarrow> loopbuffer \<Rightarrow> loopbuffer result" where
  "lb_writen n b =
     (if \<not> (lb_writ_p b + n \<le> lb_len b \<and> n \<le> lb_len b - lb_size b)
      then Inl (Fault Assertion_failed)
      else if lb_len b = 0 then Inl (Fault Division_by_zero)
      else Inr (b\<lparr>lb_writ_p := (lb_writ_p b + n) smod lb_len b, lb_size := lb_size b + n\<rparr>))"

definition lb_readn :: "int \<Rightarrow> loopbuffer \<Rightarrow> loopbuffer result" where
  "lb_readn n b =
     (if \<not> (lb_read_p b + n \<le> lb_len b \<and> n \<le> lb_size b)
      then Inl (Fault Assertion_failed)
      else if lb_len b = 0 then Inl (Fault Division_by_zero)
      else Inr (b\<lparr>lb_read_p := (lb_read_p b + n) smod lb_len b, lb_size := lb_size b - n\<rparr>))"


section \<open>Abstraction and invariant\<close>

definition lb_inv :: "loopbuffer \<Rightarrow> bool" where
  "lb_inv b \<longleftrightarrow>
     0 < lb_len b \<and> lb_len b = int (length (lb_buf b)) \<and>
     0 \<le> lb_size b \<and> lb_size b \<le> lb_len b \<and>
     0 \<le> lb_read_p b \<and> lb_read_p b < lb_len b \<and>
     lb_writ_p b = (lb_read_p b + lb_size b) mod lb_len b"

text \<open>The bytes in a buffer, oldest first.\<close>

definition lb_content :: "loopbuffer \<Rightarrow> byte list" where
  "lb_content b = take (nat (lb_size b)) (rotate (nat (lb_read_p b)) (lb_buf b))"

text \<open>
  A client's put is a poke of the bytes followed by \<open>writen\<close> of their number, its get a
  peek followed by \<open>readn\<close>: this is how \<^verbatim>\<open>worker.cpp\<close> uses the class.
\<close>

definition lb_put :: "byte list \<Rightarrow> loopbuffer \<Rightarrow> loopbuffer result" where
  "lb_put bs b = bindR (lb_poke bs b) (lb_writen (int (length bs)))"

definition lb_get :: "int \<Rightarrow> loopbuffer \<Rightarrow> (byte list \<times> loopbuffer) result" where
  "lb_get n b = bindR (lb_peek n b) (\<lambda>bs. bindR (lb_readn n b) (\<lambda>b'. Inr (bs, b')))"

text \<open>
  The contiguous free room at the write pointer and the contiguous data at the read
  pointer: the numbers \<open>getWriteSpace\<close> and \<open>getReadSpace\<close> are meant to bound.
\<close>

definition lb_room :: "loopbuffer \<Rightarrow> int" where
  "lb_room b = min (lb_len b - lb_size b) (lb_len b - lb_writ_p b)"

definition lb_avail :: "loopbuffer \<Rightarrow> int" where
  "lb_avail b = min (lb_size b) (lb_len b - lb_read_p b)"


lemma smod_mod: "0 \<le> a \<Longrightarrow> 0 < (m::int) \<Longrightarrow> a smod m = a mod m"
  \<comment> \<open>on non-negative operands the truncating remainder is \<open>mod\<close>\<close>
  by (cases "a = 0") (simp_all add: signed_modulo_int_def)

text \<open>The invariant in natural numbers, as the index arithmetic wants it.\<close>

lemma lb_invE:
  assumes "lb_inv b"
  obtains r s where "lb_read_p b = int r" and "lb_size b = int s"
    and "lb_len b = int (length (lb_buf b))"
    and "r < length (lb_buf b)" and "s \<le> length (lb_buf b)"
    and "lb_writ_p b = int ((r + s) mod length (lb_buf b))"
proof -
  from assms obtain r s where "lb_read_p b = int r" and "lb_size b = int s"
    by (metis lb_inv_def zero_le_imp_eq_int)
  with assms show ?thesis
    by (intro that [of r s]) (auto simp: lb_inv_def zmod_int)
qed

lemma lb_inv_writ: "lb_inv b \<Longrightarrow> 0 \<le> lb_writ_p b \<and> lb_writ_p b < lb_len b"
  unfolding lb_inv_def by (metis pos_mod_bound pos_mod_sign)

lemma length_lb_content: "lb_inv b \<Longrightarrow> length (lb_content b) = nat (lb_size b)"
  by (auto simp: lb_content_def lb_inv_def)

lemma nth_lb_content:
  assumes "lb_inv b" and "i < nat (lb_size b)"
  shows "lb_content b ! i = lb_buf b ! ((nat (lb_read_p b) + i) mod length (lb_buf b))"
  using assms by (auto simp: lb_content_def lb_inv_def nth_rotate)

lemma lb_isempty_iff: "lb_inv b \<Longrightarrow> lb_isempty b \<longleftrightarrow> lb_content b = []"
  using length_lb_content [of b] by (auto simp: lb_isempty_def lb_inv_def)

lemma lb_isful_iff: "lb_inv b \<Longrightarrow> lb_isful b \<longleftrightarrow> length (lb_content b) = nat (lb_len b)"
  by (auto simp: length_lb_content lb_isful_def lb_inv_def)

lemma lb_new_inv: "mem \<noteq> [] \<Longrightarrow> lb_inv (lb_new mem at)"
  by (simp add: lb_inv_def lb_new_def Let_def)

lemma lb_new_content [simp]: "lb_content (lb_new mem at) = []"
  by (simp add: lb_content_def lb_new_def Let_def)


section \<open>Index arithmetic of the ring\<close>

lemma ring_mod: "(a::nat) < 2 * L \<Longrightarrow> a mod L = (if a < L then a else a - L)"
  by (simp add: mod_if)

lemma ring_old_slot:
  fixes r s n L i :: nat
  assumes "r < L" and "s \<le> L" and "n \<le> L - s" and "i < s"
  shows "\<not> ((r + s) mod L \<le> (r + i) mod L \<and> (r + i) mod L < (r + s) mod L + n)"
  using assms by (auto simp: ring_mod)

lemma ring_new_slot:
  fixes r s n L j :: nat
  assumes "(r + s) mod L + n \<le> L" and "j < n"
  shows "(r + (s + j)) mod L = (r + s) mod L + j"
proof -
  have "(r + (s + j)) mod L = ((r + s) mod L + j) mod L"
    by (simp add: add.assoc mod_add_left_eq)
  with assms show ?thesis by simp
qed


section \<open>The operations refine appending and dropping\<close>

text \<open>Storing behind the last byte, and releasing the first ones.\<close>

lemma lb_content_store:
  assumes b: "lb_inv b" "lb_read_p b = int r" "lb_size b = int s" "r < length (lb_buf b)"
    and fit: "n \<le> length (lb_buf b) - s" "s \<le> length (lb_buf b)"
      "(r + s) mod length (lb_buf b) + n \<le> length (lb_buf b)"
    and b': "lb_inv b'" "lb_read_p b' = int r" "lb_size b' = int (s + n)"
      "lb_buf b' = overwrite ((r + s) mod length (lb_buf b)) bs (lb_buf b)"
    and n: "n = length bs"
  shows "lb_content b' = lb_content b @ bs"
proof (rule nth_equalityI)
  show "length (lb_content b') = length (lb_content b @ bs)"
    using b b' n by (simp add: length_lb_content)
next
  define L where "L = length (lb_buf b)"
  have len: "length (lb_buf b') = L" using fit n by (simp add: b'(4) L_def)
  fix i
  assume "i < length (lb_content b')"
  then have i: "i < s + n" using b' by (simp add: length_lb_content)
  have "lb_content b' ! i = lb_buf b' ! ((r + i) mod L)"
    using nth_lb_content [OF b'(1), of i] i by (simp add: b'(2,3) len)
  also have "\<dots> = (lb_content b @ bs) ! i"
  proof (cases "i < s")
    case True
    have "lb_buf b' ! ((r + i) mod L) = lb_buf b ! ((r + i) mod L)"
      using ring_old_slot [OF b(4) fit(2,1) True] fit(3) b(4) n
        nth_overwrite [of "(r + s) mod L" bs "lb_buf b" "(r + i) mod L"]
      by (auto simp: b'(4) L_def mod_less_divisor [OF le_less_trans [OF le0]])
    with True b show ?thesis by (simp add: nth_append length_lb_content nth_lb_content L_def)
  next
    case False
    with i obtain j where j: "i = s + j" "j < n"
      by (metis add_diff_inverse_nat nat_add_left_cancel_less)
    from j fit have "(r + i) mod L = (r + s) mod L + j" by (simp add: ring_new_slot L_def)
    with j fit b n show ?thesis
      by (simp add: b'(4) nth_overwrite L_def [symmetric] nth_append length_lb_content)
  qed
  finally show "lb_content b' ! i = (lb_content b @ bs) ! i" .
qed

lemma lb_content_release:
  assumes b: "lb_inv b" "lb_read_p b = int r" "lb_size b = int s"
    and b': "lb_inv b'" "lb_read_p b' = int ((r + k) mod length (lb_buf b))" "lb_size b' = int (s - k)"
      "lb_buf b' = lb_buf b" "k \<le> s"
  shows "lb_content b' = drop k (lb_content b)"
proof (rule nth_equalityI)
  show "length (lb_content b') = length (drop k (lb_content b))"
    using b b' by (simp add: length_lb_content)
next
  define L where "L = length (lb_buf b)"
  fix i
  assume "i < length (lb_content b')"
  then have i: "i < s - k" using b' by (simp add: length_lb_content)
  have "lb_content b' ! i = lb_buf b ! (((r + k) mod L + i) mod L)"
    using nth_lb_content [OF b'(1), of i] i b' by (simp add: L_def)
  also have "((r + k) mod L + i) mod L = (r + (k + i)) mod L"
    by (simp add: mod_add_left_eq add.assoc)
  also have "lb_buf b ! \<dots> = drop k (lb_content b) ! i"
    using b i by (simp add: length_lb_content nth_lb_content L_def)
  finally show "lb_content b' ! i = drop k (lb_content b) ! i" .
qed

lemma lb_put_ok:
  assumes inv: "lb_inv b" and room: "int (length bs) \<le> lb_room b"
  obtains b' where "lb_put bs b = Inr b'" and "lb_inv b'"
    and "lb_content b' = lb_content b @ bs"
    and "lb_len b' = lb_len b" and "lb_atom b' = lb_atom b"
proof -
  define L where "L = length (lb_buf b)"
  from inv obtain r s where rs: "lb_read_p b = int r" "lb_size b = int s" "lb_len b = int L"
      "r < L" "s \<le> L" "lb_writ_p b = int ((r + s) mod L)"
    unfolding L_def by (rule lb_invE)
  define w where "w = (r + s) mod L"
  have writ: "lb_writ_p b = int w" using rs by (simp add: w_def)
  define n where "n = length bs"
  define buf where "buf = overwrite w bs (lb_buf b)"
  define b' where "b' = b\<lparr>lb_buf := buf, lb_writ_p := int ((w + n) mod L), lb_size := int (s + n)\<rparr>"
  from room rs have fit: "n \<le> L - s" "w + n \<le> L"
    by (auto simp: lb_room_def n_def w_def)
  have L0: "0 < L" using rs by simp
  have buf: "length buf = L" using fit by (simp add: buf_def L_def n_def)
  have "int w + int n \<le> int L" "int n \<le> int L - int s"
    using fit rs(5) by linarith+
  then have put: "lb_put bs b = Inr b'"
    using rs(2,3) writ L0
    by (simp add: lb_put_def lb_poke_def lb_writen_def b'_def buf_def n_def [symmetric]
        L_def [symmetric] smod_mod zmod_int)
  have inv': "lb_inv b'"
    using rs fit L0 buf
    by (auto simp: lb_inv_def b'_def w_def zmod_int mod_add_left_eq add.assoc)
  have "lb_content b' = lb_content b @ bs"
    by (rule lb_content_store [OF inv rs(1,2) _ _ _ _ inv', where n = n])
      (use rs fit in \<open>simp_all add: b'_def buf_def w_def L_def n_def\<close>)
  with put inv' show ?thesis by (intro that [of b']) (simp_all add: b'_def)
qed

lemma lb_get_ok:
  assumes inv: "lb_inv b" and n: "0 \<le> n" and avail: "n \<le> lb_avail b"
  obtains b' where "lb_get n b = Inr (take (nat n) (lb_content b), b')" and "lb_inv b'"
    and "lb_content b' = drop (nat n) (lb_content b)"
    and "lb_len b' = lb_len b" and "lb_atom b' = lb_atom b"
proof -
  define L where "L = length (lb_buf b)"
  from inv obtain r s where rs: "lb_read_p b = int r" "lb_size b = int s" "lb_len b = int L"
      "r < L" "s \<le> L" "lb_writ_p b = int ((r + s) mod L)"
    unfolding L_def by (rule lb_invE)
  from n obtain k where k: "n = int k" by (metis zero_le_imp_eq_int)
  define b' where "b' = b\<lparr>lb_read_p := int ((r + k) mod L), lb_size := int (s - k)\<rparr>"
  from avail rs k have fit: "k \<le> s" "r + k \<le> L"
    by (auto simp: lb_avail_def)
  have L0: "0 < L" using rs by simp
  have "take k (lb_content b) = take k (rotate r (lb_buf b))"
    using fit rs by (simp add: lb_content_def min_absorb1)
  also have "\<dots> = take k (drop r (lb_buf b))"
    using fit rs(4) by (simp add: rotate_drop_take L_def)
  finally have peek: "take k (drop r (lb_buf b)) = take k (lb_content b)" by simp
  have get: "lb_get n b = Inr (take (nat n) (lb_content b), b')"
    using rs fit L0 k
    by (simp add: lb_get_def lb_peek_def lb_readn_def b'_def L_def [symmetric] peek
        smod_mod zmod_int of_nat_diff)
  have inv': "lb_inv b'"
    using rs fit L0
    by (auto simp: lb_inv_def b'_def L_def [symmetric] zmod_int mod_add_left_eq of_nat_diff)
  have "lb_content b' = drop k (lb_content b)"
    by (rule lb_content_release [OF inv rs(1,2) inv']) (use fit in \<open>simp_all add: b'_def L_def\<close>)
  with get inv' k show ?thesis by (intro that [of b']) (simp_all add: b'_def)
qed


lemma lb_put_fails:
  assumes "lb_inv b" and "\<not> int (length bs) \<le> lb_room b"
  shows "\<exists>f. lb_put bs b = Inl (Fault f)"
  using assms lb_inv_writ [of b]
  by (auto simp: lb_put_def lb_poke_def lb_writen_def lb_room_def lb_inv_def min_def
      split: if_splits)

lemma lb_get_fails:
  assumes "lb_inv b" and "\<not> n \<le> lb_avail b"
  shows "\<exists>f. lb_get n b = Inl (Fault f)"
  using assms
  by (auto simp: lb_get_def lb_peek_def lb_readn_def lb_avail_def lb_inv_def min_def
      split: if_splits)


section \<open>The contract of a byte queue\<close>

datatype fifo_op =
    Put "byte list"
  | Get nat

text \<open>Running a client's operations, collecting what it takes out.\<close>

fun fifo_run ::
  "(byte list \<Rightarrow> 'b \<Rightarrow> 'b result) \<Rightarrow> (int \<Rightarrow> 'b \<Rightarrow> (byte list \<times> 'b) result) \<Rightarrow>
   fifo_op list \<Rightarrow> 'b \<Rightarrow> (byte list \<times> 'b) result" where
  "fifo_run put get [] b = Inr ([], b)"
| "fifo_run put get (Put bs # ops) b = bindR (put bs b) (fifo_run put get ops)"
| "fifo_run put get (Get n # ops) b =
     bindR (get (int n) b)
       (\<lambda>(bs, b'). bindR (fifo_run put get ops b') (\<lambda>(out, b''). Inr (bs @ out, b'')))"

fun fifo_input :: "fifo_op list \<Rightarrow> byte list" where
  "fifo_input [] = []"
| "fifo_input (Put bs # ops) = bs @ fifo_input ops"
| "fifo_input (Get n # ops) = fifo_input ops"

locale byte_fifo =
  fixes inv :: "'b \<Rightarrow> bool" and content :: "'b \<Rightarrow> byte list"
    and room :: "'b \<Rightarrow> int" and avail :: "'b \<Rightarrow> int"
    and put :: "byte list \<Rightarrow> 'b \<Rightarrow> 'b result"
    and get :: "int \<Rightarrow> 'b \<Rightarrow> (byte list \<times> 'b) result"
  assumes put_sound: "inv b \<Longrightarrow> put bs b = Inr b' \<Longrightarrow> inv b' \<and> content b' = content b @ bs"
    and put_complete: "inv b \<Longrightarrow> int (length bs) \<le> room b \<Longrightarrow> \<exists>b'. put bs b = Inr b'"
    and get_sound: "inv b \<Longrightarrow> get (int n) b = Inr (bs, b') \<Longrightarrow>
      inv b' \<and> content b = bs @ content b' \<and> length bs = n"
    and get_complete: "inv b \<Longrightarrow> int n \<le> avail b \<Longrightarrow> \<exists>bs b'. get (int n) b = Inr (bs, b')"
begin

lemma run_inv: "inv b \<Longrightarrow> fifo_run put get ops b = Inr (out, b') \<Longrightarrow> inv b'"
  by (induction ops arbitrary: b out rule: fifo_input.induct)
    (auto simp: bindR_eq_Inr dest: put_sound get_sound)

lemma run_fifo:
  "inv b \<Longrightarrow> fifo_run put get ops b = Inr (out, b') \<Longrightarrow>
    out @ content b' = content b @ fifo_input ops"
proof (induction ops arbitrary: b out rule: fifo_input.induct)
  case 1
  then show ?case by simp
next
  case (2 bs ops)
  then obtain c where c: "put bs b = Inr c" "fifo_run put get ops c = Inr (out, b')"
    by (auto simp: bindR_eq_Inr)
  with put_sound [OF "2.prems"(1) c(1)] "2.IH" [of c out] show ?case by simp
next
  case (3 n ops)
  then obtain bs c out' where c: "get (int n) b = Inr (bs, c)"
      "fifo_run put get ops c = Inr (out', b')" "out = bs @ out'"
    by (auto simp: bindR_eq_Inr)
  with get_sound [OF "3.prems"(1) c(1)] "3.IH" [of c out'] show ?case by simp
qed

end

interpretation lb: byte_fifo lb_inv lb_content lb_room lb_avail lb_put lb_get
proof unfold_locales
  fix b bs b'
  assume inv: "lb_inv b" and put: "lb_put bs b = Inr b'"
  have "int (length bs) \<le> lb_room b"
    using lb_put_fails [OF inv, of bs] put by auto
  with inv put show "lb_inv b' \<and> lb_content b' = lb_content b @ bs"
    by (metis lb_put_ok sum.inject(2))
next
  fix b and bs :: "byte list"
  assume "lb_inv b" and "int (length bs) \<le> lb_room b"
  then show "\<exists>b'. lb_put bs b = Inr b'" by (metis lb_put_ok)
next
  fix b n bs b'
  assume inv: "lb_inv b" and get: "lb_get (int n) b = Inr (bs, b')"
  have avail: "int n \<le> lb_avail b"
    using lb_get_fails [OF inv, of "int n"] get by auto
  have "bs = take n (lb_content b) \<and> lb_inv b' \<and> lb_content b' = drop n (lb_content b)"
    by (rule lb_get_ok [OF inv _ avail]) (use get in auto)
  moreover have "n \<le> length (lb_content b)"
    using avail inv by (auto simp: lb_avail_def length_lb_content)
  ultimately show "lb_inv b' \<and> lb_content b = bs @ lb_content b' \<and> length bs = n"
    by simp
next
  fix b n
  assume "lb_inv b" and "int n \<le> lb_avail b"
  then show "\<exists>bs b'. lb_get (int n) b = Inr (bs, b')"
    by (metis lb_get_ok of_nat_0_le_iff)
qed


section \<open>What the buffer offers its client\<close>

lemma lb_getReadSpace_le: "lb_inv b \<Longrightarrow> lb_getReadSpace b \<le> lb_avail b"
  by (auto simp: lb_getReadSpace_def lb_avail_def lb_inv_def)

lemma lb_getWriteSpace_le:
  assumes "lb_inv b"
  shows "lb_getWriteSpace b \<le> lb_room b"
proof -
  define L where "L = length (lb_buf b)"
  from assms obtain r s where rs: "lb_read_p b = int r" "lb_size b = int s" "lb_len b = int L"
      "r < L" "s \<le> L" "lb_writ_p b = int ((r + s) mod L)"
    unfolding L_def by (rule lb_invE)
  show ?thesis
    using rs(4,5) unfolding lb_getWriteSpace_def lb_room_def rs(1-3,6)
    by (auto simp: ring_mod)
qed


lemma lb_spaces_nonneg:
  assumes "lb_inv b"
  shows "0 \<le> (if lb_read_p b + lb_size b \<le> lb_len b then lb_size b else lb_len b - lb_read_p b)"
    and "0 \<le> (if lb_writ_p b > lb_read_p b then lb_len b - lb_writ_p b
         else lb_read_p b - lb_writ_p b)"
  using assms lb_inv_writ [OF assms] by (auto simp: lb_inv_def)

lemma lb_put_atom: "lb_put bs b = Inr b' \<Longrightarrow> lb_atom b' = lb_atom b"
  by (auto simp: lb_put_def lb_poke_def lb_writen_def split: if_splits)

lemma lb_get_atom: "lb_get n b = Inr (bs, b') \<Longrightarrow> lb_atom b' = lb_atom b"
  by (auto simp: lb_get_def lb_readn_def bindR_eq_Inr split: if_splits)

lemma fifo_run_atom: "fifo_run lb_put lb_get ops b = Inr (out, b') \<Longrightarrow> lb_atom b' = lb_atom b"
  by (induction ops arbitrary: b out rule: fifo_input.induct)
    (auto simp: bindR_eq_Inr dest: lb_put_atom lb_get_atom)


section \<open>Properties\<close>

text \<open>Storing bytes at the write pointer and calling \<open>writen\<close> with their number
  appends exactly them to the contents of a well-formed buffer and keeps it well-formed,
  if they fit both the free space and the space up to the end of the array; otherwise the
  assertion of \<open>writen\<close> (or the store itself) fails. Overwriting unread data is
  impossible.\<close>

theorem loopbuffer_put_refines_append:
  assumes "lb_inv b"
  shows "if int (length bs) \<le> min (lb_len b - lb_size b) (lb_len b - lb_writ_p b)
    then \<exists>b'. lb_put bs b = Inr b' \<and> lb_inv b' \<and> lb_content b' = lb_content b @ bs
    else \<exists>f. lb_put bs b = Inl (Fault f)"
  using assms lb.put_sound lb.put_complete lb_put_fails
  unfolding lb_room_def [symmetric] by meson

theorem loopbuffer_put_refines_append_witness:
  "\<exists>b'. lb_put [1, 2] (lb_new [0, 0, 0] 0) = Inr b' \<and> lb_inv b' \<and>
    lb_content b' = lb_content (lb_new [0, 0, 0] 0) @ [1, 2]"
proof -
  have "lb_inv (lb_new [0, 0, 0] 0)" by (simp add: lb_new_inv)
  from loopbuffer_put_refines_append [OF this, of "[1, 2]"] show ?thesis
    by (simp add: lb_new_def)
qed

text \<open>C14: Whatever sequence of puts and gets a client performs on a well-formed buffer,
  if no assertion fails then the bytes it took out followed by the bytes still in the
  buffer are the initial contents followed by the bytes it put in: nothing is lost,
  duplicated or reordered, across any number of wrap-arounds.\<close>

theorem loopbuffer_fifo:
  assumes "lb_inv b" and "fifo_run lb_put lb_get ops b = Inr (out, b')"
  shows "lb_inv b' \<and> out @ lb_content b' = lb_content b @ fifo_input ops"
  using assms by (blast intro: lb.run_inv lb.run_fifo)

theorem loopbuffer_fifo_witness:
  "\<exists>out b'. fifo_run lb_put lb_get [Put [1, 2], Get 1, Put [3], Get 2, Put [4, 5]]
       (lb_new [0, 0, 0] 0) = Inr (out, b') \<and>
     lb_inv b' \<and> out @ lb_content b' = [1, 2, 3, 4, 5]"
proof -
  define b0 where "b0 = lb_new [0, 0, 0] 0"
  obtain out b' where run: "fifo_run lb_put lb_get
      [Put [1, 2], Get 1, Put [3], Get 2, Put [4, 5]] b0 = Inr (out, b')"
    by (simp add: b0_def lb_new_def lb_put_def lb_get_def lb_poke_def lb_peek_def
        lb_writen_def lb_readn_def overwrite_def signed_modulo_int_def)
  have "lb_inv b0" by (simp add: b0_def lb_new_inv)
  from loopbuffer_fifo [OF this run] run show ?thesis
    by (auto simp: b0_def)
qed

text \<open>A chunk no longer than \<open>getReadSpace\<close> can always be read: it is the front of
  the contents, and \<open>readn\<close> leaves the rest. A chunk no longer than \<open>getWriteSpace\<close> can
  always be written. The two numbers the buffer offers its client are safe.\<close>

theorem loopbuffer_spaces_safe:
  assumes "lb_inv b"
  shows "(int n \<le> lb_getReadSpace b \<longrightarrow>
      (\<exists>b'. lb_get (int n) b = Inr (take n (lb_content b), b') \<and>
        lb_content b' = drop n (lb_content b))) \<and>
    (int (length bs) \<le> lb_getWriteSpace b \<longrightarrow>
      (\<exists>b'. lb_put bs b = Inr b' \<and> lb_content b' = lb_content b @ bs))"
proof (intro conjI impI)
  assume "int n \<le> lb_getReadSpace b"
  with lb_getReadSpace_le [OF assms] have "int n \<le> lb_avail b" by simp
  then show "\<exists>b'. lb_get (int n) b = Inr (take n (lb_content b), b') \<and>
        lb_content b' = drop n (lb_content b)"
    using lb_get_ok [OF assms, of "int n"] by (metis nat_int of_nat_0_le_iff)
next
  assume "int (length bs) \<le> lb_getWriteSpace b"
  with lb_getWriteSpace_le [OF assms] have "int (length bs) \<le> lb_room b" by simp
  then show "\<exists>b'. lb_put bs b = Inr b' \<and> lb_content b' = lb_content b @ bs"
    by (metis lb_put_ok [OF assms])
qed

theorem loopbuffer_spaces_safe_witness:
  "\<exists>b'. lb_get (int 2) \<lparr>lb_len = 3, lb_atom = 3, lb_size = 2, lb_buf = [5, 6, 7],
      lb_read_p = 1, lb_writ_p = 0\<rparr> = Inr ([6, 7], b') \<and> lb_content b' = []"
proof -
  define b where "b = \<lparr>lb_len = 3, lb_atom = 3, lb_size = 2, lb_buf = [5, 6, 7 :: byte],
      lb_read_p = 1, lb_writ_p = 0\<rparr>"
  have "lb_inv b" by (simp add: b_def lb_inv_def)
  moreover have "lb_content b = [6, 7]" by (simp add: b_def lb_content_def rotate_drop_take)
  moreover have "int 2 \<le> lb_getReadSpace b" by (simp add: b_def lb_getReadSpace_def)
  ultimately show ?thesis
    using loopbuffer_spaces_safe [of b 2 "[]"] by (auto simp: b_def)
qed

text \<open>A buffer made by the constructor never offers any space to its client, neither
  for reading nor for writing, whatever chunk size was asked for and whatever was stored
  in it since: the constructor's test is the assignment \<open>atom = 0\<close>.\<close>

theorem loopbuffer_constructor_stuck:
  assumes "mem \<noteq> []" and "fifo_run lb_put lb_get ops (lb_new mem at) = Inr (out, b)"
  shows "lb_getReadSpace b = 0 \<and> lb_getWriteSpace b = 0"
proof -
  have atom: "lb_atom b = lb_atom (lb_new mem at)"
    using assms(2) by (rule fifo_run_atom)
  moreover have "lb_inv b"
    using lb.run_inv [OF lb_new_inv assms(2)] assms(1) by simp
  ultimately show ?thesis
    using lb_spaces_nonneg [of b] by (simp add: lb_new_def lb_getReadSpace_def
        lb_getWriteSpace_def Let_def min_def split: if_splits)
qed

theorem loopbuffer_constructor_stuck_witness:
  "\<exists>b. fifo_run lb_put lb_get [Put [7]] (lb_new [0, 0] 32768) = Inr ([], b) \<and>
    lb_getReadSpace b = 0 \<and> lb_getWriteSpace b = 0"
proof -
  obtain b where run: "fifo_run lb_put lb_get [Put [7]] (lb_new [0, 0] 32768) = Inr ([], b)"
    by (simp add: lb_new_def lb_put_def lb_poke_def lb_writen_def overwrite_def
        signed_modulo_int_def)
  with loopbuffer_constructor_stuck [OF _ run] show ?thesis by auto
qed

text \<open>Even with a chunk size in place, a well-formed empty buffer offers no space for
  writing: \<open>getWriteSpace\<close> takes equal pointers for a full buffer, although it has just
  excluded that case.\<close>

theorem loopbuffer_empty_offers_nothing:
  assumes "lb_inv b" and "lb_isempty b"
  shows "lb_getWriteSpace b \<le> 0 \<and> 0 < lb_room b"
  using assms by (auto simp: lb_isempty_def lb_getWriteSpace_def lb_room_def lb_inv_def)

theorem loopbuffer_empty_offers_nothing_witness:
  "lb_getWriteSpace (lb_new [0, 0] 5 \<lparr>lb_atom := 2\<rparr>) \<le> 0 \<and>
   0 < lb_room (lb_new [0, 0] 5 \<lparr>lb_atom := 2\<rparr>)"
  by (rule loopbuffer_empty_offers_nothing)
    (simp_all add: lb_inv_def lb_new_def lb_isempty_def)

end
