(* ===== verification/Sockaddr.thy ===== *)
theory Sockaddr
  imports Prelude
begin

text \<open>
  Socket addresses and the access check of \<^verbatim>\<open>src/lib/utils.cpp\<close>: \<open>sockaddr_match\<close>,
  \<open>sockaddr_mask\<close>, \<open>memand\<close> and \<open>check_source\<close>, on addresses as the bytes the code
  casts them to, so that a comparison that leaves its object is a fault of the model. The
  theorems say which connections the access check lets through.
\<close>


section \<open>Addresses as memory\<close>

text \<open>
  An address object: the family and the bytes that follow it. A \<open>sockaddr\<close> and a
  \<open>sockaddr_in\<close> have 14 of them, a \<open>sockaddr_in6\<close> has 26.
\<close>

record sockaddr =
  sa_family :: int
  sa_data :: "byte list"

abbreviation (input) AF_INET :: int where "AF_INET \<equiv> 2"
abbreviation (input) AF_INET6 :: int where "AF_INET6 \<equiv> 10"

text \<open>A member of an address object, read through a cast pointer.\<close>

definition sa_field :: "nat \<Rightarrow> nat \<Rightarrow> sockaddr \<Rightarrow> byte list result" where
  "sa_field off n sa =
     (if off + n \<le> length (sa_data sa) then Inr (take n (drop off (sa_data sa)))
      else Inl (Fault Out_of_bounds))"

abbreviation sin_port :: "sockaddr \<Rightarrow> byte list result" where "sin_port \<equiv> sa_field 0 2"
abbreviation sin_addr :: "sockaddr \<Rightarrow> byte list result" where "sin_addr \<equiv> sa_field 2 4"
abbreviation sin6_port :: "sockaddr \<Rightarrow> byte list result" where "sin6_port \<equiv> sa_field 0 2"
abbreviation sin6_addr :: "sockaddr \<Rightarrow> byte list result" where "sin6_addr \<equiv> sa_field 6 16"

text \<open>The comparison \<open>memcmp(x, y, n) ? false : true\<close> of two members.\<close>

definition members_equal :: "byte list result \<Rightarrow> byte list result \<Rightarrow> bool result" where
  "members_equal x y = bindR x (\<lambda>u. bindR y (\<lambda>v. Inr (u = v)))"


section \<open>The helpers of utils.cpp\<close>

text \<open>The port test compares the port of the first address with itself, as the code does.\<close>

definition sockaddr_match :: "sockaddr \<Rightarrow> sockaddr \<Rightarrow> bool \<Rightarrow> bool result" where
  "sockaddr_match addr1 addr2 portcmp =
     (if \<not> (sa_family addr1 = sa_family addr2 \<and>
            (sa_family addr1 = AF_INET \<or> sa_family addr1 = AF_INET6))
      then Inl (Fault Assertion_failed)
      else if sa_family addr1 = AF_INET then
        bindR (if portcmp then members_equal (sin_port addr1) (sin_port addr1) else Inr True)
          (\<lambda>same. if \<not> same then Inr False
                 else members_equal (sin_addr addr1) (sin_addr addr2))
      else
        bindR (if portcmp then members_equal (sin6_port addr1) (sin6_port addr1) else Inr True)
          (\<lambda>same. if \<not> same then Inr False
                 else members_equal (sin6_addr addr1) (sin6_addr addr2)))"

fun memand :: "byte list \<Rightarrow> byte list \<Rightarrow> nat \<Rightarrow> byte list result" where
  "memand dst src 0 = Inr dst"
| "memand (d # dst) (s # src) (Suc n) =
     bindR (memand dst src n) (\<lambda>r. Inr ((d AND s) # r))"
| "memand dst src (Suc n) = Inl (Fault Out_of_bounds)"

definition mask_at :: "nat \<Rightarrow> nat \<Rightarrow> sockaddr \<Rightarrow> sockaddr \<Rightarrow> sockaddr result" where
  "mask_at off n addr1 netmask =
     bindR (memand (drop off (sa_data addr1)) (drop off (sa_data netmask)) n)
       (\<lambda>r. Inr (addr1\<lparr>sa_data := take off (sa_data addr1) @ r\<rparr>))"

definition sockaddr_mask :: "sockaddr \<Rightarrow> sockaddr \<Rightarrow> sockaddr result" where
  "sockaddr_mask addr1 netmask =
     (if \<not> (sa_family addr1 = sa_family netmask \<and>
            (sa_family addr1 = AF_INET \<or> sa_family addr1 = AF_INET6))
      then Inl (Fault Assertion_failed)
      else if sa_family addr1 = AF_INET then mask_at 2 4 addr1 netmask
      else mask_at 6 16 addr1 netmask)"

text \<open>An element of the list that \<open>getifaddrs\<close> returns; \<open>None\<close> is a null pointer.\<close>

record ifaddrs =
  ifa_name :: string
  ifa_flags :: int
  ifa_addr :: "sockaddr option"
  ifa_netmask :: "sockaddr option"

text \<open>The loop of \<open>check_source\<close>; \<open>addr1\<close> is a \<open>struct sockaddr\<close> and so holds 14 bytes.\<close>

fun check_interfaces :: "sockaddr \<Rightarrow> bool \<Rightarrow> ifaddrs list \<Rightarrow> bool result" where
  "check_interfaces addr subnet [] = Inr False"
| "check_interfaces addr subnet (ifp # rest) =
     (case (ifa_addr ifp, ifa_netmask ifp) of
        (Some ifaddr, Some netmask) \<Rightarrow>
          (if sa_family addr \<noteq> sa_family ifaddr then check_interfaces addr subnet rest
           else
             let addr1 = addr\<lparr>sa_data := take 14 (sa_data addr)\<rparr>
             in bindR
                  (if subnet
                   then bindR (sockaddr_mask addr1 netmask)
                     (\<lambda>a. bindR (sockaddr_mask ifaddr netmask) (\<lambda>i. Inr (a, i)))
                   else Inr (addr1, ifaddr))
                  (\<lambda>(a, i). bindR (sockaddr_match a i False)
                     (\<lambda>match. if match then Inr True else check_interfaces addr subnet rest)))
      | _ \<Rightarrow> check_interfaces addr subnet rest)"

text \<open>
  \<open>check_source\<close> with the answer of \<open>getifaddrs\<close> as an argument: \<open>None\<close> when it failed,
  which ends the process.
\<close>

definition check_source :: "sockaddr \<Rightarrow> bool \<Rightarrow> ifaddrs list option \<Rightarrow> bool result" where
  "check_source addr subnet ifap =
     (case ifap of None \<Rightarrow> Inl (Exited 1) | Some ifs \<Rightarrow> check_interfaces addr subnet ifs)"

text \<open>
  The guard around the check, the same in \<open>main\<close> (source of a socks connection) and in
  \<open>start_child\<close> (destination of a request from the peer): \<open>-N\<close> widens it from the
  local device to the attached subnets, \<open>-N -N\<close> switches it off.
\<close>

definition access_allowed :: "int \<Rightarrow> sockaddr \<Rightarrow> ifaddrs list option \<Rightarrow> bool result" where
  "access_allowed net_access addr ifap =
     (if net_access < 2
      then let subnet = (if net_access > 0 then True else False)
           in check_source addr subnet ifap
      else Inr True)"


section \<open>What the helpers compute on IPv4 addresses\<close>

definition inet_sockaddr :: "sockaddr \<Rightarrow> bool" where
  "inet_sockaddr sa \<longleftrightarrow> sa_family sa = AF_INET \<and> length (sa_data sa) = 14"

text \<open>The four address bytes, and the network they belong to under a mask.\<close>

definition ip4 :: "sockaddr \<Rightarrow> byte list" where
  "ip4 sa = take 4 (drop 2 (sa_data sa))"

definition network :: "sockaddr \<Rightarrow> sockaddr \<Rightarrow> byte list" where
  "network sa nm = map2 (AND) (ip4 sa) (ip4 nm)"

lemma memand_map2:
  "n \<le> length dst \<Longrightarrow> n \<le> length src \<Longrightarrow>
    memand dst src n = Inr (map2 (AND) (take n dst) (take n src) @ drop n dst)"
  by (induction dst src n rule: memand.induct) auto

lemma sin_addr_ip4: "inet_sockaddr sa \<Longrightarrow> sin_addr sa = Inr (ip4 sa)"
  by (simp add: sa_field_def ip4_def inet_sockaddr_def)

lemma sockaddr_match_inet:
  "inet_sockaddr a \<Longrightarrow> inet_sockaddr b \<Longrightarrow> sockaddr_match a b portcmp = Inr (ip4 a = ip4 b)"
  by (auto simp: sockaddr_match_def members_equal_def ip4_def sa_field_def inet_sockaddr_def)

lemma sockaddr_mask_inet:
  assumes "inet_sockaddr a" and "inet_sockaddr m"
  obtains r where "sockaddr_mask a m = Inr r" and "inet_sockaddr r" and "ip4 r = network a m"
proof -
  define r where "r = a\<lparr>sa_data := take 2 (sa_data a) @ network a m @ drop 6 (sa_data a)\<rparr>"
  have len: "length (network a m) = 4"
    using assms by (simp add: network_def ip4_def inet_sockaddr_def)
  have "sockaddr_mask a m = Inr r"
    using assms
    by (simp add: sockaddr_mask_def mask_at_def memand_map2 r_def network_def ip4_def
        inet_sockaddr_def)
  moreover have "inet_sockaddr r" using assms len by (simp add: r_def inet_sockaddr_def)
  moreover have "ip4 r = network a m" using assms len by (simp add: r_def ip4_def inet_sockaddr_def)
  ultimately show ?thesis by (rule that)
qed

text \<open>
  What \<open>getifaddrs\<close> documents for an IPv4 interface: address and netmask of the same
  family and of the size of a \<open>sockaddr_in\<close>.
\<close>

definition inet_interface :: "ifaddrs \<Rightarrow> bool" where
  "inet_interface i \<longleftrightarrow>
     (\<forall>ia nm. ifa_addr i = Some ia \<longrightarrow> ifa_netmask i = Some nm \<longrightarrow> sa_family ia = AF_INET \<longrightarrow>
        inet_sockaddr ia \<and> inet_sockaddr nm)"

text \<open>
  The two access rules of the README: the address is that of an interface, or lies in the
  network of one.
\<close>

definition iface_rule :: "sockaddr \<Rightarrow> bool \<Rightarrow> ifaddrs \<Rightarrow> bool" where
  "iface_rule addr subnet i =
     (case (ifa_addr i, ifa_netmask i) of
        (Some ia, Some nm) \<Rightarrow> sa_family ia = AF_INET \<and>
          (if subnet then network addr nm = network ia nm else ip4 addr = ip4 ia)
      | _ \<Rightarrow> False)"

lemma iface_rule_simps [simp]:
  "ifa_addr i = Some ia \<Longrightarrow> ifa_netmask i = Some nm \<Longrightarrow> iface_rule addr subnet i \<longleftrightarrow>
    sa_family ia = AF_INET \<and> (if subnet then network addr nm = network ia nm else ip4 addr = ip4 ia)"
  "ifa_addr i = None \<Longrightarrow> \<not> iface_rule addr subnet i"
  "ifa_netmask i = None \<Longrightarrow> \<not> iface_rule addr subnet i"
  by (simp_all add: iface_rule_def split: option.split)

lemma check_interfaces_inet:
  assumes addr: "inet_sockaddr addr"
  shows "\<forall>i \<in> set ifs. inet_interface i \<Longrightarrow>
    check_interfaces addr subnet ifs = Inr (\<exists>i \<in> set ifs. iface_rule addr subnet i)"
proof (induction ifs)
  case Nil
  then show ?case by simp
next
  case (Cons i ifs)
  then have IH: "check_interfaces addr subnet ifs = Inr (\<exists>i \<in> set ifs. iface_rule addr subnet i)"
    by simp
  have trunc: "addr\<lparr>sa_data := take 14 (sa_data addr)\<rparr> = addr"
    using addr by (simp add: inet_sockaddr_def)
  show ?case
  proof (cases "\<exists>ia nm. ifa_addr i = Some ia \<and> ifa_netmask i = Some nm \<and> sa_family ia = AF_INET")
    case False
    then show ?thesis
      using addr IH by (auto simp: inet_sockaddr_def iface_rule_def split: option.split)
  next
    case True
    then obtain ia nm where i: "ifa_addr i = Some ia" "ifa_netmask i = Some nm"
        "sa_family ia = AF_INET" by blast
    with Cons.prems have wf: "inet_sockaddr ia" "inet_sockaddr nm"
      by (auto simp: inet_interface_def)
    obtain a where a: "sockaddr_mask addr nm = Inr a" "inet_sockaddr a" "ip4 a = network addr nm"
      using addr wf(2) by (rule sockaddr_mask_inet)
    obtain b where b: "sockaddr_mask ia nm = Inr b" "inet_sockaddr b" "ip4 b = network ia nm"
      using wf by (rule sockaddr_mask_inet)
    have fam: "sa_family addr = sa_family ia" using addr i by (simp add: inet_sockaddr_def)
    show ?thesis
      using i a b wf addr IH fam
      by (cases subnet) (simp_all add: trunc sockaddr_match_inet)
  qed
qed


section \<open>Properties\<close>

text \<open>C11: For an IPv4 address and the interfaces the system documents, \<open>check_source\<close>
  returns without a fault, and returns true exactly when the address is that of an
  interface (default), or when it lies in the network of one (\<open>-N\<close>).\<close>

theorem check_source_decides_rule:
  assumes "inet_sockaddr addr" and "\<forall>i \<in> set ifs. inet_interface i"
  shows "check_source addr subnet (Some ifs) = Inr (\<exists>i \<in> set ifs. iface_rule addr subnet i)"
  using assms by (simp add: check_source_def check_interfaces_inet)

theorem check_source_decides_rule_witness:
  "check_source \<lparr>sa_family = 2, sa_data = [0, 80, 10, 0, 0, 7] @ replicate 8 0\<rparr> True
     (Some [\<lparr>ifa_name = ''lo'', ifa_flags = 0, ifa_addr = None, ifa_netmask = None\<rparr>,
        \<lparr>ifa_name = ''eth0'', ifa_flags = 0,
         ifa_addr = Some \<lparr>sa_family = 2, sa_data = [0, 0, 10, 0, 0, 1] @ replicate 8 0\<rparr>,
         ifa_netmask = Some \<lparr>sa_family = 2, sa_data = [0, 0, 255, 255, 255, 0] @ replicate 8 0\<rparr>\<rparr>])
   = Inr True"
  by (subst check_source_decides_rule)
    (simp_all add: inet_sockaddr_def inet_interface_def network_def ip4_def)

text \<open>Each further \<open>-N\<close> only widens the access: a connection that is let through with
  fewer of them is let through with more.\<close>

theorem access_monotone:
  assumes "inet_sockaddr addr" and "\<forall>i \<in> set ifs. inet_interface i"
    and "access_allowed n addr (Some ifs) = Inr True" and "n \<le> m"
  shows "access_allowed m addr (Some ifs) = Inr True"
proof -
  have "iface_rule addr True i" if "iface_rule addr False i" for i
    using that by (auto simp: network_def iface_rule_def split: option.splits)
  with assms show ?thesis
    by (auto simp: access_allowed_def check_source_def check_interfaces_inet Let_def
        split: if_splits)
qed

theorem access_monotone_witness:
  "access_allowed 1 \<lparr>sa_family = 2, sa_data = [0, 80, 127, 0, 0, 1] @ replicate 8 0\<rparr>
     (Some [\<lparr>ifa_name = ''lo'', ifa_flags = 0,
         ifa_addr = Some \<lparr>sa_family = 2, sa_data = [0, 0, 127, 0, 0, 1] @ replicate 8 0\<rparr>,
         ifa_netmask = Some \<lparr>sa_family = 2, sa_data = [0, 0, 255, 0, 0, 0] @ replicate 8 0\<rparr>\<rparr>])
   = Inr True"
  by (rule access_monotone [of _ _ 0])
    (simp_all add: inet_sockaddr_def inet_interface_def access_allowed_def check_source_def
      sockaddr_match_def members_equal_def sa_field_def)

text \<open>The \<open>portcmp\<close> argument of \<open>sockaddr_match\<close> has no effect on its answer for
  IPv4 addresses: the port of the first address is compared with itself, so the answer is
  the equality of the four address bytes whatever the two ports are.\<close>

theorem sockaddr_match_ignores_port:
  assumes "inet_sockaddr a" and "inet_sockaddr b"
  shows "sockaddr_match a b portcmp = Inr (ip4 a = ip4 b)"
  using assms by (rule sockaddr_match_inet)

theorem sockaddr_match_ignores_port_witness:
  "sin_port \<lparr>sa_family = 2, sa_data = [1, 187, 10, 0, 0, 7] @ replicate 8 0\<rparr> \<noteq>
   sin_port \<lparr>sa_family = 2, sa_data = [0, 80, 10, 0, 0, 7] @ replicate 8 0\<rparr> \<and>
   sockaddr_match \<lparr>sa_family = 2, sa_data = [1, 187, 10, 0, 0, 7] @ replicate 8 0\<rparr>
     \<lparr>sa_family = 2, sa_data = [0, 80, 10, 0, 0, 7] @ replicate 8 0\<rparr> True = Inr True"
  by (subst sockaddr_match_ignores_port) (simp_all add: inet_sockaddr_def sa_field_def ip4_def)

text \<open>An IPv6 address that meets an IPv6 interface makes the check read outside of its
  local \<open>struct sockaddr\<close>, which is too small for a \<open>sockaddr_in6\<close>.\<close>

theorem check_source_inet6_out_of_bounds:
  assumes "sa_family addr = AF_INET6" and "ifa_addr i = Some ia" and "ifa_netmask i = Some nm"
    and "sa_family ia = AF_INET6"
  shows "check_source addr False (Some (i # ifs)) = Inl (Fault Out_of_bounds)"
  using assms
  by (simp add: check_source_def sockaddr_match_def members_equal_def sa_field_def)

theorem check_source_inet6_out_of_bounds_witness:
  "check_source \<lparr>sa_family = 10, sa_data = replicate 26 0\<rparr> False
     (Some [\<lparr>ifa_name = ''lo'', ifa_flags = 0,
        ifa_addr = Some \<lparr>sa_family = 10, sa_data = replicate 26 0\<rparr>,
        ifa_netmask = Some \<lparr>sa_family = 10, sa_data = replicate 26 255\<rparr>\<rparr>])
   = Inl (Fault Out_of_bounds)"
  by (rule check_source_inet6_out_of_bounds
      [where ia = "\<lparr>sa_family = 10, sa_data = replicate 26 0\<rparr>"
        and nm = "\<lparr>sa_family = 10, sa_data = replicate 26 255\<rparr>"])
    (simp_all only: sockaddr.select_convs ifaddrs.select_convs)

end
