(* ===== verification/System.thy ===== *)
theory System
  imports Sockaddr
begin

text \<open>
  The boundary between the program and its environment. The operating system and the UDT
  library are not part of the repository: they are one parameter of the model, a function
  \<open>os\<close> that answers a call from a hidden state. The model threads that state together with
  \<open>errno\<close>, the last error of UDT and a log of all calls, from which the byte streams of
  every endpoint are read off.
\<close>


section \<open>Calls and answers\<close>

text \<open>A socket of the kernel, or one of the UDT library, by its own number.\<close>

datatype endpoint = Tcp int | Udt int

datatype sock_kind = Tcp_kind | Udp_kind | Udt_kind

text \<open>
  Options of UDT that the code names; \<open>Other_opt\<close> stands for those it does not.
\<close>

datatype udt_opt =
    UDT_MSS | UDT_SNDSYN | UDT_RCVSYN | UDT_SNDBUF | UDT_RCVBUF | UDT_LINGER
  | UDP_SNDBUF | UDP_RCVBUF | UDT_RENDEZVOUS | UDT_SNDTIMEO | UDT_RCVTIMEO | UDT_REUSEADDR
  | Other_opt nat

text \<open>Options of the kernel that the code names.\<close>

datatype so_opt =
    SO_SNDBUF | SO_RCVBUF | SO_LINGER | SO_SNDTIMEO | SO_RCVTIMEO | SO_REUSEADDR

datatype priority = LOG_ALERT | LOG_CRIT | LOG_ERR | LOG_WARNING | LOG_NOTICE | LOG_INFO | LOG_DEBUG

text \<open>
  One constructor per function of the environment that the code calls. \<open>Say\<close> is the
  output of a log line: its priority and format string.
\<close>

datatype call =
    Socket sock_kind
  | Bind endpoint sockaddr
  | Connect endpoint sockaddr
  | Listen endpoint int
  | Accept endpoint
  | Getpeername endpoint
  | Send endpoint "byte list" int
  | Recv endpoint int int
  | Write int "byte list"
  | Read int int
  | Sendmsg endpoint "byte list"
  | Recvmsg endpoint int
  | Close endpoint
  | Shutdown int int
  | Fcntl_getfl int
  | Fcntl_setfl int int
  | Set_so int so_opt int int
  | Get_so int so_opt
  | Set_udt int udt_opt int
  | Get_udt int udt_opt
  | Poll int int
  | Select int "int set" "int set" "int set" int
  | Udt_select "int set" "int set" "int set" int
  | Getifaddrs
  | Fork
  | Wait
  | Kill int int
  | Setpgid
  | Setsid
  | Time
  | Pause int
  | Say priority string

datatype resp =
    Ret int                              \<comment> \<open>success with a number\<close>
  | Fail int                             \<comment> \<open>-1, with an error code\<close>
  | Data "byte list"                     \<comment> \<open>bytes received, their number is the result\<close>
  | Addr int sockaddr                    \<comment> \<open>a number and a peer address\<close>
  | Ready int "int set" "int set" "int set"  \<comment> \<open>the outcome of a select\<close>
  | Ifs "ifaddrs list"                   \<comment> \<open>the interfaces\<close>

text \<open>The number the call returns to the program.\<close>

fun rv :: "resp \<Rightarrow> int" where
  "rv (Ret n) = n"
| "rv (Fail e) = -1"
| "rv (Data bs) = int (length bs)"
| "rv (Addr n a) = n"
| "rv (Ready n r w e) = n"
| "rv (Ifs l) = 0"

fun resp_data :: "resp \<Rightarrow> byte list" where
  "resp_data (Data bs) = bs"
| "resp_data r = []"

text \<open>
  The documented range of the answers: a receiving call stores at most as many bytes as
  it was given room for, a sending call accepts at most the bytes it was given, \<open>select\<close>
  leaves only members of the sets it was given, and so on. Every call may fail.
\<close>

fun resp_ok :: "call \<Rightarrow> resp \<Rightarrow> bool" where
  "resp_ok c (Fail e) \<longleftrightarrow> True"
| "resp_ok c (Ret n) \<longleftrightarrow>
     (case c of
        Send ep bs f \<Rightarrow> 0 \<le> n \<and> n \<le> int (length bs)
      | Write fd bs \<Rightarrow> 0 \<le> n \<and> n \<le> int (length bs)
      | Sendmsg ep bs \<Rightarrow> 0 \<le> n \<and> n \<le> int (length bs)
      | Recv ep m f \<Rightarrow> False
      | Read fd m \<Rightarrow> False
      | Recvmsg ep m \<Rightarrow> False
      | Accept ep \<Rightarrow> False
      | Getpeername ep \<Rightarrow> False
      | Select n r w e t \<Rightarrow> False
      | Udt_select r w e t \<Rightarrow> False
      | Getifaddrs \<Rightarrow> False
      | Poll fd t \<Rightarrow> n = 0 \<or> n = 1
      | Connect ep a \<Rightarrow> n = 0
      | _ \<Rightarrow> 0 \<le> n)"
| "resp_ok c (Data bs) \<longleftrightarrow>
     (case c of
        Recv ep m f \<Rightarrow> int (length bs) \<le> m
      | Read fd m \<Rightarrow> int (length bs) \<le> m
      | Recvmsg ep m \<Rightarrow> int (length bs) \<le> m
      | _ \<Rightarrow> False)"
| "resp_ok c (Addr n a) \<longleftrightarrow>
     (case c of Accept ep \<Rightarrow> 0 \<le> n | Getpeername ep \<Rightarrow> n = 0 | _ \<Rightarrow> False)"
| "resp_ok c (Ready n r w e) \<longleftrightarrow>
     (case c of
        Select m r0 w0 e0 t \<Rightarrow> 0 \<le> n \<and> r \<subseteq> r0 \<and> w \<subseteq> w0 \<and> e \<subseteq> e0
      | Udt_select r0 w0 e0 t \<Rightarrow> 0 \<le> n \<and> r \<subseteq> r0 \<and> w \<subseteq> w0 \<and> e \<subseteq> e0
      | _ \<Rightarrow> False)"
| "resp_ok c (Ifs l) \<longleftrightarrow> (case c of Getifaddrs \<Rightarrow> True | _ \<Rightarrow> False)"

text \<open>Error codes of the kernel that the code tests or sets.\<close>

abbreviation (input) EINTR :: int where "EINTR \<equiv> 4"
abbreviation (input) EIO :: int where "EIO \<equiv> 5"
abbreviation (input) EFAULT :: int where "EFAULT \<equiv> 14"
abbreviation (input) ENOPROTOOPT :: int where "ENOPROTOOPT \<equiv> 92"
abbreviation (input) EAFNOSUPPORT :: int where "EAFNOSUPPORT \<equiv> 97"
abbreviation (input) ECONNREFUSED :: int where "ECONNREFUSED \<equiv> 111"

text \<open>
  An environment, and its answer to a call. An answer outside of the documented range is
  read as a failure, so that \<open>os\<close> ranges over all environments that keep the documentation.
\<close>

type_synonym 'w os = "'w \<Rightarrow> call \<Rightarrow> resp \<times> 'w"

definition answer :: "'w os \<Rightarrow> 'w \<Rightarrow> call \<Rightarrow> resp \<times> 'w" where
  "answer os w c = (let (r, w') = os w c in (if resp_ok c r then r else Fail EIO, w'))"

lemma answer_ok: "answer os w c = (r, w') \<Longrightarrow> resp_ok c r"
  by (auto simp: answer_def Let_def split: prod.splits if_splits)


section \<open>The state of a process with respect to its environment\<close>

record 'w sys =
  world :: 'w
  errno :: int
  udt_errno :: int
  log :: "(call \<times> resp) list"

text \<open>A failing call of the UDT library records its error there, not in \<open>errno\<close>.\<close>

fun is_udt :: "endpoint \<Rightarrow> bool" where
  "is_udt (Udt u) = True"
| "is_udt (Tcp fd) = False"

definition of_udt :: "call \<Rightarrow> bool" where
  "of_udt c =
     (case c of
        Bind ep a \<Rightarrow> is_udt ep
      | Connect ep a \<Rightarrow> is_udt ep
      | Listen ep n \<Rightarrow> is_udt ep
      | Accept ep \<Rightarrow> is_udt ep
      | Getpeername ep \<Rightarrow> is_udt ep
      | Send ep bs f \<Rightarrow> is_udt ep
      | Recv ep n f \<Rightarrow> is_udt ep
      | Sendmsg ep bs \<Rightarrow> is_udt ep
      | Recvmsg ep n \<Rightarrow> is_udt ep
      | Close ep \<Rightarrow> is_udt ep
      | Socket k \<Rightarrow> k = Udt_kind
      | Set_udt u opt v \<Rightarrow> True
      | Get_udt u opt \<Rightarrow> True
      | Udt_select r w e t \<Rightarrow> True
      | _ \<Rightarrow> False)"

definition sys_call :: "'w os \<Rightarrow> call \<Rightarrow> 'w sys \<Rightarrow> resp \<times> 'w sys" where
  "sys_call os c s =
     (let (r, w') = answer os (world s) c;
          s' = s\<lparr>world := w', log := log s @ [(c, r)]\<rparr>
      in (r, (case r of
                Fail e \<Rightarrow> if of_udt c then s'\<lparr>udt_errno := e\<rparr> else s'\<lparr>errno := e\<rparr>
              | _ \<Rightarrow> s')))"

text \<open>A call of which only the number is used, and a log line.\<close>

definition sys_num :: "'w os \<Rightarrow> call \<Rightarrow> 'w sys \<Rightarrow> int \<times> 'w sys" where
  "sys_num os c s = (let (r, s') = sys_call os c s in (rv r, s'))"

definition sys_do :: "'w os \<Rightarrow> call \<Rightarrow> 'w sys \<Rightarrow> 'w sys" where
  "sys_do os c s = snd (sys_call os c s)"

lemma sys_call_ok: "sys_call os c s = (r, s') \<Longrightarrow> resp_ok c r"
  by (auto simp: sys_call_def Let_def split: prod.splits dest: answer_ok)

lemma sys_call_log: "sys_call os c s = (r, s') \<Longrightarrow> log s' = log s @ [(c, r)]"
  by (auto simp: sys_call_def Let_def split: prod.splits resp.splits)

lemma sys_call_errno:
  "sys_call os c s = (r, s') \<Longrightarrow>
    errno s' = (case r of Fail e \<Rightarrow> if of_udt c then errno s else e | _ \<Rightarrow> errno s)"
  by (auto simp: sys_call_def Let_def split: prod.splits resp.splits)

lemma sys_do_log: "\<exists>r. log (sys_do os c s) = log s @ [(c, r)]"
  by (metis sys_call_log sys_do_def prod.collapse)


text \<open>Between two states, only calls of a certain kind were made.\<close>

definition only_calls :: "(call \<Rightarrow> bool) \<Rightarrow> 'w sys \<Rightarrow> 'w sys \<Rightarrow> bool" where
  "only_calls P s s' \<longleftrightarrow> (\<exists>l. log s' = log s @ l \<and> (\<forall>e \<in> set l. P (fst e)))"

lemma only_calls_refl [simp]: "only_calls P s s"
  by (simp add: only_calls_def)

lemma only_calls_trans [trans]: "only_calls P s t \<Longrightarrow> only_calls P t u \<Longrightarrow> only_calls P s u"
  unfolding only_calls_def by (metis Un_iff append.assoc set_append)

lemma only_calls_sys_call: "sys_call os c s = (r, s') \<Longrightarrow> P c \<Longrightarrow> only_calls P s s'"
  by (auto simp: only_calls_def sys_call_log)

lemma only_calls_sys_num: "sys_num os c s = (n, s') \<Longrightarrow> P c \<Longrightarrow> only_calls P s s'"
  by (auto simp: sys_num_def split: prod.splits intro: only_calls_sys_call)

lemma only_calls_sys_do: "P c \<Longrightarrow> only_calls P s (sys_do os c s)"
  unfolding sys_do_def by (metis only_calls_sys_call prod.collapse)

lemma only_calls_then_do: "only_calls P s t \<Longrightarrow> P c \<Longrightarrow> only_calls P s (sys_do os c t)"
  by (metis only_calls_trans only_calls_sys_do)

lemma only_calls_then_num:
  "only_calls P s t \<Longrightarrow> sys_num os c t = (n, t') \<Longrightarrow> P c \<Longrightarrow> only_calls P s t'"
  by (metis only_calls_trans only_calls_sys_num)

lemma only_calls_weaken: "only_calls P s s' \<Longrightarrow> (\<And>c. P c \<Longrightarrow> Q c) \<Longrightarrow> only_calls Q s s'"
  by (auto simp: only_calls_def)


text \<open>A projection of the calls made so far, and two of them: what was offered for sending to
  an endpoint, call by call, and the connections attempted.\<close>

definition calls_of :: "(call \<Rightarrow> 'a list) \<Rightarrow> 'w sys \<Rightarrow> 'a list" where
  "calls_of f s = concat (map (\<lambda>e. f (fst e)) (log s))"

definition sends :: "endpoint \<Rightarrow> call \<Rightarrow> byte list list" where
  "sends ep c = (case c of Send ep' bs f \<Rightarrow> if ep' = ep then [bs] else [] | _ \<Rightarrow> [])"

definition connects :: "call \<Rightarrow> (endpoint \<times> sockaddr) list" where
  "connects c = (case c of Connect ep a \<Rightarrow> [(ep, a)] | _ \<Rightarrow> [])"

definition closes :: "call \<Rightarrow> endpoint list" where
  "closes c = (case c of Close ep \<Rightarrow> [ep] | _ \<Rightarrow> [])"

definition says :: "call \<Rightarrow> (priority \<times> string) list" where
  "says c = (case c of Say p fmt \<Rightarrow> [(p, fmt)] | _ \<Rightarrow> [])"

lemma calls_of_call: "sys_call os c s = (r, s') \<Longrightarrow> calls_of f s' = calls_of f s @ f c"
  by (simp add: calls_of_def sys_call_log)

lemma calls_of_num: "sys_num os c s = (n, s') \<Longrightarrow> calls_of f s' = calls_of f s @ f c"
  by (auto simp: sys_num_def calls_of_call split: prod.splits)

lemma calls_of_do [simp]: "calls_of f (sys_do os c s) = calls_of f s @ f c"
  unfolding sys_do_def by (metis calls_of_call prod.collapse)

lemma calls_of_only:
  assumes "only_calls P s s'" and "\<And>c. P c \<Longrightarrow> f c = []"
  shows "calls_of f s' = calls_of f s"
proof -
  from assms(1) obtain l where "log s' = log s @ l" "\<forall>e \<in> set l. P (fst e)"
    by (auto simp: only_calls_def)
  with assms(2) show ?thesis by (auto simp: calls_of_def)
qed


section \<open>The byte streams of an endpoint\<close>

text \<open>What was received from an endpoint, and what it accepted for sending, in order.\<close>

definition in_bytes :: "endpoint \<Rightarrow> call \<times> resp \<Rightarrow> byte list" where
  "in_bytes ep ev =
     (case fst ev of
        Recv ep' n f \<Rightarrow> if ep' = ep then resp_data (snd ev) else []
      | Read fd n \<Rightarrow> if Tcp fd = ep then resp_data (snd ev) else []
      | _ \<Rightarrow> [])"

definition out_bytes :: "endpoint \<Rightarrow> call \<times> resp \<Rightarrow> byte list" where
  "out_bytes ep ev =
     (case fst ev of
        Send ep' bs f \<Rightarrow> if ep' = ep then take (nat (rv (snd ev))) bs else []
      | Write fd bs \<Rightarrow> if Tcp fd = ep then take (nat (rv (snd ev))) bs else []
      | _ \<Rightarrow> [])"

definition received :: "endpoint \<Rightarrow> 'w sys \<Rightarrow> byte list" where
  "received ep s = concat (map (in_bytes ep) (log s))"

definition sent :: "endpoint \<Rightarrow> 'w sys \<Rightarrow> byte list" where
  "sent ep s = concat (map (out_bytes ep) (log s))"

lemma received_call [trace_simps]:
  "sys_call os c s = (r, s') \<Longrightarrow> received ep s' = received ep s @ in_bytes ep (c, r)"
  by (simp add: received_def sys_call_log)

lemma sent_call [trace_simps]:
  "sys_call os c s = (r, s') \<Longrightarrow> sent ep s' = sent ep s @ out_bytes ep (c, r)"
  by (simp add: sent_def sys_call_log)


section \<open>A scripted environment\<close>

text \<open>
  An environment that answers from a list, for examples: its state is the list of the
  answers to come, and a script that is used up answers every call with a failure. Log
  lines do not consume an answer.
\<close>

definition script :: "resp list os" where
  "script w c =
     (case c of
        Say p fmt \<Rightarrow> (Ret 0, w)
      | _ \<Rightarrow> (case w of [] \<Rightarrow> (Fail EIO, []) | r # rs \<Rightarrow> (r, rs)))"

definition start :: "'w \<Rightarrow> 'w sys" where
  "start w = \<lparr>world = w, errno = 0, udt_errno = 0, log = []\<rparr>"

end
