(* ===== verification/Sock_Api.thy ===== *)
theory Sock_Api
  imports System
begin

text \<open>
  The uniform socket interface of \<^verbatim>\<open>src/include/socket_api.h\<close> and
  \<^verbatim>\<open>src/lib/socket_api.cpp\<close>: kernel descriptors and UDT sockets share one number space,
  in which UDT sockets are shifted by \<open>UDT_FD_BASE\<close>, and every function decides by the
  number which library it calls. Descriptor sets are interpreted as a finite-set interface
  (locale \<open>descriptor_set\<close>).
\<close>


section \<open>The shared number space\<close>

datatype proto = TCP | UDT

definition UDT_FD_BASE :: int where
  "UDT_FD_BASE = 16777215"

definition getsocktype :: "int \<Rightarrow> proto" where
  "getsocktype sd = (if sd < UDT_FD_BASE then TCP else UDT)"

definition getsockfd :: "int \<Rightarrow> int" where
  "getsockfd sd = (if sd < UDT_FD_BASE then sd else sd - UDT_FD_BASE)"

definition embedsockfd :: "int \<Rightarrow> proto \<Rightarrow> int" where
  "embedsockfd sd p = (if p = UDT then i32 (sd + UDT_FD_BASE) else sd)"

text \<open>The endpoint that a number of the shared space denotes.\<close>

definition endpoint_of :: "int \<Rightarrow> endpoint" where
  "endpoint_of sd = (if sd < UDT_FD_BASE then Tcp sd else Udt (sd - UDT_FD_BASE))"

text \<open>The numbers that \<open>embedsockfd\<close> can represent.\<close>

fun embeddable :: "int \<Rightarrow> proto \<Rightarrow> bool" where
  "embeddable sd TCP \<longleftrightarrow> 0 \<le> sd \<and> sd < UDT_FD_BASE"
| "embeddable sd UDT \<longleftrightarrow> 0 \<le> sd \<and> sd < 2 ^ 31 - UDT_FD_BASE"

fun raw_endpoint :: "int \<Rightarrow> proto \<Rightarrow> endpoint" where
  "raw_endpoint sd TCP = Tcp sd"
| "raw_endpoint sd UDT = Udt sd"

lemma endpoint_of_embed [simp]:
  "embeddable sd p \<Longrightarrow> endpoint_of (embedsockfd sd p) = raw_endpoint sd p"
  by (cases p) (simp_all add: endpoint_of_def embedsockfd_def UDT_FD_BASE_def)


section \<open>The wrappers\<close>

text \<open>
  Every wrapper follows the code: the test against \<open>UDT_FD_BASE\<close>, then the call of one of
  the two libraries. Results are the returned number and the new state.
\<close>

definition sapi_socket :: "'w os \<Rightarrow> proto \<Rightarrow> 'w sys \<Rightarrow> int \<times> 'w sys" where
  "sapi_socket os p s =
     (if p = TCP then sys_num os (Socket Tcp_kind) s
      else let (res, s') = sys_num os (Socket Udt_kind) s
           in (if res > 0 then i32 (res + UDT_FD_BASE) else res, s'))"

definition sapi_bind :: "'w os \<Rightarrow> int \<Rightarrow> sockaddr \<Rightarrow> 'w sys \<Rightarrow> int \<times> 'w sys" where
  "sapi_bind os sd addr s =
     (if sd < UDT_FD_BASE then sys_num os (Bind (Tcp sd) addr) s
      else sys_num os (Bind (Udt (sd - UDT_FD_BASE)) addr) s)"

definition sapi_connect :: "'w os \<Rightarrow> int \<Rightarrow> sockaddr \<Rightarrow> 'w sys \<Rightarrow> int \<times> 'w sys" where
  "sapi_connect os sd addr s =
     (if sd < UDT_FD_BASE then sys_num os (Connect (Tcp sd) addr) s
      else sys_num os (Connect (Udt (sd - UDT_FD_BASE)) addr) s)"

definition sapi_listen :: "'w os \<Rightarrow> int \<Rightarrow> int \<Rightarrow> 'w sys \<Rightarrow> int \<times> 'w sys" where
  "sapi_listen os sd n s =
     (if sd < UDT_FD_BASE then sys_num os (Listen (Tcp sd) n) s
      else sys_num os (Listen (Udt (sd - UDT_FD_BASE)) n) s)"

text \<open>The UDT branch returns the number of the library as it is.\<close>

definition sapi_accept :: "'w os \<Rightarrow> int \<Rightarrow> 'w sys \<Rightarrow> int \<times> 'w sys" where
  "sapi_accept os sd s =
     (if sd < UDT_FD_BASE then sys_num os (Accept (Tcp sd)) s
      else sys_num os (Accept (Udt (sd - UDT_FD_BASE))) s)"

text \<open>The kernel branch of \<open>recv\<close> drops the result and runs off the end of the function.\<close>

definition sapi_recv ::
  "'w os \<Rightarrow> int \<Rightarrow> int \<Rightarrow> int \<Rightarrow> 'w sys \<Rightarrow> int result \<times> byte list \<times> 'w sys" where
  "sapi_recv os sd n flags s =
     (if sd < UDT_FD_BASE
      then let (r, s') = sys_call os (Recv (Tcp sd) n flags) s
           in (Inl (Fault Missing_return), resp_data r, s')
      else let (r, s') = sys_call os (Recv (Udt (sd - UDT_FD_BASE)) n flags) s
           in (Inr (if rv r = -1 then -1 else rv r), resp_data r, s'))"

definition sapi_send :: "'w os \<Rightarrow> int \<Rightarrow> byte list \<Rightarrow> int \<Rightarrow> 'w sys \<Rightarrow> int \<times> 'w sys" where
  "sapi_send os sd buff flags s =
     (if sd < UDT_FD_BASE then sys_num os (Send (Tcp sd) buff flags) s
      else let (rc, s') = sys_num os (Send (Udt (sd - UDT_FD_BASE)) buff flags) s
           in (if rc = -1 then -1 else rc, s'))"

definition sapi_read :: "'w os \<Rightarrow> int \<Rightarrow> int \<Rightarrow> 'w sys \<Rightarrow> (int \<times> byte list) \<times> 'w sys" where
  "sapi_read os sd n s =
     (if sd < UDT_FD_BASE
      then let (r, s') = sys_call os (Read sd n) s in ((rv r, resp_data r), s')
      else let (r, s') = sys_call os (Recv (Udt (sd - UDT_FD_BASE)) n 0) s
           in ((if rv r = -1 then -1 else rv r, resp_data r), s'))"

definition sapi_write :: "'w os \<Rightarrow> int \<Rightarrow> byte list \<Rightarrow> 'w sys \<Rightarrow> int \<times> 'w sys" where
  "sapi_write os sd buff s =
     (if sd < UDT_FD_BASE then sys_num os (Write sd buff) s
      else let (rc, s') = sys_num os (Send (Udt (sd - UDT_FD_BASE)) buff 0) s
           in (if rc = -1 then -1 else rc, s'))"

text \<open>The overloads of \<open>recvmsg\<close> and \<open>sendmsg\<close>: with a \<open>msghdr\<close>, and with a buffer.\<close>

definition sapi_recvmsg_hdr ::
  "'w os \<Rightarrow> int \<Rightarrow> int \<Rightarrow> 'w sys \<Rightarrow> (int \<times> byte list) \<times> 'w sys" where
  "sapi_recvmsg_hdr os sd n s =
     (if sd < UDT_FD_BASE
      then let (r, s') = sys_call os (Recvmsg (Tcp sd) n) s in ((rv r, resp_data r), s')
      else ((-1, []), s))"

definition sapi_recvmsg ::
  "'w os \<Rightarrow> int \<Rightarrow> int \<Rightarrow> 'w sys \<Rightarrow> (int \<times> byte list) \<times> 'w sys" where
  "sapi_recvmsg os sd n s =
     (if sd < UDT_FD_BASE then ((-1, []), s)
      else let (r, s') = sys_call os (Recvmsg (Udt (sd - UDT_FD_BASE)) n) s
           in ((if rv r = -1 then -1 else rv r, resp_data r), s'))"

definition sapi_sendmsg_hdr :: "'w os \<Rightarrow> int \<Rightarrow> byte list \<Rightarrow> 'w sys \<Rightarrow> int \<times> 'w sys" where
  "sapi_sendmsg_hdr os sd msg s =
     (if sd < UDT_FD_BASE then sys_num os (Sendmsg (Tcp sd) msg) s else (-1, s))"

definition sapi_sendmsg :: "'w os \<Rightarrow> int \<Rightarrow> byte list \<Rightarrow> 'w sys \<Rightarrow> int \<times> 'w sys" where
  "sapi_sendmsg os sd buff s =
     (if sd < UDT_FD_BASE then (-1, s)
      else let (rc, s') = sys_num os (Sendmsg (Udt (sd - UDT_FD_BASE)) buff) s
           in (if rc = -1 then -1 else rc, s'))"

text \<open>\<open>close\<close> and \<open>shutdown\<close> are declared \<open>int\<close> and have no \<open>return\<close> at all.\<close>

definition sapi_close :: "'w os \<Rightarrow> int \<Rightarrow> 'w sys \<Rightarrow> int result \<times> 'w sys" where
  "sapi_close os sd s =
     (Inl (Fault Missing_return),
      if sd < UDT_FD_BASE then sys_do os (Close (Tcp sd)) s
      else sys_do os (Close (Udt (sd - UDT_FD_BASE))) s)"

definition sapi_shutdown :: "'w os \<Rightarrow> int \<Rightarrow> int \<Rightarrow> 'w sys \<Rightarrow> int result \<times> 'w sys" where
  "sapi_shutdown os sd how s =
     (Inl (Fault Missing_return),
      if sd < UDT_FD_BASE then sys_do os (Shutdown sd how) s
      else sys_do os (Close (Udt (sd - UDT_FD_BASE))) s)"

definition maxfdn :: "int \<Rightarrow> int \<Rightarrow> int" where
  "maxfdn sd1 sd2 =
     (let mfdn = 1;
          mfdn = (if sd1 < UDT_FD_BASE then i32 (sd1 + 1) else mfdn)
      in if sd2 < UDT_FD_BASE \<and> sd2 > sd1 then i32 (sd2 + 1) else mfdn)"

text \<open>The overload for a set of descriptors is not implemented: it asserts false.\<close>

definition maxfdn_set :: "int set \<Rightarrow> int result" where
  "maxfdn_set sds = Inl (Fault Assertion_failed)"


section \<open>Socket options\<close>

abbreviation (input) O_NONBLOCK :: int where "O_NONBLOCK \<equiv> 2048"

text \<open>The switch that translates option names of UDT to those of the kernel.\<close>

fun so_name :: "udt_opt \<Rightarrow> so_opt option" where
  "so_name UDT_SNDBUF = Some SO_SNDBUF"
| "so_name UDT_RCVBUF = Some SO_RCVBUF"
| "so_name UDT_LINGER = Some SO_LINGER"
| "so_name UDT_SNDTIMEO = Some SO_SNDTIMEO"
| "so_name UDT_RCVTIMEO = Some SO_RCVTIMEO"
| "so_name UDT_REUSEADDR = Some SO_REUSEADDR"
| "so_name opt = None"

text \<open>
  The blocking mode of a kernel descriptor: \<open>optval\<close> is the number behind the pointer, a
  \<open>bool\<close> in this case.
\<close>

definition set_blocking :: "'w os \<Rightarrow> int \<Rightarrow> int \<Rightarrow> 'w sys \<Rightarrow> int \<times> 'w sys" where
  "set_blocking os sd optval s =
     (let (val, s1) = sys_num os (Fcntl_getfl sd) s
      in if val = -1 then (-1, s1)
         else if optval \<noteq> 0
         then let (rc, s2) = sys_num os (Fcntl_setfl sd (val AND NOT O_NONBLOCK)) s1
              in (if rc = -1 then -1 else 0, s2)
         else let (rc, s2) = sys_num os (Fcntl_setfl sd (val OR O_NONBLOCK)) s1
              in (if rc = -1 then -1 else 0, s2))"

definition sapi_setsockopt ::
  "'w os \<Rightarrow> int \<Rightarrow> int \<Rightarrow> udt_opt \<Rightarrow> int \<Rightarrow> 'w sys \<Rightarrow> int \<times> 'w sys" where
  "sapi_setsockopt os sd level optname optval s =
     (if sd < UDT_FD_BASE then
        (if optname = UDT_SNDSYN \<or> optname = UDT_RCVSYN then set_blocking os sd optval s
         else case so_name optname of
                None \<Rightarrow> (-1, s\<lparr>errno := ENOPROTOOPT\<rparr>)
              | Some oname \<Rightarrow> sys_num os (Set_so sd oname optval 4) s)
      else sys_num os (Set_udt (sd - UDT_FD_BASE) optname optval) s)"

text \<open>
  \<open>getsockopt\<close> returns a status and what it stored through \<open>optval\<close>, if anything. The
  flag test is \<open>val | O_NONBLOCK\<close>, and the branch for UDT sockets on platforms where
  \<open>socklen_t\<close> has the size of \<open>int\<close> passes \<open>sd\<close> itself to the library.
\<close>

definition get_blocking ::
  "'w os \<Rightarrow> int \<Rightarrow> 'w sys \<Rightarrow> (int \<times> int option) \<times> 'w sys" where
  "get_blocking os sd s =
     (let (val, s1) = sys_num os (Fcntl_getfl sd) s
      in if val = -1 then ((-1, None), s1)
         else ((0, Some (if (val OR O_NONBLOCK) \<noteq> 0 then 0 else 1)), s1))"

definition get_option :: "resp \<Rightarrow> int \<times> int option" where
  "get_option r = (case r of Ret v \<Rightarrow> (0, Some v) | _ \<Rightarrow> (-1, None))"

definition sapi_getsockopt ::
  "'w os \<Rightarrow> int \<Rightarrow> int \<Rightarrow> int \<Rightarrow> int \<Rightarrow> udt_opt \<Rightarrow> 'w sys \<Rightarrow> (int \<times> int option) \<times> 'w sys" where
  "sapi_getsockopt os sizeof_socklen sizeof_int sd level optname s =
     (if sd < UDT_FD_BASE then
        (if optname = UDT_SNDSYN \<or> optname = UDT_RCVSYN then get_blocking os sd s
         else case so_name optname of
                None \<Rightarrow> ((-1, None), s\<lparr>errno := ENOPROTOOPT\<rparr>)
              | Some oname \<Rightarrow>
                  let (r, s1) = sys_call os (Get_so sd oname) s in (get_option r, s1))
      else if sizeof_socklen = sizeof_int then
        let (r, s1) = sys_call os (Get_udt sd optname) s in (get_option r, s1)
      else
        let (r, s1) = sys_call os (Get_udt (sd - UDT_FD_BASE) optname) s in (get_option r, s1))"


section \<open>Descriptor sets\<close>

text \<open>
  \<open>FDSET\<close> keeps kernel descriptors in an \<open>fd_set\<close>, a bit array of \<open>FD_SETSIZE\<close> bits whose
  macros do not check the index, and UDT sockets in a set of their own.
\<close>

record fdset =
  fd_kernel :: "int set"
  fd_udt :: "int set"

abbreviation (input) FD_SETSIZE :: int where "FD_SETSIZE \<equiv> 1024"

definition FDSET_ZERO :: fdset where
  "FDSET_ZERO = \<lparr>fd_kernel = {}, fd_udt = {}\<rparr>"

definition FDSET_SET :: "int \<Rightarrow> fdset \<Rightarrow> fdset result" where
  "FDSET_SET sd f =
     (if sd < UDT_FD_BASE
      then if 0 \<le> sd \<and> sd < FD_SETSIZE then Inr (f\<lparr>fd_kernel := insert sd (fd_kernel f)\<rparr>)
           else Inl (Fault Out_of_bounds)
      else Inr (f\<lparr>fd_udt := insert (sd - UDT_FD_BASE) (fd_udt f)\<rparr>))"

definition FDSET_CLR :: "int \<Rightarrow> fdset \<Rightarrow> fdset result" where
  "FDSET_CLR sd f =
     (if sd < UDT_FD_BASE
      then if 0 \<le> sd \<and> sd < FD_SETSIZE then Inr (f\<lparr>fd_kernel := fd_kernel f - {sd}\<rparr>)
           else Inl (Fault Out_of_bounds)
      else Inr (f\<lparr>fd_udt := fd_udt f - {sd - UDT_FD_BASE}\<rparr>))"

definition FDSET_ISSET :: "int \<Rightarrow> fdset \<Rightarrow> bool result" where
  "FDSET_ISSET sd f =
     (if sd < UDT_FD_BASE
      then if 0 \<le> sd \<and> sd < FD_SETSIZE then Inr (sd \<in> fd_kernel f)
           else Inl (Fault Out_of_bounds)
      else Inr (sd - UDT_FD_BASE \<in> fd_udt f))"

text \<open>The descriptors for which the macros stay inside of the bit array.\<close>

definition selectable :: "int \<Rightarrow> bool" where
  "selectable sd \<longleftrightarrow> 0 \<le> sd \<and> (sd < FD_SETSIZE \<or> UDT_FD_BASE \<le> sd)"

locale descriptor_set =
  fixes valid :: "int \<Rightarrow> bool" and empty :: 'f
    and add remove :: "int \<Rightarrow> 'f \<Rightarrow> 'f result" and member :: "int \<Rightarrow> 'f \<Rightarrow> bool result"
  assumes member_empty: "valid x \<Longrightarrow> member x empty = Inr False"
    and member_add: "valid x \<Longrightarrow> valid y \<Longrightarrow> \<exists>g. add x f = Inr g \<and>
      member y g = (if y = x then Inr True else member y f)"
    and member_remove: "valid x \<Longrightarrow> valid y \<Longrightarrow> \<exists>g. remove x f = Inr g \<and>
      member y g = (if y = x then Inr False else member y f)"
    and member_total: "valid x \<Longrightarrow> \<exists>b. member x f = Inr b"
begin

fun add_all :: "int list \<Rightarrow> 'f \<Rightarrow> 'f result" where
  "add_all [] f = Inr f"
| "add_all (x # xs) f = bindR (add x f) (add_all xs)"

lemma member_add_all:
  "\<forall>x \<in> set xs. valid x \<Longrightarrow> valid y \<Longrightarrow>
    \<exists>g. add_all xs f = Inr g \<and> member y g = (if y \<in> set xs then Inr True else member y f)"
proof (induction xs arbitrary: f)
  case Nil
  then show ?case by simp
next
  case (Cons x xs)
  then obtain g where g: "add x f = Inr g"
      "member y g = (if y = x then Inr True else member y f)"
    using member_add [of x y f] by auto
  from Cons obtain h where "add_all xs g = Inr h"
      "member y h = (if y \<in> set xs then Inr True else member y g)"
    by (metis list.set_intros(2))
  with g show ?case by auto
qed

end

interpretation fds: descriptor_set selectable FDSET_ZERO FDSET_SET FDSET_CLR FDSET_ISSET
  by unfold_locales
    (auto simp: selectable_def FDSET_ZERO_def FDSET_SET_def FDSET_CLR_def FDSET_ISSET_def
      UDT_FD_BASE_def)


section \<open>Streams moved by the wrappers\<close>

lemma sys_num_send:
  assumes "sys_num os (Send e bs f) s = (n, s')"
  shows "n \<le> int (length bs) \<and> received ep s' = received ep s \<and>
    sent ep s' = sent ep s @ (if ep = e then take (nat n) bs else [])"
proof -
  from assms obtain r where r: "sys_call os (Send e bs f) s = (r, s')" "n = rv r"
    by (auto simp: sys_num_def split: prod.splits)
  with sys_call_ok [OF r(1)] show ?thesis
    by (cases r) (auto simp: trace_simps in_bytes_def out_bytes_def)
qed

lemma sys_num_write:
  assumes "sys_num os (Write fd bs) s = (n, s')"
  shows "n \<le> int (length bs) \<and> received ep s' = received ep s \<and>
    sent ep s' = sent ep s @ (if ep = Tcp fd then take (nat n) bs else [])"
proof -
  from assms obtain r where r: "sys_call os (Write fd bs) s = (r, s')" "n = rv r"
    by (auto simp: sys_num_def split: prod.splits)
  with sys_call_ok [OF r(1)] show ?thesis
    by (cases r) (auto simp: trace_simps in_bytes_def out_bytes_def)
qed

lemma sys_call_recv:
  assumes "sys_call os (Recv e m f) s = (r, s')"
  shows "(rv r = -1 \<and> resp_data r = [] \<or> rv r = int (length (resp_data r)) \<and> rv r \<le> m) \<and>
    sent ep s' = sent ep s \<and>
    received ep s' = received ep s @ (if ep = e then resp_data r else [])"
  using sys_call_ok [OF assms] assms
  by (cases r) (auto simp: trace_simps in_bytes_def out_bytes_def)

lemma sys_call_read:
  assumes "sys_call os (Read fd m) s = (r, s')"
  shows "(rv r = -1 \<and> resp_data r = [] \<or> rv r = int (length (resp_data r)) \<and> rv r \<le> m) \<and>
    sent ep s' = sent ep s \<and>
    received ep s' = received ep s @ (if ep = Tcp fd then resp_data r else [])"
  using sys_call_ok [OF assms] assms
  by (cases r) (auto simp: trace_simps in_bytes_def out_bytes_def)

lemma sapi_write_streams:
  "sapi_write os sd bs s = (n, s') \<Longrightarrow> n \<le> int (length bs) \<and> received ep s' = received ep s \<and>
    sent ep s' = sent ep s @ (if ep = endpoint_of sd then take (nat n) bs else [])"
  by (auto simp: sapi_write_def endpoint_of_def split: if_splits prod.splits
      dest: sys_num_write [where ep = ep] sys_num_send [where ep = ep])

lemma sapi_send_streams:
  "sapi_send os sd bs f s = (n, s') \<Longrightarrow> n \<le> int (length bs) \<and> received ep s' = received ep s \<and>
    sent ep s' = sent ep s @ (if ep = endpoint_of sd then take (nat n) bs else [])"
  by (auto simp: sapi_send_def endpoint_of_def split: if_splits prod.splits
      dest: sys_num_send [where ep = ep])

lemma sapi_read_streams:
  assumes "sapi_read os sd m s = ((n, data), s')"
  shows "(n = -1 \<and> data = [] \<or> n = int (length data) \<and> n \<le> m) \<and> sent ep s' = sent ep s \<and>
    received ep s' = received ep s @ (if ep = endpoint_of sd then data else [])"
proof (cases "sd < UDT_FD_BASE")
  case True
  with assms obtain r where "sys_call os (Read sd m) s = (r, s')" "n = rv r" "data = resp_data r"
    by (auto simp: sapi_read_def split: prod.splits)
  with sys_call_read [of os sd m s r s' ep] True show ?thesis by (auto simp: endpoint_of_def)
next
  case False
  with assms obtain r where "sys_call os (Recv (Udt (sd - UDT_FD_BASE)) m 0) s = (r, s')"
      "n = rv r" "data = resp_data r"
    by (auto simp: sapi_read_def split: prod.splits if_splits)
  with sys_call_recv [of os "Udt (sd - UDT_FD_BASE)" m 0 s r s' ep] False show ?thesis
    by (auto simp: endpoint_of_def)
qed


section \<open>Properties\<close>

text \<open>The embedding of the two descriptor spaces is lossless: a number embedded as a
  kernel descriptor or as a UDT socket is classified as such and read back unchanged, two
  different descriptors never collide, and every wrapper that takes the embedded number
  addresses exactly the endpoint it came from.\<close>

theorem embedding_roundtrip:
  assumes "embeddable sd p" and "embeddable sd' p'"
  shows "getsocktype (embedsockfd sd p) = p \<and> getsockfd (embedsockfd sd p) = sd \<and>
    endpoint_of (embedsockfd sd p) = raw_endpoint sd p \<and>
    (embedsockfd sd p = embedsockfd sd' p' \<longrightarrow> sd = sd' \<and> p = p')"
  using assms
  by (cases p; cases p')
    (simp_all add: getsocktype_def getsockfd_def embedsockfd_def endpoint_of_def UDT_FD_BASE_def)

theorem embedding_roundtrip_witness:
  "getsocktype (embedsockfd 1073741823 UDT) = UDT \<and>
   getsockfd (embedsockfd 1073741823 UDT) = 1073741823 \<and>
   endpoint_of (embedsockfd 1073741823 UDT) = Udt 1073741823 \<and>
   embedsockfd 1073741823 UDT \<noteq> embedsockfd 7 TCP"
  using embedding_roundtrip [of 1073741823 UDT 7 TCP] by (simp add: UDT_FD_BASE_def)

text \<open>Each byte-moving wrapper makes one call, at the endpoint its number denotes: what
  \<open>write\<close> and \<open>send\<close> report as accepted is appended to the stream sent to that endpoint
  and to no other, and what \<open>read\<close> stores is appended to the stream received from it.\<close>

theorem wrappers_address_endpoint:
  "(case sapi_write os sd bs s of (n, s') \<Rightarrow>
      n \<le> int (length bs) \<and> (\<forall>ep. received ep s' = received ep s \<and>
      sent ep s' = sent ep s @ (if ep = endpoint_of sd then take (nat n) bs else []))) \<and>
   (case sapi_send os sd bs f s of (n, s') \<Rightarrow>
      n \<le> int (length bs) \<and> (\<forall>ep. received ep s' = received ep s \<and>
      sent ep s' = sent ep s @ (if ep = endpoint_of sd then take (nat n) bs else []))) \<and>
   (case sapi_read os sd m s of ((n, data), s') \<Rightarrow>
      (n = -1 \<and> data = [] \<or> n = int (length data) \<and> n \<le> m) \<and> (\<forall>ep. sent ep s' = sent ep s \<and>
      received ep s' = received ep s @ (if ep = endpoint_of sd then data else [])))"
  using sapi_write_streams [of os sd bs s] sapi_send_streams [of os sd bs f s]
    sapi_read_streams [of os sd m s]
  by (auto split: prod.split)

text \<open>A descriptor set behaves as the set of the descriptors put into it, across both
  descriptor spaces: after \<open>SET\<close> of every descriptor of a list, \<open>ISSET\<close> answers membership
  in that list, and \<open>CLR\<close> removes exactly one.\<close>

theorem fdset_is_a_set:
  assumes "\<forall>x \<in> set xs. selectable x" and "selectable y" and "selectable z"
  shows "\<exists>f. fds.add_all xs FDSET_ZERO = Inr f \<and> FDSET_ISSET y f = Inr (y \<in> set xs) \<and>
    (\<exists>g. FDSET_CLR z f = Inr g \<and> FDSET_ISSET y g = Inr (y \<in> set xs \<and> y \<noteq> z))"
proof -
  obtain f where f: "fds.add_all xs FDSET_ZERO = Inr f" "FDSET_ISSET y f = Inr (y \<in> set xs)"
    using fds.member_add_all [OF assms(1,2), of FDSET_ZERO] fds.member_empty [OF assms(2)]
    by auto
  with fds.member_remove [OF assms(3,2), of f] show ?thesis by auto
qed

theorem fdset_is_a_set_witness:
  "\<exists>f. fds.add_all [5, UDT_FD_BASE + 5] FDSET_ZERO = Inr f \<and> FDSET_ISSET 5 f = Inr True \<and>
    (\<exists>g. FDSET_CLR 5 f = Inr g \<and> FDSET_ISSET 5 g = Inr False)"
  using fdset_is_a_set [of "[5, UDT_FD_BASE + 5]" 5 5]
  by (simp add: selectable_def UDT_FD_BASE_def)

text \<open>A connection accepted on a UDT socket is unusable through this interface: the
  number that \<open>accept\<close> returns never denotes the accepted UDT socket, although the number
  that \<open>socket\<close> returns for a new UDT socket always does.\<close>

theorem accept_returns_foreign_descriptor:
  assumes "UDT_FD_BASE \<le> sd"
    and "0 < fst (sys_num os (Socket Udt_kind) t)"
    and "fst (sys_num os (Socket Udt_kind) t) < 2 ^ 31 - UDT_FD_BASE"
  shows "endpoint_of (fst (sapi_accept os sd s)) \<noteq>
      Udt (fst (sys_num os (Accept (Udt (sd - UDT_FD_BASE))) s)) \<and>
    endpoint_of (fst (sapi_socket os UDT t)) = Udt (fst (sys_num os (Socket Udt_kind) t))"
  using assms
  by (auto simp: sapi_accept_def sapi_socket_def endpoint_of_def UDT_FD_BASE_def
      split: prod.splits)

theorem accept_returns_foreign_descriptor_witness:
  "endpoint_of (fst (sapi_accept script (UDT_FD_BASE + 3)
       (start [Addr 1073741820 \<lparr>sa_family = 2, sa_data = []\<rparr>]))) \<noteq> Udt 1073741820 \<and>
   endpoint_of (fst (sapi_socket script UDT (start [Ret 1073741821]))) = Udt 1073741821"
  using accept_returns_foreign_descriptor
    [of "UDT_FD_BASE + 3" script "start [Ret 1073741821]"
        "start [Addr 1073741820 \<lparr>sa_family = 2, sa_data = []\<rparr>]"]
  by (simp add: sys_num_def sys_call_def answer_def script_def start_def UDT_FD_BASE_def)

text \<open>\<open>maxfdn\<close> bounds the kernel descriptors of its arguments from above when the first
  one is a kernel descriptor, or when neither is; when only the second one is, the answer
  is 1, which no kernel descriptor of a connection is below.\<close>

theorem maxfdn_bound:
  assumes "0 \<le> sd1" and "0 \<le> sd2"
  shows "if sd1 < UDT_FD_BASE \<or> UDT_FD_BASE \<le> sd2
    then \<forall>fd. Tcp fd \<in> {endpoint_of sd1, endpoint_of sd2} \<longrightarrow> fd < maxfdn sd1 sd2
    else maxfdn sd1 sd2 = 1"
  using assms by (auto simp: maxfdn_def endpoint_of_def Let_def UDT_FD_BASE_def)

theorem maxfdn_bound_witness:
  "maxfdn (embedsockfd 3 UDT) 8 = 1 \<and> 8 < maxfdn 8 (embedsockfd 3 UDT)"
  using maxfdn_bound [of "embedsockfd 3 UDT" 8] maxfdn_bound [of 8 "embedsockfd 3 UDT"]
  by (simp add: embedsockfd_def UDT_FD_BASE_def endpoint_of_def)

text \<open>\<open>getsockopt\<close> cannot report a blocking kernel socket: whatever the flags of the
  descriptor are, a successful query of \<open>UDT_SNDSYN\<close> or \<open>UDT_RCVSYN\<close> stores 0. And where
  \<open>socklen_t\<close> has the size of \<open>int\<close>, a query of a UDT socket asks the library about another
  socket number than the one \<open>setsockopt\<close> sets.\<close>

theorem getsockopt_wrong_answers:
  assumes "sd < UDT_FD_BASE" and "opt \<in> {UDT_SNDSYN, UDT_RCVSYN}"
    and "sapi_getsockopt os m k sd level opt s = ((0, v), s')" and "UDT_FD_BASE \<le> ud"
  shows "v = Some 0 \<and>
    fst (last (log (snd (sapi_getsockopt os m m ud level opt t)))) = Get_udt ud opt \<and>
    fst (last (log (snd (sapi_setsockopt os ud level opt x t)))) =
      Set_udt (ud - UDT_FD_BASE) opt x"
proof (intro conjI)
  show "v = Some 0"
    using assms(1-3)
    by (auto simp: sapi_getsockopt_def get_blocking_def or_eq_0_iff split: prod.splits if_splits)
  show "fst (last (log (snd (sapi_getsockopt os m m ud level opt t)))) = Get_udt ud opt"
    using assms(4) by (simp add: sapi_getsockopt_def sys_call_log split: prod.split)
  show "fst (last (log (snd (sapi_setsockopt os ud level opt x t)))) =
      Set_udt (ud - UDT_FD_BASE) opt x"
    using assms(4)
    by (simp add: sapi_setsockopt_def sys_num_def sys_call_log split: prod.split)
qed

theorem getsockopt_wrong_answers_witness:
  "fst (sapi_getsockopt script 4 4 7 0 UDT_SNDSYN (start [Ret 2])) = (0, Some 0) \<and>
   fst (last (log (snd (sapi_getsockopt script 4 4 (UDT_FD_BASE + 9) 0 UDT_SNDSYN
     (start [Ret 1]))))) = Get_udt (UDT_FD_BASE + 9) UDT_SNDSYN"
proof -
  obtain v s' where q: "sapi_getsockopt script 4 4 7 0 UDT_SNDSYN (start [Ret 2]) = ((0, v), s')"
    by (simp add: sapi_getsockopt_def get_blocking_def sys_num_def sys_call_def answer_def
        script_def start_def UDT_FD_BASE_def)
  show ?thesis
    using getsockopt_wrong_answers
      [OF _ _ q, where ud = "UDT_FD_BASE + 9" and t = "start [Ret 1]"] q
    by (simp add: UDT_FD_BASE_def)
qed

end
