(* ===== verification/Sock_Io.thy ===== *)
theory Sock_Io
  imports Sock_Api
begin

text \<open>
  \<open>readn\<close> and \<open>writen\<close> of \<^verbatim>\<open>src/lib/socket_api.cpp\<close>: the loops that move exactly \<open>n\<close>
  bytes through calls that move fewer. The loops are stated once over any read or write
  operation; the locales \<open>byte_sink\<close> and \<open>byte_source\<close> name what they rely on, and are
  interpreted on \<open>SOCK_API::write\<close> and \<open>SOCK_API::read\<close>.

  A loop that does not return is \<open>None\<close>.
\<close>


section \<open>The loops\<close>

text \<open>
  \<open>ptr\<close> is what is left of the buffer, \<open>nleft\<close> its length; \<open>eintr\<close> is the test
  \<open>errno == EINTR\<close>.
\<close>

partial_function (option) write_loop ::
  "(byte list \<Rightarrow> 's \<Rightarrow> int \<times> 's) \<Rightarrow> ('s \<Rightarrow> bool) \<Rightarrow> int \<Rightarrow> byte list \<Rightarrow> 's \<Rightarrow> (int \<times> 's) option" where
  "write_loop wr eintr n ptr s =
     (if length ptr > 0 then
        (case wr ptr s of (nwritten, s') \<Rightarrow>
           if nwritten \<le> 0
           then if eintr s' then write_loop wr eintr n ptr s' else Some (-1, s')
           else write_loop wr eintr n (drop (nat nwritten) ptr) s')
      else Some (n - int (length ptr), s))"

partial_function (option) read_loop ::
  "(int \<Rightarrow> 's \<Rightarrow> (int \<times> byte list) \<times> 's) \<Rightarrow> ('s \<Rightarrow> bool) \<Rightarrow> int \<Rightarrow> int \<Rightarrow> byte list \<Rightarrow> 's \<Rightarrow>
     (int \<times> byte list \<times> 's) option" where
  "read_loop rd eintr n nleft buff s =
     (if nleft > 0 then
        (case rd nleft s of ((nread, data), s') \<Rightarrow>
           if nread < 0
           then if eintr s' then read_loop rd eintr n nleft buff s' else Some (-1, buff, s')
           else if nread = 0 then Some (n - nleft, buff, s')
           else read_loop rd eintr n (nleft - nread) (buff @ data) s')
      else Some (n - nleft, buff, s))"

definition sapi_writen :: "'w os \<Rightarrow> int \<Rightarrow> byte list \<Rightarrow> 'w sys \<Rightarrow> (int \<times> 'w sys) option" where
  "sapi_writen os sd buff s =
     write_loop (sapi_write os sd) (\<lambda>s. errno s = EINTR) (int (length buff)) buff s"

definition sapi_readn :: "'w os \<Rightarrow> int \<Rightarrow> int \<Rightarrow> 'w sys \<Rightarrow> (int \<times> byte list \<times> 'w sys) option" where
  "sapi_readn os sd n s = read_loop (sapi_read os sd) (\<lambda>s. errno s = EINTR) n n [] s"


text \<open>Induction along a run of the write loop that returns \<open>x\<close>.\<close>

lemma write_loop_induct [consumes 1, case_names finish again fail more]:
  assumes "write_loop wr eintr n ptr s = Some x"
    and finish: "\<And>t. x = (n, t) \<Longrightarrow> P [] t"
    and again: "\<And>p t k t'. p \<noteq> [] \<Longrightarrow> wr p t = (k, t') \<Longrightarrow> k \<le> 0 \<Longrightarrow> eintr t' \<Longrightarrow> P p t' \<Longrightarrow> P p t"
    and fail: "\<And>p t k t'. p \<noteq> [] \<Longrightarrow> wr p t = (k, t') \<Longrightarrow> k \<le> 0 \<Longrightarrow> \<not> eintr t' \<Longrightarrow> x = (-1, t') \<Longrightarrow> P p t"
    and more: "\<And>p t k t'. p \<noteq> [] \<Longrightarrow> wr p t = (k, t') \<Longrightarrow> 0 < k \<Longrightarrow> P (drop (nat k) p) t' \<Longrightarrow> P p t"
  shows "P ptr s"
proof -
  have "w = wr \<longrightarrow> e = eintr \<longrightarrow> m = n \<longrightarrow> y = x \<longrightarrow> P p t" if "write_loop w e m p t = Some y" for w e m p t y
  proof (rule write_loop.raw_induct
      [where P = "\<lambda>w e m p t y. w = wr \<longrightarrow> e = eintr \<longrightarrow> m = n \<longrightarrow> y = x \<longrightarrow> P p t", OF _ that], intro impI)
    fix f w e m p t y
    assume IH: "\<And>w e m p t y. f w e m p t = Some y \<Longrightarrow> w = wr \<longrightarrow> e = eintr \<longrightarrow> m = n \<longrightarrow> y = x \<longrightarrow> P p t"
      and eq: "(if length p > 0 then
          (case w p t of (nwritten, t') \<Rightarrow>
             if nwritten \<le> 0 then if e t' then f w e m p t' else Some (-1, t')
             else f w e m (drop (nat nwritten) p) t')
        else Some (m - int (length p), t)) = Some y"
      and same: "w = wr" "e = eintr" "m = n" "y = x"
    obtain k t' where k: "wr p t = (k, t')" by fastforce
    show "P p t"
    proof (cases "p = []")
      case False
      with k eq same IH again [OF False k] fail [OF False k] more [OF False k] show ?thesis
        by (cases "0 < k") (auto split: if_splits)
    qed (use eq same finish in simp)
  qed
  with assms(1) show ?thesis by blast
qed

text \<open>An invariant of the write operation is one of the loop.\<close>

lemma write_loop_inv:
  assumes run: "write_loop wr eintr n ptr s = Some (r, s')" and "I s"
    and "\<And>bs t k t'. wr bs t = (k, t') \<Longrightarrow> I t \<Longrightarrow> I t'"
  shows "I s'"
  using run assms(2) by (induction rule: write_loop_induct) (use assms(3) in auto)

text \<open>
  The loop returns when the operation never asks for a retry: every round then either ends
  it or uses up some of the buffer.
\<close>

lemma write_loop_returns:
  assumes "I s" and "\<And>bs t k t'. wr bs t = (k, t') \<Longrightarrow> I t \<Longrightarrow> I t' \<and> \<not> eintr t'"
  shows "\<exists>r s'. write_loop wr eintr n ptr s = Some (r, s')"
  using assms(1)
proof (induction "length ptr" arbitrary: ptr s rule: less_induct)
  case less
  obtain k t where k: "wr ptr s = (k, t)" by fastforce
  with assms(2) less.prems have t: "I t" "\<not> eintr t" by auto
  have "\<exists>r s'. write_loop wr eintr n (drop (nat k) ptr) t = Some (r, s')"
    if "0 < k" "ptr \<noteq> []"
    using that by (intro less.hyps t) simp
  with k t show ?case
    by (subst write_loop.simps) auto
qed

text \<open>It does not return when the operation fails forever and always asks for a retry.\<close>

lemma write_loop_diverges:
  assumes "I s" and "ptr \<noteq> []"
    and "\<And>bs t k t'. wr bs t = (k, t') \<Longrightarrow> I t \<Longrightarrow> I t' \<and> eintr t' \<and> k \<le> 0"
  shows "write_loop wr eintr n ptr s = None"
proof (rule ccontr)
  assume "\<not> ?thesis"
  then obtain x where "write_loop wr eintr n ptr s = Some x" by auto
  then have "ptr \<noteq> [] \<longrightarrow> \<not> I s"
    by (induction rule: write_loop_induct) (use assms(3) in \<open>fastforce+\<close>)
  with assms(1,2) show False by simp
qed


section \<open>Sending\<close>

text \<open>
  What the loop needs from a write operation: it accepts a prefix of the buffer, which it
  appends to the stream \<open>out\<close>, and leaves everything else that is observed (\<open>rest\<close>) alone.
\<close>

locale byte_sink =
  fixes wr :: "byte list \<Rightarrow> 's \<Rightarrow> int \<times> 's" and out :: "'s \<Rightarrow> byte list" and rest :: "'s \<Rightarrow> 'r"
  assumes wr_out: "wr bs s = (n, s') \<Longrightarrow> n \<le> int (length bs) \<and> out s' = out s @ take (nat n) bs"
    and wr_rest: "wr bs s = (n, s') \<Longrightarrow> rest s' = rest s"
begin

lemma write_loop_out:
  assumes "write_loop wr eintr n ptr s = Some (r, s')"
  shows "r = n \<and> out s' = out s @ ptr \<or>
    r = -1 \<and> (\<exists>k < length ptr. out s' = out s @ take k ptr)"
  using assms
proof (induction rule: write_loop_induct)
  case (again p t k t')
  with wr_out [OF again(2)] show ?case by simp
next
  case (fail p t k t')
  with wr_out [OF fail(2)] show ?case by auto
next
  case (more p t k t')
  with wr_out [OF more(2)] have "r = n \<and> out s' = out t @ p \<or>
      r = -1 \<and> (\<exists>j < length p - nat k. out s' = out t @ take (nat k + j) p)"
    by (auto simp: take_add)
  then show ?case by (metis less_diff_conv add.commute)
qed simp

lemma write_loop_rest:
  "write_loop wr eintr n ptr s = Some (r, s') \<Longrightarrow> rest s' = rest s"
  by (erule write_loop_inv [where I = "\<lambda>t. rest t = rest s"]) (simp_all add: wr_rest)

end

text \<open>What a call of \<open>write\<close> leaves alone: all received bytes, all other streams.\<close>

definition other_streams :: "endpoint \<Rightarrow> 'w sys \<Rightarrow> (endpoint \<Rightarrow> byte list) \<times> (endpoint \<Rightarrow> byte list)" where
  "other_streams e s = (\<lambda>ep. received ep s, \<lambda>ep. if ep = e then [] else sent ep s)"

lemma other_streams_eq:
  "other_streams e s' = other_streams e s \<longleftrightarrow>
    (\<forall>ep. received ep s' = received ep s \<and> (ep \<noteq> e \<longrightarrow> sent ep s' = sent ep s))"
  by (auto simp: other_streams_def fun_eq_iff)

interpretation wr: byte_sink "sapi_write os sd" "sent (endpoint_of sd)"
    "other_streams (endpoint_of sd)" for os sd
proof unfold_locales
  fix bs and s :: "'a sys" and n s'
  assume w: "sapi_write os sd bs s = (n, s')"
  from sapi_write_streams [OF w, of "endpoint_of sd"]
  show "n \<le> int (length bs) \<and>
      sent (endpoint_of sd) s' = sent (endpoint_of sd) s @ take (nat n) bs" by simp
  show "other_streams (endpoint_of sd) s' = other_streams (endpoint_of sd) s"
    using sapi_write_streams [OF w] by (simp add: other_streams_eq)
qed


section \<open>Receiving\<close>

text \<open>Induction along a run of the read loop that returns \<open>x\<close>.\<close>

lemma read_loop_induct [consumes 1, case_names finish again fail stop more]:
  assumes "read_loop rd eintr n nleft buff s = Some x"
    and finish: "\<And>l b t. l \<le> 0 \<Longrightarrow> x = (n - l, b, t) \<Longrightarrow> P l b t"
    and again: "\<And>l b t k d t'. 0 < l \<Longrightarrow> rd l t = ((k, d), t') \<Longrightarrow> k < 0 \<Longrightarrow> eintr t' \<Longrightarrow> P l b t' \<Longrightarrow> P l b t"
    and fail: "\<And>l b t k d t'. 0 < l \<Longrightarrow> rd l t = ((k, d), t') \<Longrightarrow> k < 0 \<Longrightarrow> x = (-1, b, t') \<Longrightarrow> P l b t"
    and stop: "\<And>l b t d t'. 0 < l \<Longrightarrow> rd l t = ((0, d), t') \<Longrightarrow> x = (n - l, b, t') \<Longrightarrow> P l b t"
    and more: "\<And>l b t k d t'. 0 < l \<Longrightarrow> rd l t = ((k, d), t') \<Longrightarrow> 0 < k \<Longrightarrow> P (l - k) (b @ d) t' \<Longrightarrow> P l b t"
  shows "P nleft buff s"
proof -
  have "w = rd \<longrightarrow> e = eintr \<longrightarrow> m = n \<longrightarrow> y = x \<longrightarrow> P l b t" if "read_loop w e m l b t = Some y"
    for w e m l b t y
  proof (rule read_loop.raw_induct [where
      P = "\<lambda>w e m l b t y. w = rd \<longrightarrow> e = eintr \<longrightarrow> m = n \<longrightarrow> y = x \<longrightarrow> P l b t", OF _ that], intro impI)
    fix f w e m l b t y
    assume IH: "\<And>w e m l b t y. f w e m l b t = Some y \<Longrightarrow>
          w = rd \<longrightarrow> e = eintr \<longrightarrow> m = n \<longrightarrow> y = x \<longrightarrow> P l b t"
      and eq: "(if l > 0 then
          (case w l t of ((nread, data), t') \<Rightarrow>
             if nread < 0 then if e t' then f w e m l b t' else Some (-1, b, t')
             else if nread = 0 then Some (m - l, b, t')
             else f w e m (l - nread) (b @ data) t')
        else Some (m - l, b, t)) = Some y"
      and same: "w = rd" "e = eintr" "m = n" "y = x"
    obtain k d t' where k: "rd l t = ((k, d), t')" by (metis prod.collapse)
    show "P l b t"
    proof (cases "0 < l")
      case True
      consider "k < 0" | "k = 0" | "0 < k" by linarith
      then show ?thesis
        using k eq same True IH again [OF True k] fail [OF True k] stop [OF True] more [OF True k]
        by cases (auto split: if_splits)
    qed (use eq same finish in simp)
  qed
  with assms(1) show ?thesis by blast
qed

text \<open>
  What the loop needs from a read operation: it stores at most the bytes asked for, takes
  them from the stream \<open>inp\<close>, and returns 0 only at the end of the stream.
\<close>

locale byte_source =
  fixes rd :: "int \<Rightarrow> 's \<Rightarrow> (int \<times> byte list) \<times> 's" and inp :: "'s \<Rightarrow> byte list"
    and eof :: "'s \<Rightarrow> bool"
  assumes rd_inp: "rd m s = ((k, data), s') \<Longrightarrow>
      (k = -1 \<and> data = [] \<or> k = int (length data) \<and> k \<le> m) \<and> inp s' = inp s @ data"
    and rd_eof: "rd m s = ((0, data), s') \<Longrightarrow> eof s'"
begin

lemma read_loop_inp:
  assumes "read_loop rd eintr n nleft buff s = Some (r, buff', s')"
    and "0 \<le> nleft" and "n - nleft = int (length buff)"
  shows "\<exists>d. buff' = buff @ d \<and> inp s' = inp s @ d \<and>
    (r = -1 \<or> r = int (length buff') \<and> r \<le> n \<and> (r < n \<longrightarrow> eof s'))"
  using assms
proof (induction rule: read_loop_induct)
  case (again l b t d t')
  with rd_inp [OF again(2)] show ?case by auto
next
  case (fail l b t k d t')
  with rd_inp [OF fail(2)] show ?case by auto
next
  case (stop l b t d t')
  with rd_inp [OF stop(2)] rd_eof [OF stop(2)] show ?case by auto
next
  case (more l b t k d t')
  with rd_inp [OF more(2)] show ?case by auto
qed auto

end

text \<open>The last call was answered with no bytes.\<close>

definition at_eof :: "'w sys \<Rightarrow> bool" where
  "at_eof s \<longleftrightarrow> rv (snd (last (log s))) = 0"

interpretation rd: byte_source "sapi_read os sd" "received (endpoint_of sd)" at_eof for os sd
proof unfold_locales
  fix m and s :: "'a sys" and k data s'
  assume r: "sapi_read os sd m s = ((k, data), s')"
  from sapi_read_streams [OF r, of "endpoint_of sd"]
  show "(k = -1 \<and> data = [] \<or> k = int (length data) \<and> k \<le> m) \<and>
      received (endpoint_of sd) s' = received (endpoint_of sd) s @ data" by auto
next
  fix m and s :: "'a sys" and data s'
  assume "sapi_read os sd m s = ((0, data), s')"
  then show "at_eof s'"
    by (auto simp: sapi_read_def at_eof_def sys_call_log split: if_splits prod.splits)
qed


section \<open>Properties\<close>

text \<open>C13: \<open>writen\<close> is all or error: if it returns, either it returns the length of the
  buffer and exactly the bytes of the buffer were appended to the stream sent to the
  endpoint of the descriptor, in order, or it returns -1 and a proper prefix was. No other
  stream changes. Partial writes lose and repeat nothing.\<close>

theorem writen_all_or_error:
  assumes "sapi_writen os sd data s = Some (r, s')"
  shows "(r = int (length data) \<and> sent (endpoint_of sd) s' = sent (endpoint_of sd) s @ data \<or>
      r = -1 \<and> (\<exists>k < length data.
        sent (endpoint_of sd) s' = sent (endpoint_of sd) s @ take k data)) \<and>
    (\<forall>ep. received ep s' = received ep s \<and> (ep \<noteq> endpoint_of sd \<longrightarrow> sent ep s' = sent ep s))"
  using wr.write_loop_out [OF assms [unfolded sapi_writen_def]]
    wr.write_loop_rest [OF assms [unfolded sapi_writen_def]]
  by (simp add: other_streams_eq)

theorem writen_all_or_error_witness:
  "\<exists>s'. sapi_writen script 7 [1, 2, 3] (start [Ret 2, Fail 4, Ret 1]) = Some (3, s') \<and>
    sent (Tcp 7) s' = [1, 2, 3]"
proof -
  obtain s' where w: "sapi_writen script 7 [1, 2, 3] (start [Ret 2, Fail 4, Ret 1]) = Some (3, s')"
    by (simp add: sapi_writen_def write_loop.simps sapi_write_def sys_num_def sys_call_def
        answer_def script_def start_def of_udt_def UDT_FD_BASE_def)
  from writen_all_or_error [OF w] have "sent (Tcp 7) s' = sent (Tcp 7) (start [Ret 2, Fail 4, Ret 1]) @ [1, 2, 3]"
    by (auto simp: endpoint_of_def UDT_FD_BASE_def)
  with w show ?thesis by (auto simp: sent_def start_def)
qed

text \<open>An environment in which no call is interrupted by a signal.\<close>

definition uninterrupted :: "'w os \<Rightarrow> bool" where
  "uninterrupted os \<longleftrightarrow> (\<forall>w c. fst (os w c) \<noteq> Fail EINTR)"

lemma errno_uninterrupted:
  assumes "uninterrupted os" and "sys_call os c s = (r, s')" and "errno s \<noteq> EINTR"
  shows "errno s' \<noteq> EINTR"
proof -
  have "fst (os (world s) c) \<noteq> Fail EINTR"
    using assms(1) by (simp add: uninterrupted_def)
  with assms(2) have "r \<noteq> Fail EINTR"
    by (auto simp: sys_call_def answer_def Let_def split: prod.splits if_splits)
  with sys_call_errno [OF assms(2)] assms(3) show ?thesis
    by (auto split: resp.splits)
qed

text \<open>C35: \<open>writen\<close> returns, whatever the sizes of the partial writes are, in every
  environment that does not interrupt calls, unless a stale \<open>EINTR\<close> was left in \<open>errno\<close>
  before the call.\<close>

theorem writen_returns:
  assumes "uninterrupted os" and "errno s \<noteq> EINTR"
  shows "\<exists>r s'. sapi_writen os sd data s = Some (r, s')"
  unfolding sapi_writen_def
proof (rule write_loop_returns [where I = "\<lambda>s. errno s \<noteq> EINTR"])
  show "errno s \<noteq> EINTR" by (rule assms(2))
next
  fix bs t k t'
  assume "sapi_write os sd bs t = (k, t')" and "errno t \<noteq> EINTR"
  then show "errno t' \<noteq> EINTR \<and> errno t' \<noteq> EINTR"
    by (auto simp: sapi_write_def sys_num_def split: if_splits prod.splits
        dest: errno_uninterrupted [OF assms(1)])
qed

theorem writen_returns_witness:
  "\<exists>r s'. sapi_writen (\<lambda>w c. (Ret 1, w)) 7 [1, 2, 3] (start ()) = Some (r, s')"
  by (rule writen_returns) (simp_all add: uninterrupted_def start_def)

text \<open>On a UDT socket the retry test of \<open>writen\<close> looks at the wrong error: UDT does not
  set \<open>errno\<close>. If \<open>EINTR\<close> is left there from an earlier call and the UDT socket is broken,
  so that every send fails, then \<open>writen\<close> never returns.\<close>

theorem writen_spins_on_broken_udt:
  assumes "UDT_FD_BASE \<le> sd" and "errno s = EINTR" and "data \<noteq> []"
    and "\<And>w bs f. \<exists>e. fst (os w (Send (Udt (sd - UDT_FD_BASE)) bs f)) = Fail e"
  shows "sapi_writen os sd data s = None"
  unfolding sapi_writen_def
proof (rule write_loop_diverges [where I = "\<lambda>s. errno s = EINTR"])
  show "errno s = EINTR" and "data \<noteq> []" by (fact assms)+
next
  fix bs t k t'
  assume w: "sapi_write os sd bs t = (k, t')" and t: "errno t = EINTR"
  obtain e where "fst (os (world t) (Send (Udt (sd - UDT_FD_BASE)) bs 0)) = Fail e"
    using assms(4) by blast
  then show "errno t' = EINTR \<and> errno t' = EINTR \<and> k \<le> 0"
    using w t assms(1)
    by (auto simp: sapi_write_def sys_num_def sys_call_def answer_def of_udt_def Let_def
        split: prod.splits)
qed

theorem writen_spins_on_broken_udt_witness:
  "sapi_writen (\<lambda>w c. (Fail 2001, w)) (UDT_FD_BASE + 5) [1] (start () \<lparr>errno := EINTR\<rparr>) = None"
  by (rule writen_spins_on_broken_udt) simp_all

text \<open>If \<open>readn\<close> returns, then the bytes it stored are exactly the next bytes of the
  stream received from the endpoint; a non-negative result is their number and at most
  \<open>n\<close>, and it is less than \<open>n\<close> only when the last call reported the end of the stream.\<close>

theorem readn_stores_stream:
  assumes "sapi_readn os sd n s = Some (r, buff, s')" and "0 \<le> n"
  shows "received (endpoint_of sd) s' = received (endpoint_of sd) s @ buff \<and>
    (r = -1 \<or> r = int (length buff) \<and> r \<le> n \<and> (r < n \<longrightarrow> at_eof s'))"
  using rd.read_loop_inp [OF assms(1) [unfolded sapi_readn_def]] assms(2) by simp

theorem readn_stores_stream_witness:
  "\<exists>s'. sapi_readn script 7 4 (start [Data [1, 2], Data [3], Data []]) = Some (3, [1, 2, 3], s') \<and>
    received (Tcp 7) s' = [1, 2, 3] \<and> at_eof s'"
proof -
  obtain s' where w: "sapi_readn script 7 4 (start [Data [1, 2], Data [3], Data []]) =
      Some (3, [1, 2, 3], s')"
    by (simp add: sapi_readn_def read_loop.simps sapi_read_def sys_call_def
        answer_def script_def start_def UDT_FD_BASE_def)
  from readn_stores_stream [OF w] w show ?thesis
    by (auto simp: endpoint_of_def UDT_FD_BASE_def received_def start_def)
qed

end
