(* ===== verification/C_Text.thy ===== *)
theory C_Text
  imports Prelude
begin

text \<open>
  The pieces of the C standard library for text that the program uses: decimal conversion
  in both directions, scan sets of \<open>sscanf\<close>, case-insensitive comparison. The round trip
  of printing and scanning is what the option parser and the log texts rest on.
\<close>


section \<open>Decimal output\<close>

definition digit_char :: "nat \<Rightarrow> char" where
  "digit_char d = char_of (48 + d)"

function dec_nat :: "nat \<Rightarrow> string" where
  "dec_nat n = (if n < 10 then [digit_char n] else dec_nat (n div 10) @ [digit_char (n mod 10)])"
  by pat_completeness auto
termination
  by (relation "measure id") auto

declare dec_nat.simps [simp del]

text \<open>The conversion \<open>%d\<close>, and \<open>%03d\<close>, whose width includes the sign.\<close>

definition dec_int :: "int \<Rightarrow> string" where
  "dec_int x = (if x < 0 then CHR ''-'' # dec_nat (nat (- x)) else dec_nat (nat x))"

definition dec_int_03 :: "int \<Rightarrow> string" where
  "dec_int_03 x =
     (if x < 0 then CHR ''-'' # replicate (2 - length (dec_nat (nat (- x)))) (CHR ''0'') @ dec_nat (nat (- x))
      else replicate (3 - length (dec_nat (nat x))) (CHR ''0'') @ dec_nat (nat x))"


section \<open>Decimal input\<close>

definition is_digit :: "char \<Rightarrow> bool" where
  "is_digit c \<longleftrightarrow> 48 \<le> (of_char c :: nat) \<and> (of_char c :: nat) \<le> 57"

definition is_space :: "char \<Rightarrow> bool" where
  "is_space c \<longleftrightarrow> c = CHR '' '' \<or> 9 \<le> (of_char c :: nat) \<and> (of_char c :: nat) \<le> 13"

definition dec_value :: "string \<Rightarrow> nat" where
  "dec_value ds = foldl (\<lambda>v c. 10 * v + (of_char c - 48)) 0 ds"

text \<open>
  \<open>strtol\<close> to the base 10: blanks, a sign, digits. The value saturates at the range of
  \<open>long\<close>; storing it in an \<open>int\<close> keeps the low 32 bits.
\<close>

definition clamp_long :: "int \<Rightarrow> int" where
  "clamp_long x = max (- (2 ^ 63)) (min (2 ^ 63 - 1) x)"

definition scan_unsigned :: "string \<Rightarrow> (nat \<times> string) option" where
  "scan_unsigned s =
     (if takeWhile is_digit s = [] then None
      else Some (dec_value (takeWhile is_digit s), dropWhile is_digit s))"

definition scan_int :: "string \<Rightarrow> (int \<times> string) option" where
  "scan_int s =
     (let s = dropWhile is_space s;
          neg = (s \<noteq> [] \<and> hd s = CHR ''-'');
          s = (if s \<noteq> [] \<and> (hd s = CHR ''-'' \<or> hd s = CHR ''+'') then tl s else s)
      in case scan_unsigned s of
           None \<Rightarrow> None
         | Some (v, rest) \<Rightarrow>
             Some (i32 (clamp_long (if neg then - int v else int v)), rest))"

definition atoi :: "string \<Rightarrow> int" where
  "atoi s = (case scan_int s of None \<Rightarrow> 0 | Some (v, rest) \<Rightarrow> v)"


section \<open>Characters\<close>

definition to_lower :: "char \<Rightarrow> char" where
  "to_lower c = (if 65 \<le> (of_char c :: nat) \<and> (of_char c :: nat) \<le> 90
     then char_of ((of_char c :: nat) + 32) else c)"

text \<open>\<open>strcasecmp(a, b) == 0\<close>.\<close>

definition caseless_eq :: "string \<Rightarrow> string \<Rightarrow> bool" where
  "caseless_eq a b \<longleftrightarrow> map to_lower a = map to_lower b"

text \<open>The scan set \<open>[a-zA-Z_]\<close>.\<close>

definition is_name_char :: "char \<Rightarrow> bool" where
  "is_name_char c \<longleftrightarrow>
     97 \<le> (of_char c :: nat) \<and> (of_char c :: nat) \<le> 122 \<or>
     65 \<le> (of_char c :: nat) \<and> (of_char c :: nat) \<le> 90 \<or> c = CHR ''_''"


section \<open>Lemmas\<close>

lemma of_char_digit: "d < 10 \<Longrightarrow> (of_char (digit_char d) :: nat) = 48 + d"
  by (simp add: digit_char_def)

lemma is_digit_digit_char: "d < 10 \<Longrightarrow> is_digit (digit_char d)"
  by (simp add: is_digit_def of_char_digit)

lemma dec_nat_digits: "\<forall>c \<in> set (dec_nat n). is_digit c"
proof (induction n rule: dec_nat.induct)
  case (1 n)
  then show ?case
    by (subst dec_nat.simps) (auto simp: is_digit_digit_char)
qed

lemma dec_nat_not_Nil [simp]: "dec_nat n \<noteq> []"
  by (subst dec_nat.simps) simp

lemma dec_value_snoc: "dec_value (ds @ [c]) = 10 * dec_value ds + (of_char c - 48)"
  by (simp add: dec_value_def)

lemma dec_value_dec_nat: "dec_value (dec_nat n) = n"
proof (induction n rule: dec_nat.induct)
  case (1 n)
  show ?case
  proof (cases "n < 10")
    case True
    then show ?thesis
      by (subst dec_nat.simps) (simp add: dec_value_def of_char_digit)
  next
    case False
    with 1 show ?thesis
      by (subst dec_nat.simps) (simp add: dec_value_snoc of_char_digit)
  qed
qed

lemma takeWhile_digits:
  "\<forall>c \<in> set ds. is_digit c \<Longrightarrow> rest = [] \<or> \<not> is_digit (hd rest) \<Longrightarrow>
    takeWhile is_digit (ds @ rest) = ds \<and> dropWhile is_digit (ds @ rest) = rest"
  by (cases rest) (auto simp: takeWhile_append2 dropWhile_append2)

lemma digit_not_space: "is_digit c \<Longrightarrow> \<not> is_space c"
  by (auto simp: is_digit_def is_space_def)

lemma scan_int_dec_nat:
  assumes "rest = [] \<or> \<not> is_digit (hd rest)" and "n < 2 ^ 31"
  shows "scan_int (dec_nat n @ rest) = Some (int n, rest)"
proof -
  obtain d ds where d: "dec_nat n = d # ds" by (metis dec_nat_not_Nil neq_Nil_conv)
  with dec_nat_digits [of n] have digit: "is_digit d" by simp
  then have "\<not> is_space d" "d \<noteq> CHR ''-''" "d \<noteq> CHR ''+''"
    by (auto simp: digit_not_space is_digit_def)
  with d have "scan_int (dec_nat n @ rest) =
      (case scan_unsigned (dec_nat n @ rest) of None \<Rightarrow> None
       | Some (v, rest) \<Rightarrow> Some (i32 (clamp_long (int v)), rest))"
    by (simp add: scan_int_def Let_def cong: option.case_cong)
  also have "\<dots> = Some (int n, rest)"
    using takeWhile_digits [OF dec_nat_digits assms(1), of n] assms(2)
    by (simp add: scan_unsigned_def dec_value_dec_nat clamp_long_def)
  finally show ?thesis .
qed

lemma length_dec_nat_1: "n < 10 \<Longrightarrow> length (dec_nat n) = 1"
  by (subst dec_nat.simps) simp

lemma length_dec_nat_2: "10 \<le> n \<Longrightarrow> n < 100 \<Longrightarrow> length (dec_nat n) = 2"
  by (subst dec_nat.simps) (simp add: length_dec_nat_1)

lemma length_dec_nat_3: "100 \<le> n \<Longrightarrow> n < 1000 \<Longrightarrow> length (dec_nat n) = 3"
  by (subst dec_nat.simps) (simp add: length_dec_nat_2)

end
