(* ===== verification/Utils.thy ===== *)
theory Utils
  imports C_Text Sockaddr "HOL-Library.Sublist"
begin

text \<open>
  The text and conversion helpers of \<^verbatim>\<open>src/lib/utils.cpp\<close> and \<^verbatim>\<open>src/include/utils.h\<close>:
  \<open>dump_str\<close>, \<open>dump_inetaddr\<close>, \<open>i2str\<close>, \<open>resolvService\<close>, \<open>resolvAddress\<close>, \<open>split\<close> and the
  conversions between \<open>timeval\<close> and microseconds. (The address helpers of the same file are
  in the theory \<open>Sockaddr\<close>.)
\<close>


section \<open>Dumps\<close>

text \<open>
  One byte of \<open>dump_str\<close>: \<open>char\<close> is signed on the platforms the README lists, so the
  comparisons and the conversion \<open>%03d\<close> see the value of the byte as a signed number.
\<close>

definition dump_char :: "byte \<Rightarrow> string" where
  "dump_char b =
     (let c = sint b
      in if c \<ge> 32 \<and> c \<le> 126 then [char_of (nat c)]
         else ''<'' @ dec_int_03 c @ ''>'')"

fun dump_loop :: "byte list \<Rightarrow> nat \<Rightarrow> string result" where
  "dump_loop buf 0 = Inr []"
| "dump_loop (c # buf) (Suc n) = bindR (dump_loop buf n) (\<lambda>rest. Inr (dump_char c @ rest))"
| "dump_loop [] (Suc n) = Inl (Fault Out_of_bounds)"

definition dump_str :: "byte list \<Rightarrow> int \<Rightarrow> int \<Rightarrow> int \<Rightarrow> string result" where
  "dump_str buf buf_sz rcv_sz prn_sz =
     (let sz = (if buf_sz < rcv_sz then buf_sz else rcv_sz);
          sz = (if sz < prn_sz then sz else prn_sz)
      in bindR (dump_loop buf (nat sz))
           (\<lambda>str. Inr (str @ (if prn_sz < rcv_sz then ''...'' else ''''))))"

text \<open>The callers' buffer for it, and the space that a text takes with its terminator.\<close>

definition dump_buffer_size :: "int \<Rightarrow> int" where
  "dump_buffer_size dump_message = dump_message * 5 + 10"

definition c_size :: "string \<Rightarrow> int" where
  "c_size str = int (length str) + 1"

text \<open>\<open>inet_ntoa\<close> of the address bytes and \<open>ntohs\<close> of the port bytes.\<close>

definition ntohs :: "byte list \<Rightarrow> int" where
  "ntohs p = uint (p ! 0) * 256 + uint (p ! 1)"

definition inet_ntoa :: "byte list \<Rightarrow> string" where
  "inet_ntoa a =
     dec_nat (unat (a ! 0)) @ ''.'' @ dec_nat (unat (a ! 1)) @ ''.'' @
     dec_nat (unat (a ! 2)) @ ''.'' @ dec_nat (unat (a ! 3))"

definition dump_inetaddr :: "sockaddr \<Rightarrow> bool \<Rightarrow> string result" where
  "dump_inetaddr iaddr port =
     bindR (sin_addr iaddr)
       (\<lambda>a. if port then bindR (sin_port iaddr) (\<lambda>p. Inr (inet_ntoa a @ '':'' @ dec_int (ntohs p)))
            else Inr (inet_ntoa a))"


section \<open>Conversions\<close>

definition i2str :: "int \<Rightarrow> string" where
  "i2str i = dec_int i"

text \<open>\<open>get_string\<close>, by which a word is taken off a stream; the rest of the stream is left.\<close>

definition get_string :: "string \<Rightarrow> string \<times> string" where
  "get_string is =
     (let t = dropWhile is_space is
      in (takeWhile (\<lambda>c. \<not> is_space c) t, dropWhile (\<lambda>c. \<not> is_space c) t))"

text \<open>
  \<open>get_int\<close>: the extraction of an \<open>int\<close> stores the value read, or the nearest one in the
  range of the type. When there are no digits the variable keeps what it had, and it had
  not been initialised.
\<close>

definition clamp_int :: "int \<Rightarrow> int" where
  "clamp_int x = max (- 2147483648) (min 2147483647 x)"

definition get_int :: "string \<Rightarrow> int result" where
  "get_int is =
     (let t = dropWhile is_space is;
          neg = (t \<noteq> [] \<and> hd t = CHR ''-'');
          t = (if t \<noteq> [] \<and> (hd t = CHR ''-'' \<or> hd t = CHR ''+'') then tl t else t)
      in case scan_unsigned t of
           None \<Rightarrow> Inl (Fault Uninitialised)
         | Some (v, rest) \<Rightarrow> Inr (clamp_int (if neg then - int v else int v)))"

text \<open>
  \<open>resolvService\<close>: a number, or else a name in the services database (\<open>getservbyname\<close>, an
  argument that gives \<open>ntohs(s_port)\<close>). The C++ exception is the left result.
\<close>

definition resolvService :: "(string \<Rightarrow> int option) \<Rightarrow> string \<Rightarrow> string + int" where
  "resolvService getservbyname srv =
     (let port = atoi srv mod 2 ^ 16
      in if port \<noteq> 0 then Inr port
         else case getservbyname srv of
                Some p \<Rightarrow> Inr p
              | None \<Rightarrow> Inl (''wrong service or port:'' @ srv))"

definition resolvAddress :: "string \<Rightarrow> int result" where
  "resolvAddress addr = Inl (Exited 1)"

record timeval =
  tv_sec :: int
  tv_usec :: int

definition timeval2utime :: "timeval \<Rightarrow> int" where
  "timeval2utime t = i32 (tv_sec t * 1000000 + tv_usec t)"

definition utime2timeval :: "int \<Rightarrow> timeval" where
  "utime2timeval t = \<lparr>tv_sec = t sdiv 1000000, tv_usec = t smod 1000000\<rparr>"


section \<open>Splitting\<close>

text \<open>\<open>std::string::find\<close>: the offset of the first occurrence, \<open>None\<close> for \<open>npos\<close>.\<close>

fun find_sub :: "string \<Rightarrow> string \<Rightarrow> nat option" where
  "find_sub sep [] = (if sep = [] then Some 0 else None)"
| "find_sub sep (c # cs) =
     (if prefix sep (c # cs) then Some 0 else map_option Suc (find_sub sep cs))"

text \<open>The loop of \<open>split\<close>; it need not end, so its result is optional.\<close>

partial_function (option) split_loop ::
  "string \<Rightarrow> string \<Rightarrow> nat \<Rightarrow> string list \<Rightarrow> string list option" where
  "split_loop inString separator start returnVector =
     (case find_sub separator (drop start inString) of
        None \<Rightarrow> Some (returnVector @ [drop start inString])
      | Some k \<Rightarrow>
          split_loop inString separator (start + k + length separator)
            (returnVector @ [take k (drop start inString)]))"

definition split_str :: "string \<Rightarrow> string \<Rightarrow> string list option" where
  "split_str inString separator = split_loop inString separator 0 []"

fun join :: "string \<Rightarrow> string list \<Rightarrow> string" where
  "join sep [] = []"
| "join sep [p] = p"
| "join sep (p # q # ps) = p @ sep @ join sep (q # ps)"

lemma find_sub_Some:
  "find_sub sep s = Some k \<Longrightarrow> prefix sep (drop k s) \<and> k \<le> length s"
  by (induction s arbitrary: k) (auto split: if_splits)

lemma find_sub_first:
  "find_sub sep s = Some k \<Longrightarrow> j < k \<Longrightarrow> \<not> prefix sep (drop j s)"
proof (induction s arbitrary: k j)
  case Nil
  then show ?case by (simp split: if_splits)
next
  case (Cons c cs)
  then show ?case by (cases j) (auto split: if_splits)
qed

lemma find_sub_None: "find_sub sep s = None \<longleftrightarrow> \<not> sublist sep s"
proof (induction s)
  case Nil
  show ?case by simp
next
  case (Cons c cs)
  then show ?case by (auto simp: sublist_Cons_right)
qed

text \<open>What stands before the first occurrence does not contain the separator.\<close>

lemma find_sub_take:
  assumes "find_sub sep s = Some k" and "sep \<noteq> []"
  shows "\<not> sublist sep (take k s)"
proof
  assume "sublist sep (take k s)"
  then obtain us vs where t: "take k s = us @ sep @ vs" by (auto simp: sublist_def)
  then have "length us < k"
    using assms(2) by (metis length_append length_take less_add_same_cancel1 length_greater_0_conv
        add_gr_0 min.bounded_iff not_le order.strict_trans2 order_refl)
  moreover have "s = us @ sep @ vs @ drop k s"
    using t by (metis append.assoc append_take_drop_id)
  then have "prefix sep (drop (length us) s)"
    by (metis append_eq_conv_conj prefixI)
  ultimately show False using find_sub_first [OF assms(1)] by blast
qed

lemma split_find:
  assumes "find_sub sep s = Some k"
  shows "s = take k s @ sep @ drop (k + length sep) s"
proof -
  from find_sub_Some [OF assms] obtain r where r: "drop k s = sep @ r"
    by (auto simp: prefix_def)
  then have "drop (k + length sep) s = r"
    by (metis add.commute append_eq_conv_conj drop_drop)
  with r show ?thesis by (metis append_take_drop_id)
qed

lemma join_snoc: "ps \<noteq> [] \<Longrightarrow> join sep (ps @ [q]) = join sep ps @ sep @ q"
  by (induction sep ps rule: join.induct) auto

lemma split_loop_join:
  assumes "sep \<noteq> []" and "start \<le> length s"
    and "\<forall>p \<in> set acc. \<not> sublist sep p"
    and "join sep (acc @ [drop start s]) = s"
  shows "\<exists>ps. split_loop s sep start acc = Some ps \<and> ps \<noteq> [] \<and> join sep ps = s \<and>
    (\<forall>p \<in> set ps. \<not> sublist sep p)"
  using assms(2-4)
proof (induction "length s - start" arbitrary: start acc rule: less_induct)
  case less
  show ?case
  proof (cases "find_sub sep (drop start s)")
    case None
    moreover from None have "\<not> sublist sep (drop start s)" by (simp add: find_sub_None)
    ultimately show ?thesis
      using less.prems by (subst split_loop.simps) (auto simp del: find_sub_None)
  next
    case (Some k)
    define piece where "piece = take k (drop start s)"
    define start' where "start' = start + k + length sep"
    have d: "drop start s = piece @ sep @ drop start' s"
      using split_find [OF Some] by (simp add: piece_def start'_def add.commute add.left_commute)
    then have "length (drop start s) \<ge> length sep + length (drop start' s)"
      by simp
    with assms(1) less.prems(1) have dec: "length s - start' < length s - start" "start' \<le> length s"
      using find_sub_Some [OF Some] prefix_length_le [of sep "drop k (drop start s)"]
      by (auto simp: start'_def simp flip: length_greater_0_conv)
    have "join sep ((acc @ [piece]) @ [drop start' s]) = join sep (acc @ [drop start s])"
    proof (cases "acc = []")
      case True
      then show ?thesis using d by simp
    next
      case False
      then show ?thesis using d by (simp add: join_snoc del: append_assoc)
    qed
    then have "\<exists>ps. split_loop s sep start' (acc @ [piece]) = Some ps \<and> ps \<noteq> [] \<and>
        join sep ps = s \<and> (\<forall>p \<in> set ps. \<not> sublist sep p)"
      using less.prems dec find_sub_take [OF Some assms(1)]
      by (intro less.hyps) (auto simp: piece_def)
    with Some show ?thesis
      by (subst split_loop.simps) (simp add: piece_def start'_def)
  qed
qed

lemma find_sub_empty [simp]: "find_sub [] s = Some 0"
  by (cases s) simp_all

lemma split_loop_empty_separator: "split_loop s [] start acc = None"
proof -
  have "sep = [] \<longrightarrow> False" if "split_loop s sep start acc = Some x" for s sep start acc x
    by (rule split_loop.raw_induct [where P = "\<lambda>s sep start acc x. sep = [] \<longrightarrow> False", OF _ that])
      (auto split: option.splits)
  then show ?thesis by (cases "split_loop s [] start acc") blast+
qed


section \<open>Sizes of dumped text\<close>

lemma length_dec_nat_le_3: "n < 1000 \<Longrightarrow> length (dec_nat n) \<le> 3"
  using length_dec_nat_1 [of n] length_dec_nat_2 [of n] length_dec_nat_3 [of n]
  by (cases "n < 10"; cases "n < 100") auto

text \<open>The bytes that print as a sign and three digits: 0x80 to 0x9C.\<close>

definition wide_byte :: "byte \<Rightarrow> bool" where
  "wide_byte b \<longleftrightarrow> sint b \<le> - 100"

lemma length_dump_char:
  "length (dump_char b) = (if 32 \<le> sint b \<and> sint b \<le> 126 then 1 else if wide_byte b then 6 else 5)"
proof -
  have r: "- 128 \<le> sint b" "sint b < 128"
    using sint_greater_eq [of b] sint_lt [of b] by simp_all
  consider "32 \<le> sint b \<and> sint b \<le> 126" | "sint b < 0" | "0 \<le> sint b" "\<not> (32 \<le> sint b \<and> sint b \<le> 126)"
    by linarith
  then show ?thesis
  proof cases
    case 1
    then show ?thesis by (simp add: dump_char_def)
  next
    case 2
    define n where "n = nat (- sint b)"
    have n: "0 < n" "n \<le> 128" "wide_byte b \<longleftrightarrow> 100 \<le> n"
      using 2 r by (auto simp: n_def wide_byte_def)
    have "length (dec_int_03 (sint b)) = (if 100 \<le> n then 4 else 3)"
      using 2 n(1,2) length_dec_nat_1 [of n] length_dec_nat_2 [of n] length_dec_nat_3 [of n]
      by (cases "n < 10"; cases "n < 100") (auto simp: dec_int_03_def n_def [symmetric])
    with 2 n(3) show ?thesis by (simp add: dump_char_def Let_def)
  next
    case 3
    define n where "n = nat (sint b)"
    have n: "n < 128" using 3 r by (auto simp: n_def)
    have "length (dec_int_03 (sint b)) = 3"
      using 3 n length_dec_nat_1 [of n] length_dec_nat_2 [of n] length_dec_nat_3 [of n]
      by (cases "n < 10"; cases "n < 100") (auto simp: dec_int_03_def n_def [symmetric])
    with 3 show ?thesis by (auto simp: dump_char_def wide_byte_def Let_def)
  qed
qed

lemma dump_loop_ok:
  "n \<le> length buf \<Longrightarrow> dump_loop buf n = Inr (concat (map dump_char (take n buf)))"
  by (induction buf n rule: dump_loop.induct) simp_all

lemma dump_str_ok:
  assumes "0 \<le> rcv_sz" and "rcv_sz \<le> buf_sz" and "rcv_sz \<le> int (length buf)"
  shows "dump_str buf buf_sz rcv_sz prn_sz =
    Inr (concat (map dump_char (take (nat (min rcv_sz prn_sz)) buf)) @
      (if prn_sz < rcv_sz then ''...'' else ''''))"
  using assms by (auto simp: dump_str_def dump_loop_ok min_def Let_def)

lemma length_concat_bound:
  "\<forall>x \<in> set xs. length (f x) \<le> m \<Longrightarrow> length (concat (map f xs)) \<le> m * length xs"
  by (induction xs) auto

lemma length_concat_const:
  "\<forall>x \<in> set xs. length (f x) = m \<Longrightarrow> length (concat (map f xs)) = m * length xs"
  by (induction xs) auto

lemma length_inet_ntoa:
  assumes "length a = 4"
  shows "length (inet_ntoa a) \<le> 15"
proof -
  have "length (dec_nat (unat (b :: byte))) \<le> 3" for b
    using unsigned_less [of b, where 'a = nat] by (intro length_dec_nat_le_3) simp
  then have "length (dec_nat (unat (a ! i))) \<le> 3" for i by simp
  from this [of 0] this [of 1] this [of 2] this [of 3] show ?thesis
    by (simp add: inet_ntoa_def)
qed

lemma ntohs_range: "0 \<le> ntohs p \<and> ntohs p < 65536"
  using uint_lt2p [of "p ! 0"] uint_lt2p [of "p ! 1"] by (simp add: ntohs_def)

lemma length_dec_nat_step: "length (dec_nat n) \<le> Suc (length (dec_nat (n div 10)))"
  by (subst dec_nat.simps) simp

lemma sin_port_inet: "inet_sockaddr sa \<Longrightarrow> sin_port sa = Inr (take 2 (sa_data sa))"
  by (simp add: sa_field_def inet_sockaddr_def)

lemma length_dec_int_port:
  assumes "0 \<le> p" and "p < 65536"
  shows "length (dec_int p) \<le> 5"
proof -
  have "length (dec_nat (nat p)) \<le> length (dec_nat (nat p div 10 div 10)) + 2"
    using length_dec_nat_step [of "nat p"] length_dec_nat_step [of "nat p div 10"] by simp
  moreover have "nat p div 10 div 10 < 1000" using assms by simp
  ultimately show ?thesis
    using length_dec_nat_le_3 [of "nat p div 10 div 10"] assms by (simp add: dec_int_def)
qed


section \<open>Properties\<close>

text \<open>\<open>split\<close> returns for every non-empty separator, and the result is the splitting of
  the string: joining the pieces with the separator gives the string back, and no piece
  contains the separator. For an empty separator \<open>split\<close> does not return.\<close>

theorem split_str_correct:
  "if sep = [] then split_str s sep = None
   else \<exists>ps. split_str s sep = Some ps \<and> ps \<noteq> [] \<and> join sep ps = s \<and>
     list_all (\<lambda>p. \<not> sublist sep p) ps"
  using split_loop_join [of sep 0 s "[]"] split_loop_empty_separator
  by (auto simp: split_str_def list_all_iff)

text \<open>Reading a number back from its text gives the number; reading words from a text gives
  pieces without blanks until only blanks are left.\<close>

lemma scan_unsigned_dec_nat: "scan_unsigned (dec_nat n) = Some (n, [])"
proof -
  have "takeWhile is_digit (dec_nat n) = dec_nat n" "dropWhile is_digit (dec_nat n) = []"
    using takeWhile_digits [OF dec_nat_digits, of "[]" n] by simp_all
  then show ?thesis by (simp only: scan_unsigned_def dec_value_dec_nat) simp
qed

lemma get_int_i2str:
  assumes "- 2147483648 \<le> n" and "n \<le> 2147483647"
  shows "get_int (i2str n) = Inr n"
proof (cases "n < 0")
  case True
  with assms show ?thesis
    by (simp add: get_int_def i2str_def dec_int_def is_space_def scan_unsigned_dec_nat clamp_int_def)
next
  case False
  obtain d ds where d: "dec_nat (nat n) = d # ds" by (metis dec_nat_not_Nil neq_Nil_conv)
  with dec_nat_digits [of "nat n"] have "is_digit d" by simp
  then have "\<not> is_space d" "d \<noteq> CHR ''-''" "d \<noteq> CHR ''+''"
    by (auto simp: digit_not_space is_digit_def)
  then show ?thesis
    using False assms d scan_unsigned_dec_nat [of "nat n"]
    by (simp add: get_int_def i2str_def dec_int_def clamp_int_def)
qed

lemma get_string_splits:
  assumes "get_string is = (w, rest)"
  shows "\<exists>blanks. is = blanks @ w @ rest \<and> list_all is_space blanks \<and>
    list_all (\<lambda>c. \<not> is_space c) w \<and> (rest \<noteq> [] \<longrightarrow> is_space (hd rest)) \<and>
    (w = [] \<longrightarrow> rest = [])"
proof -
  let ?t = "dropWhile is_space is"
  have w: "w = takeWhile (\<lambda>c. \<not> is_space c) ?t" "rest = dropWhile (\<lambda>c. \<not> is_space c) ?t"
    using assms by (simp_all add: get_string_def Let_def)
  have "is = takeWhile is_space is @ w @ rest" by (simp add: w)
  moreover have "list_all is_space (takeWhile is_space is)" "list_all (\<lambda>c. \<not> is_space c) w"
    by (auto simp: list_all_iff w dest: set_takeWhileD)
  moreover have "rest \<noteq> [] \<longrightarrow> is_space (hd rest)"
    unfolding w using hd_dropWhile [of "\<lambda>c. \<not> is_space c" ?t] by auto
  moreover have "rest = []" if "w = []"
  proof -
    have "?t = [] \<or> \<not> is_space (hd ?t)" using hd_dropWhile [of is_space "is"] by blast
    moreover from that have "takeWhile (\<lambda>c. \<not> is_space c) ?t = []" by (simp only: w(1))
    ultimately have "?t = []" by (cases ?t) (simp_all split: if_splits)
    then show ?thesis by (simp only: w(2)) simp
  qed
  ultimately show ?thesis by blast
qed

text \<open>The callers of \<open>dump_str\<close> give it a buffer of \<open>5 * dump_message + 10\<close> bytes. The
  text and its terminator fit if none of the dumped bytes lies in 0x80 to 0x9C.\<close>

theorem dump_str_fits:
  assumes "0 \<le> n" and "0 \<le> rcv_sz" and "rcv_sz \<le> buf_sz" and "rcv_sz \<le> int (length buf)"
    and "\<forall>b \<in> set (take (nat n) buf). \<not> wide_byte b"
  shows "\<exists>str. dump_str buf buf_sz rcv_sz n = Inr str \<and> c_size str \<le> dump_buffer_size n"
proof -
  define xs where "xs = take (nat (min rcv_sz n)) buf"
  have "set xs \<subseteq> set (take (nat n) buf)"
    unfolding xs_def by (intro set_take_subset_set_take) simp
  with assms(5) have "\<forall>x \<in> set xs. length (dump_char x) \<le> 5"
    by (auto simp: length_dump_char)
  then have "length (concat (map dump_char xs)) \<le> 5 * length xs"
    by (rule length_concat_bound)
  moreover have "int (length xs) \<le> n"
    using assms(1,2) by (auto simp: xs_def)
  ultimately show ?thesis
    using assms by (simp add: dump_str_ok xs_def [symmetric] c_size_def dump_buffer_size_def)
qed

theorem dump_str_fits_witness:
  "\<exists>str. dump_str [0, 65, 255] 1048576 3 20 = Inr str \<and> c_size str \<le> dump_buffer_size 20"
  by (rule dump_str_fits) (simp_all add: wide_byte_def)

text \<open>Otherwise it need not fit: when more than seven bytes are dumped and all of them
  lie in 0x80 to 0x9C, then \<open>dump_str\<close> writes past the end of the callers' buffer.\<close>

theorem dump_str_overflows:
  assumes "6 < n" and "n \<le> rcv_sz" and "rcv_sz \<le> buf_sz" and "rcv_sz \<le> int (length buf)"
    and "\<forall>b \<in> set (take (nat n) buf). wide_byte b" and "n < rcv_sz \<or> 9 < n"
  shows "\<exists>str. dump_str buf buf_sz rcv_sz n = Inr str \<and> dump_buffer_size n < c_size str"
proof -
  define xs where "xs = take (nat n) buf"
  have "\<forall>x \<in> set xs. length (dump_char x) = 6"
    using assms(5) by (auto simp: xs_def length_dump_char wide_byte_def)
  then have "length (concat (map dump_char xs)) = 6 * length xs"
    by (rule length_concat_const)
  moreover have "int (length xs) = n" using assms by (simp add: xs_def)
  ultimately have "int (length (concat (map dump_char xs))) = 6 * n" by simp
  with assms show ?thesis
    by (auto simp: dump_str_ok xs_def [symmetric] c_size_def dump_buffer_size_def min_absorb2)
qed

theorem dump_str_overflows_witness:
  "\<exists>str. dump_str (replicate 30 128) 1048576 30 20 = Inr str \<and> dump_buffer_size 20 < c_size str"
  by (rule dump_str_overflows) (simp_all add: wide_byte_def)

text \<open>The text of an IPv4 address, with or without a port, and its terminator fit the
  smallest buffer that a caller gives to \<open>dump_inetaddr\<close>, 50 bytes.\<close>

theorem dump_inetaddr_fits:
  assumes "inet_sockaddr sa"
  shows "\<exists>str. dump_inetaddr sa port = Inr str \<and> c_size str \<le> 22 \<and> c_size str \<le> 50"
proof -
  have "length (ip4 sa) = 4" using assms by (simp add: ip4_def inet_sockaddr_def)
  with length_inet_ntoa have "length (inet_ntoa (ip4 sa)) \<le> 15" by blast
  moreover have "length (dec_int (ntohs (take 2 (sa_data sa)))) \<le> 5"
    using ntohs_range by (intro length_dec_int_port) auto
  ultimately show ?thesis
    using assms by (simp add: dump_inetaddr_def sin_addr_ip4 sin_port_inet c_size_def)
qed

theorem dump_inetaddr_fits_witness:
  "\<exists>str. dump_inetaddr \<lparr>sa_family = 2, sa_data = [255, 255] @ replicate 4 255 @ replicate 8 0\<rparr> True
     = Inr str \<and> c_size str \<le> 22"
  using dump_inetaddr_fits [of "\<lparr>sa_family = 2, sa_data = [255, 255] @ replicate 4 255 @ replicate 8 0\<rparr>" True]
  by (auto simp: inet_sockaddr_def)

text \<open>Microseconds converted to a \<open>timeval\<close> and back are unchanged, and the conversion
  is normalised, for every non-negative value of an \<open>int\<close>.\<close>

theorem utime_roundtrip:
  assumes "0 \<le> t" and "t < 2 ^ 31"
  shows "timeval2utime (utime2timeval t) = t \<and> 0 \<le> tv_usec (utime2timeval t) \<and>
    tv_usec (utime2timeval t) < 1000000 \<and> 0 \<le> tv_sec (utime2timeval t)"
proof -
  have "t sdiv 1000000 = t div 1000000" "t smod 1000000 = t mod 1000000"
    using assms by (cases "t = 0"; simp add: signed_divide_int_def signed_modulo_int_def)+
  with assms show ?thesis
    by (simp add: timeval2utime_def utime2timeval_def)
qed

theorem utime_roundtrip_witness: "timeval2utime (utime2timeval 2147483647) = 2147483647"
  using utime_roundtrip [of 2147483647] by simp

end
