(* ===== verification/Sock_Select.thy ===== *)
theory Sock_Select
  imports Sock_Io Utils
begin

text \<open>
  \<open>SOCK_API::select\<close> of \<^verbatim>\<open>src/lib/socket_api.cpp\<close>: one \<open>select\<close> over kernel descriptors and UDT
  sockets together, by alternating short calls of the two libraries with a growing timeout.
  A null pointer to a set is \<open>None\<close>. What the kernel leaves in the timeout that the second
  call is given is the argument \<open>left\<close>.
\<close>


section \<open>The loop\<close>

type_synonym fdsets = "fdset \<times> fdset \<times> fdset"

text \<open>The two calls, with their effect on the sets; a failed call leaves them alone.\<close>

fun kernel_part :: "resp \<Rightarrow> fdsets \<Rightarrow> fdsets" where
  "kernel_part (Ready n a b c) (r, w, e) =
     (r\<lparr>fd_kernel := a\<rparr>, w\<lparr>fd_kernel := b\<rparr>, e\<lparr>fd_kernel := c\<rparr>)"
| "kernel_part x fds = fds"

fun udt_part :: "resp \<Rightarrow> fdsets \<Rightarrow> fdsets" where
  "udt_part (Ready n a b c) (r, w, e) =
     (r\<lparr>fd_udt := a\<rparr>, w\<lparr>fd_udt := b\<rparr>, e\<lparr>fd_udt := c\<rparr>)"
| "udt_part x fds = fds"

definition select_call :: "int \<Rightarrow> fdsets \<Rightarrow> int \<Rightarrow> call" where
  "select_call nfds fds t =
     (case fds of (r, w, e) \<Rightarrow> Select nfds (fd_kernel r) (fd_kernel w) (fd_kernel e) t)"

definition udt_select_call :: "fdsets \<Rightarrow> int \<Rightarrow> call" where
  "udt_select_call fds t = (case fds of (r, w, e) \<Rightarrow> Udt_select (fd_udt r) (fd_udt w) (fd_udt e) t)"

abbreviation scale_mask :: int where "scale_mask \<equiv> 3"

partial_function (option) select_loop ::
  "'w os \<Rightarrow> (int \<Rightarrow> int) \<Rightarrow> int \<Rightarrow> fdsets \<Rightarrow> int \<Rightarrow> int \<Rightarrow> int \<Rightarrow> int \<Rightarrow> 'w sys \<Rightarrow>
     (int \<times> fdsets \<times> 'w sys) option" where
  "select_loop os left nfds fds t_min scale_factor t_cur time_rest s =
     (let t = t_cur * scale_factor;
          (r1, s1) = sys_call os (select_call nfds fds t) s;
          fds1 = kernel_part r1 fds;
          (r2, s2) = sys_call os (udt_select_call fds1 (left t)) s1;
          fds2 = udt_part r2 fds1;
          res1 = rv r1; res2 = rv r2;
          time_rest' = time_rest - (t_cur * 2 + 1)
      in if res1 > 0 \<or> res2 > 0
         then Some ((if res1 > 0 then res1 else 0) + (if res2 > 0 then res2 else 0), fds2, s2)
         else if res1 < 0 \<or> res2 < 0 \<or> time_rest' < 0
         then Some (if res1 = 0 \<and> res2 = 0 then 0 else -1, (FDSET_ZERO, FDSET_ZERO, FDSET_ZERO), s2)
         else
           let scale_factor' = scale_mask AND (scale_factor * 2 + 1)
           in select_loop os left nfds fds t_min scale_factor' (t_min * scale_factor') time_rest' s2)"

definition or_empty :: "fdset option \<Rightarrow> fdset" where
  "or_empty p = (case p of None \<Rightarrow> FDSET_ZERO | Some f \<Rightarrow> f)"

definition start_interval :: "timeval option \<Rightarrow> int" where
  "start_interval timeout =
     (case timeout of
        None \<Rightarrow> 100
      | Some t \<Rightarrow>
          if timeval2utime t < 100 * 2 * scale_mask
          then timeval2utime t sdiv 2 sdiv scale_mask + 1 else 100)"

definition sapi_select ::
  "'w os \<Rightarrow> (int \<Rightarrow> int) \<Rightarrow> int \<Rightarrow> fdset option \<Rightarrow> fdset option \<Rightarrow> fdset option \<Rightarrow>
     timeval option \<Rightarrow> 'w sys \<Rightarrow> (int \<times> fdsets \<times> 'w sys) option" where
  "sapi_select os left nfds rfdsp wfdsp efdsp timeout s =
     (let u_timeout = (case timeout of None \<Rightarrow> 0 | Some t \<Rightarrow> timeval2utime t);
          t_min = start_interval timeout
      in select_loop os left nfds (or_empty rfdsp, or_empty wfdsp, or_empty efdsp)
           t_min 0 t_min u_timeout s)"


section \<open>The loop ends\<close>

definition fd_sub :: "fdset \<Rightarrow> fdset \<Rightarrow> bool" where
  "fd_sub f g \<longleftrightarrow> fd_kernel f \<subseteq> fd_kernel g \<and> fd_udt f \<subseteq> fd_udt g"

fun fds_sub :: "fdsets \<Rightarrow> fdsets \<Rightarrow> bool" where
  "fds_sub (a, b, c) (r, w, e) \<longleftrightarrow> fd_sub a r \<and> fd_sub b w \<and> fd_sub c e"

lemma select_parts_sub:
  assumes "sys_call os (select_call nfds fds t) s = (r1, s1)"
    and "sys_call os (udt_select_call (kernel_part r1 fds) t') s1 = (r2, s2)"
  shows "fds_sub (udt_part r2 (kernel_part r1 fds)) fds"
  using sys_call_ok [OF assms(1)] sys_call_ok [OF assms(2)]
  by (cases fds; cases r1; cases r2) (auto simp: select_call_def udt_select_call_def fd_sub_def)

lemma next_scale: "0 \<le> k \<Longrightarrow> 0 \<le> scale_mask AND (k * 2 + 1 :: int)"
  by simp

lemma select_loop_ends:
  assumes "0 \<le> t_min" and "0 \<le> t_cur" and "0 \<le> scale_factor"
  shows "\<exists>n out s'. select_loop os left nfds fds t_min scale_factor t_cur time_rest s = Some (n, out, s') \<and>
    (0 < n \<longrightarrow> fds_sub out fds) \<and>
    (n \<le> 0 \<longrightarrow> (n = 0 \<or> n = -1) \<and> out = (FDSET_ZERO, FDSET_ZERO, FDSET_ZERO))"
  using assms(2,3)
proof (induction "nat time_rest" arbitrary: scale_factor t_cur time_rest s rule: less_induct)
  case less
  obtain r1 s1 where 1: "sys_call os (select_call nfds fds (t_cur * scale_factor)) s = (r1, s1)"
    by fastforce
  obtain r2 s2 where 2: "sys_call os (udt_select_call (kernel_part r1 fds)
      (left (t_cur * scale_factor))) s1 = (r2, s2)" by fastforce
  define rest where "rest = time_rest - (t_cur * 2 + 1)"
  note step = select_loop.simps [of os left nfds fds t_min scale_factor t_cur time_rest s]
  consider "rv r1 > 0 \<or> rv r2 > 0"
    | "\<not> (rv r1 > 0 \<or> rv r2 > 0)" "rv r1 < 0 \<or> rv r2 < 0 \<or> rest < 0"
    | "rv r1 = 0" "rv r2 = 0" "0 \<le> rest" by linarith
  then show ?case
  proof cases
    case 1
    with select_parts_sub [OF \<open>sys_call os (select_call _ _ _) s = _\<close> 2] show ?thesis
      by (subst step)
        (simp add: Let_def \<open>sys_call os (select_call _ _ _) s = _\<close> 2 rest_def [symmetric], linarith?)
  next
    case 2
    then show ?thesis
      by (subst step) (auto simp: Let_def 1 \<open>sys_call os (udt_select_call _ _) s1 = _\<close> rest_def [symmetric])
  next
    case 3
    with less.prems have "nat rest < nat time_rest" by (auto simp: rest_def)
    from less.hyps [OF this, of "t_min * (scale_mask AND (scale_factor * 2 + 1))"
        "scale_mask AND (scale_factor * 2 + 1)" s2] assms(1) 3 less.prems show ?thesis
      by (subst step) (simp add: Let_def 1 2 rest_def [symmetric])
  qed
qed

section \<open>Properties\<close>

lemma start_interval_pos:
  "(case timeout of None \<Rightarrow> True | Some t \<Rightarrow> 0 \<le> timeval2utime t) \<Longrightarrow> 0 < start_interval timeout"
proof (cases timeout)
  case (Some t)
  assume "case timeout of None \<Rightarrow> True | Some t \<Rightarrow> 0 \<le> timeval2utime t"
  with Some have u: "0 \<le> timeval2utime t" by simp
  then have "timeval2utime t sdiv 2 = timeval2utime t div 2"
      "timeval2utime t div 2 sdiv 3 = timeval2utime t div 2 div 3"
    by (cases "timeval2utime t = 0"; cases "timeval2utime t div 2 = 0";
        simp add: signed_divide_int_def)+
  moreover have "0 \<le> timeval2utime t div 2 div 3"
    using u by (simp add: pos_imp_zdiv_nonneg_iff)
  ultimately show ?thesis using Some by (simp add: start_interval_def)
qed (simp add: start_interval_def)

text \<open>C34: \<open>select\<close> returns for every timeout that is not negative and every behaviour of the
  network: with a positive number and sets that are parts of the given ones, or with 0 or -1
  and all sets empty.\<close>

theorem select_ends:
  assumes "case timeout of None \<Rightarrow> True | Some t \<Rightarrow> 0 \<le> timeval2utime t"
  shows "\<exists>n out s'. sapi_select os left nfds rfds wfds efds timeout s = Some (n, out, s') \<and>
    (0 < n \<longrightarrow> fds_sub out (or_empty rfds, or_empty wfds, or_empty efds)) \<and>
    (n \<le> 0 \<longrightarrow> (n = 0 \<or> n = -1) \<and> out = (FDSET_ZERO, FDSET_ZERO, FDSET_ZERO))"
  using start_interval_pos [OF assms] unfolding sapi_select_def Let_def
  by (intro select_loop_ends) simp_all

theorem select_ends_witness:
  "\<exists>n out s'. sapi_select (\<lambda>w c. (Ready 0 {} {} {}, w)) (\<lambda>t. t) 8
      (Some \<lparr>fd_kernel = {5}, fd_udt = {7}\<rparr>) None None (Some \<lparr>tv_sec = 1, tv_usec = 0\<rparr>) (start ()) =
      Some (n, out, s')"
  using select_ends [of "Some \<lparr>tv_sec = 1, tv_usec = 0\<rparr>" "\<lambda>w c. (Ready 0 {} {} {}, w)" "\<lambda>t. t" 8
      "Some \<lparr>fd_kernel = {5}, fd_udt = {7}\<rparr>" None None "start ()"]
  by (auto simp: timeval2utime_def)

text \<open>With a null timeout, which means to wait for ever, \<open>select\<close> does not wait: each
  library is asked once, the kernel with the timeout 0, and the call returns.\<close>

theorem select_null_timeout_polls:
  "\<exists>n out s' r1 r2. sapi_select os left nfds rfds wfds efds None s = Some (n, out, s') \<and>
    log s' = log s @
      [(select_call nfds (or_empty rfds, or_empty wfds, or_empty efds) 0, r1),
       (udt_select_call (kernel_part r1 (or_empty rfds, or_empty wfds, or_empty efds)) (left 0), r2)]"
proof -
  define fds where "fds = (or_empty rfds, or_empty wfds, or_empty efds)"
  obtain r1 s1 where 1: "sys_call os (select_call nfds fds 0) s = (r1, s1)" by fastforce
  obtain r2 s2 where 2: "sys_call os (udt_select_call (kernel_part r1 fds) (left 0)) s1 = (r2, s2)"
    by fastforce
  have "log s2 = log s @ [(select_call nfds fds 0, r1), (udt_select_call (kernel_part r1 fds) (left 0), r2)]"
    using sys_call_log [OF 1] sys_call_log [OF 2] by simp
  moreover have "\<exists>n out. sapi_select os left nfds rfds wfds efds None s = Some (n, out, s2)"
    unfolding sapi_select_def Let_def fds_def [symmetric]
    by (cases "udt_part r2 (kernel_part r1 fds)")
      (subst select_loop.simps, simp add: start_interval_def 1 2 Let_def)
  ultimately show ?thesis unfolding fds_def by blast
qed

end
