(* ===== verification/Logger.thy ===== *)
theory Logger
  imports System C_Text
begin

text \<open>
  The class \<open>Logger\<close> of \<^verbatim>\<open>src/include/logger.h\<close> and \<^verbatim>\<open>src/lib/logger.cpp\<close>: where a message
  goes, what the format string that reaches \<open>vsyslog\<close> or \<open>vfprintf\<close> is, and the switching of
  the system log. The expansion of the format is the work of the C library; an output is
  the composed format. \<open>pg\<close> is the answer of \<open>getpgrp\<close>.

  In the other theories a message is the single call \<open>Say\<close> of its format.
\<close>


section \<open>State and outputs\<close>

record logger =
  m_stateCont :: bool
  m_stateInter :: bool
  m_stateSyslog :: bool
  m_debugLevel :: int
  m_prefix :: string

datatype log_out =
    Stdout string
  | Stderr string
  | Syslog priority string
  | Openlog string
  | Closelog

definition MAX_MSG_SZ :: nat where
  "MAX_MSG_SZ = 1024"

definition Logger :: "string \<Rightarrow> logger" where
  "Logger pr = \<lparr>m_stateCont = False, m_stateInter = True, m_stateSyslog = False,
     m_debugLevel = 0, m_prefix = pr\<rparr>"

definition setPrefix :: "string \<Rightarrow> logger \<Rightarrow> logger" where
  "setPrefix pr lg = lg\<lparr>m_prefix := pr\<rparr>"

definition setInteractive :: "bool \<Rightarrow> logger \<Rightarrow> logger" where
  "setInteractive state lg = lg\<lparr>m_stateInter := state\<rparr>"

definition setDebugLevel :: "int \<Rightarrow> logger \<Rightarrow> logger" where
  "setDebugLevel dl lg = lg\<lparr>m_debugLevel := dl\<rparr>"

definition getDebugLevel :: "logger \<Rightarrow> int" where
  "getDebugLevel lg = m_debugLevel lg"

lemma getDebugLevel_set [simp]: "getDebugLevel (setDebugLevel dl lg) = dl"
  by (simp add: getDebugLevel_def setDebugLevel_def)

definition syslogOn :: "logger \<Rightarrow> logger \<times> log_out list" where
  "syslogOn lg =
     (if m_stateSyslog lg then (lg, [])
      else (lg\<lparr>m_stateSyslog := True\<rparr>, [Openlog (m_prefix lg)]))"

definition syslogOff :: "logger \<Rightarrow> logger \<times> log_out list" where
  "syslogOff lg =
     (if \<not> m_stateSyslog lg then (lg, [])
      else (lg\<lparr>m_stateSyslog := False\<rparr>, [Closelog]))"


text \<open>Priorities are numbers of the system log, the most urgent one first.\<close>

fun priority_number :: "priority \<Rightarrow> nat" where
  "priority_number LOG_ALERT = 1"
| "priority_number LOG_CRIT = 2"
| "priority_number LOG_ERR = 3"
| "priority_number LOG_WARNING = 4"
| "priority_number LOG_NOTICE = 5"
| "priority_number LOG_INFO = 6"
| "priority_number LOG_DEBUG = 7"

instantiation priority :: linorder
begin

definition less_eq_priority :: "priority \<Rightarrow> priority \<Rightarrow> bool" where
  "less_eq_priority p q \<longleftrightarrow> priority_number p \<le> priority_number q"

definition less_priority :: "priority \<Rightarrow> priority \<Rightarrow> bool" where
  "less_priority p q \<longleftrightarrow> priority_number p < priority_number q"

instance
proof
  show "p \<le> q \<Longrightarrow> q \<le> p \<Longrightarrow> p = q" for p q :: priority
    by (cases p; cases q) (simp_all add: less_eq_priority_def)
qed (auto simp: less_eq_priority_def less_priority_def)

end


section \<open>Messages\<close>

text \<open>\<open>strncat(buf, s, MAX_MSG_SZ - strlen(buf) - 1)\<close>.\<close>

definition append_message :: "string \<Rightarrow> string \<Rightarrow> string" where
  "append_message buf s = buf @ take (MAX_MSG_SZ - length buf - 1) s"

text \<open>
  The byte \<open>fmsg[strlen(fmt)-1]\<close> of an array of \<open>MAX_MSG_SZ\<close> bytes that holds the string
  \<open>fmsg\<close> and its terminator.
\<close>

definition last_byte :: "string \<Rightarrow> string \<Rightarrow> char result" where
  "last_byte fmsg fmt =
     (if fmt = [] \<or> MAX_MSG_SZ < length fmt then Inl (Fault Out_of_bounds)
      else if length fmt - 1 < length fmsg then Inr (fmsg ! (length fmt - 1))
      else if length fmt - 1 = length fmsg then Inr (CHR 0x00)
      else Inl (Fault Uninitialised))"

definition log_msg ::
  "int \<Rightarrow> priority \<Rightarrow> string \<Rightarrow> logger \<Rightarrow> (logger \<times> log_out list) result" where
  "log_msg pg pri fmt lg =
     (let fmsg = (if m_stateSyslog lg
                  then take (MAX_MSG_SZ - 1) (''['' @ dec_int pg @ ''] '') else []);
          fmsg = append_message fmsg fmt
      in if m_stateSyslog lg then Inr (lg, [Syslog pri fmsg])
         else
           let out = (if pri = LOG_ERR \<or> pri = LOG_CRIT \<or> pri = LOG_ALERT
                      then Stderr fmsg else Stdout fmsg)
           in bindR (last_byte fmsg fmt)
                (\<lambda>c. Inr (lg\<lparr>m_stateCont := (if c = CHR 0x0A then False else True)\<rparr>, [out])))"

definition log_msg_pref ::
  "int \<Rightarrow> string \<Rightarrow> priority \<Rightarrow> string \<Rightarrow> logger \<Rightarrow> (logger \<times> log_out list) result" where
  "log_msg_pref pg pref pri fmt lg =
     log_msg pg pri (append_message (take (MAX_MSG_SZ - 1) pref) fmt) lg"

text \<open>The loop of \<open>_log_debug\<close>: one mark per level, at most \<open>max_sz - 2\<close>.\<close>

function debug_marks :: "int \<Rightarrow> int \<Rightarrow> string" where
  "debug_marks level i =
     (if 0 \<le> i \<and> i \<le> level - 1 \<and> i < 7 - 2 then CHR ''>'' # debug_marks level (i + 1) else [])"
  by pat_completeness auto
termination
  by (relation "measure (\<lambda>(level, i). nat (5 - i))") auto

declare debug_marks.simps [simp del]

definition log_debug_with ::
  "int \<Rightarrow> int \<Rightarrow> string \<Rightarrow> logger \<Rightarrow> (logger \<times> log_out list) result" where
  "log_debug_with pg level fmt lg =
     log_msg_pref pg (debug_marks level 0 @ '' '') LOG_DEBUG fmt lg"

text \<open>The two overloads of \<open>log_debug\<close>, without and with a level.\<close>

definition log_debug_plain :: "int \<Rightarrow> string \<Rightarrow> logger \<Rightarrow> (logger \<times> log_out list) result" where
  "log_debug_plain pg fmt lg = log_debug_with pg 1 fmt lg"

definition log_debug ::
  "int \<Rightarrow> int \<Rightarrow> string \<Rightarrow> logger \<Rightarrow> (logger \<times> log_out list) result" where
  "log_debug pg level fmt lg =
     (if level \<le> m_debugLevel lg then log_debug_with pg level fmt lg else Inr (lg, []))"

definition log_info :: "int \<Rightarrow> string \<Rightarrow> logger \<Rightarrow> (logger \<times> log_out list) result" where
  "log_info pg fmt lg = log_msg pg LOG_INFO fmt lg"

definition log_notice :: "int \<Rightarrow> string \<Rightarrow> logger \<Rightarrow> (logger \<times> log_out list) result" where
  "log_notice pg fmt lg = log_msg_pref pg ''* '' LOG_NOTICE fmt lg"

definition log_warning :: "int \<Rightarrow> string \<Rightarrow> logger \<Rightarrow> (logger \<times> log_out list) result" where
  "log_warning pg fmt lg = log_msg_pref pg ''! '' LOG_WARNING fmt lg"

definition log_err :: "int \<Rightarrow> string \<Rightarrow> logger \<Rightarrow> (logger \<times> log_out list) result" where
  "log_err pg fmt lg = log_msg pg LOG_ERR fmt lg"

text \<open>\<open>log_die\<close> does not return: how the process ends, and what it wrote before.\<close>

definition log_die :: "int \<Rightarrow> string \<Rightarrow> logger \<Rightarrow> stop \<times> log_out list" where
  "log_die pg fmt lg =
     (case log_msg pg LOG_ERR fmt lg of
        Inl e \<Rightarrow> (e, [])
      | Inr (lg', out) \<Rightarrow>
          if \<not> m_stateInter lg' then
            (case log_err pg (''Exiting.'' @ [CHR 0x0A]) lg' of
               Inl e \<Rightarrow> (e, out)
             | Inr (lg'', out') \<Rightarrow> (Exited 1, out @ out'))
          else (Exited 1, out))"


section \<open>Lemmas\<close>

lemma length_append_message: "length buf < MAX_MSG_SZ \<Longrightarrow> length (append_message buf s) < MAX_MSG_SZ"
  by (simp add: append_message_def MAX_MSG_SZ_def)

lemma append_message_fits:
  "length buf + length s < MAX_MSG_SZ \<Longrightarrow> append_message buf s = buf @ s"
  by (simp add: append_message_def)

lemma debug_marks_eq: "0 \<le> i \<Longrightarrow> debug_marks level i = replicate (nat (min level 5 - i)) (CHR ''>'')"
proof (induction level i rule: debug_marks.induct)
  case (1 level i)
  show ?case
  proof (cases "i \<le> level - 1 \<and> i < 5")
    case True
    then have "nat (min level 5 - i) = Suc (nat (min level 5 - (i + 1)))" by auto
    with True 1 show ?thesis by (subst debug_marks.simps) simp
  next
    case False
    then show ?thesis by (subst debug_marks.simps) auto
  qed
qed

lemma last_byte_nonempty:
  assumes "fmt \<noteq> []" and "length fmt < MAX_MSG_SZ"
  shows "last_byte fmt fmt = Inr (last fmt)"
  using assms by (simp add: last_byte_def last_conv_nth)

lemma urgent: "pri = LOG_ERR \<or> pri = LOG_CRIT \<or> pri = LOG_ALERT \<longleftrightarrow> pri \<le> LOG_ERR"
  by (cases pri) (simp_all add: less_eq_priority_def)

text \<open>The text of an output, and where a message of a priority goes: outside of the system
  log, an error or worse goes to the error stream.\<close>

fun text_of :: "log_out \<Rightarrow> string" where
  "text_of (Stdout t) = t"
| "text_of (Stderr t) = t"
| "text_of (Syslog p t) = t"
| "text_of (Openlog t) = []"
| "text_of Closelog = []"

definition placed :: "int \<Rightarrow> logger \<Rightarrow> priority \<Rightarrow> string \<Rightarrow> log_out" where
  "placed pg lg pri t =
     (if m_stateSyslog lg then Syslog pri (''['' @ dec_int pg @ ''] '' @ t)
      else if pri \<le> LOG_ERR then Stderr t else Stdout t)"

lemma log_msg_placed:
  assumes "fmt \<noteq> []" and "length fmt + length (dec_int pg) + 4 \<le> MAX_MSG_SZ"
  shows "\<exists>lg'. log_msg pg pri fmt lg = Inr (lg', [placed pg lg pri fmt]) \<and>
    lg' = (if m_stateSyslog lg then lg else lg\<lparr>m_stateCont := (last fmt \<noteq> CHR 0x0A)\<rparr>)"
  using assms last_byte_nonempty [OF assms(1)]
  by (simp add: log_msg_def placed_def append_message_fits urgent Let_def MAX_MSG_SZ_def)

lemma log_msg_pref_placed:
  assumes "pref \<noteq> []" and "length pref + length fmt + length (dec_int pg) + 4 \<le> MAX_MSG_SZ"
  shows "\<exists>lg'. log_msg_pref pg pref pri fmt lg = Inr (lg', [placed pg lg pri (pref @ fmt)]) \<and>
    lg' = (if m_stateSyslog lg then lg else lg\<lparr>m_stateCont := (last (pref @ fmt) \<noteq> CHR 0x0A)\<rparr>)"
proof -
  have "append_message (take (MAX_MSG_SZ - 1) pref) fmt = pref @ fmt"
    using assms by (simp add: append_message_fits MAX_MSG_SZ_def)
  with log_msg_placed [of "pref @ fmt" pg pri lg] assms show ?thesis
    by (simp add: log_msg_pref_def)
qed

lemma log_msg_result:
  assumes "log_msg pg pri fmt lg = Inr (lg', out)"
  shows "(\<exists>t. length t < MAX_MSG_SZ \<and>
      out = [if m_stateSyslog lg then Syslog pri t
             else if pri \<le> LOG_ERR then Stderr t else Stdout t]) \<and>
    m_stateSyslog lg' = m_stateSyslog lg \<and> m_debugLevel lg' = m_debugLevel lg \<and>
    m_stateInter lg' = m_stateInter lg \<and> m_prefix lg' = m_prefix lg"
proof -
  define fmsg where "fmsg = append_message (if m_stateSyslog lg
    then take (MAX_MSG_SZ - 1) (''['' @ dec_int pg @ ''] '') else []) fmt"
  have "length fmsg < MAX_MSG_SZ"
    unfolding fmsg_def by (rule length_append_message) (auto simp: MAX_MSG_SZ_def min_def)
  with assms [unfolded log_msg_def Let_def fmsg_def [symmetric]] show ?thesis
    by (intro conjI exI [of _ fmsg]) (auto simp: bindR_eq_Inr urgent split: if_splits)
qed

section \<open>Histories of a logger\<close>

text \<open>The public operations, with everything written so far. Every message is composed by one
  of the two ways \<open>log_msg\<close> and \<open>log_msg_pref\<close>.\<close>

inductive log_step :: "logger \<times> log_out list \<Rightarrow> logger \<times> log_out list \<Rightarrow> bool" where
  step_prefix: "log_step (lg, outs) (setPrefix pr lg, outs)"
| step_interactive: "log_step (lg, outs) (setInteractive b lg, outs)"
| step_level: "log_step (lg, outs) (setDebugLevel dl lg, outs)"
| step_on: "syslogOn lg = (lg', out) \<Longrightarrow> log_step (lg, outs) (lg', outs @ out)"
| step_off: "syslogOff lg = (lg', out) \<Longrightarrow> log_step (lg, outs) (lg', outs @ out)"
| step_message: "log_msg pg pri fmt lg = Inr (lg', out) \<Longrightarrow> log_step (lg, outs) (lg', outs @ out)"
| step_prefixed: "log_msg_pref pg pref pri fmt lg = Inr (lg', out) \<Longrightarrow>
    log_step (lg, outs) (lg', outs @ out)"

text \<open>The protocol of the system log: it is written to only between \<open>openlog\<close> and \<open>closelog\<close>,
  which alternate, and the standard streams are written to only outside. \<open>None\<close> is a
  violation, \<open>Some b\<close> the state after the outputs.\<close>

fun protocol :: "bool \<Rightarrow> log_out list \<Rightarrow> bool option" where
  "protocol b [] = Some b"
| "protocol b (Openlog p # outs) = (if b then None else protocol True outs)"
| "protocol b (Closelog # outs) = (if b then protocol False outs else None)"
| "protocol b (Syslog p t # outs) = (if b then protocol b outs else None)"
| "protocol b (Stdout t # outs) = (if b then None else protocol b outs)"
| "protocol b (Stderr t # outs) = (if b then None else protocol b outs)"

definition fresh_logger :: "logger \<times> log_out list \<Rightarrow> bool" where
  "fresh_logger x \<longleftrightarrow> (\<exists>pr. x = (Logger pr, []))"

definition log_inv :: "logger \<times> log_out list \<Rightarrow> bool" where
  "log_inv x \<longleftrightarrow> protocol False (snd x) = Some (m_stateSyslog (fst x)) \<and>
    (\<forall>t \<in> text_of ` set (snd x). length t < MAX_MSG_SZ)"

lemma protocol_append:
  "protocol b outs = Some c \<Longrightarrow> protocol b (outs @ out) = protocol c out"
  by (induction b outs rule: protocol.induct) (auto split: if_splits)

interpretation logging: inductive_invariant fresh_logger log_step log_inv
proof
  show "fresh_logger x \<Longrightarrow> log_inv x" for x
    by (auto simp: fresh_logger_def log_inv_def Logger_def)
  show "log_step x y \<Longrightarrow> log_inv x \<Longrightarrow> log_inv y" for x y
    by (induction rule: log_step.induct)
      (auto simp: log_inv_def protocol_append setPrefix_def setInteractive_def setDebugLevel_def
        syslogOn_def syslogOff_def log_msg_pref_def MAX_MSG_SZ_def split: if_splits
        dest!: log_msg_result)
qed


section \<open>Properties\<close>

text \<open>Whatever is logged and however the system log is switched, \<open>openlog\<close> and \<open>closelog\<close>
  alternate, messages go to the system log exactly while it is open and to the standard
  streams otherwise, and no composed format exceeds the buffer of 1024 bytes.\<close>

theorem logger_protocol:
  assumes "reach fresh_logger log_step (lg, outs)"
  shows "protocol False outs = Some (m_stateSyslog lg) \<and>
    (\<forall>t \<in> text_of ` set outs. length t < MAX_MSG_SZ)"
  using logging.reach_inv [OF assms] by (simp add: log_inv_def)

theorem logger_protocol_witness:
  "protocol False [Stdout ''x'', Openlog ''udtrelay'', Syslog LOG_INFO ''[7] x''] = Some True"
proof -
  define lg where "lg = (Logger ''udtrelay'')\<lparr>m_stateCont := True\<rparr>"
  have "reach fresh_logger log_step (Logger ''udtrelay'', [])"
    by (rule reach_init) (auto simp: fresh_logger_def)
  moreover have "log_step (Logger ''udtrelay'', []) (lg, [] @ [Stdout ''x''])"
    by (rule step_message [of 7 LOG_INFO "''x''"])
      (simp add: log_msg_def Logger_def append_message_def last_byte_def MAX_MSG_SZ_def lg_def)
  moreover have "log_step (lg, [] @ [Stdout ''x''])
      (lg\<lparr>m_stateSyslog := True\<rparr>, ([] @ [Stdout ''x'']) @ [Openlog ''udtrelay''])"
    by (rule step_on) (simp add: syslogOn_def lg_def Logger_def)
  moreover have "log_step (lg\<lparr>m_stateSyslog := True\<rparr>, ([] @ [Stdout ''x'']) @ [Openlog ''udtrelay''])
      (lg\<lparr>m_stateSyslog := True\<rparr>,
       (([] @ [Stdout ''x'']) @ [Openlog ''udtrelay'']) @ [Syslog LOG_INFO ''[7] x''])"
    by (rule step_message [of 7 LOG_INFO "''x''"])
      (simp add: log_msg_def append_message_def MAX_MSG_SZ_def dec_int_def dec_nat.simps
        digit_char_def char_of_def bit_0)
  ultimately have r: "reach fresh_logger log_step (lg\<lparr>m_stateSyslog := True\<rparr>,
      (([] @ [Stdout ''x'']) @ [Openlog ''udtrelay'']) @ [Syslog LOG_INFO ''[7] x''])"
    by (blast intro: reach_step)
  from logger_protocol [OF r] show ?thesis by simp
qed

text \<open>A debug message with a level is written exactly when the level does not exceed the
  configured one, as one message marked by a \<open>>\<close> per level (five at most). A debug message
  without a level is always written, whatever the configured level is.\<close>

theorem debug_level_filters:
  assumes "length fmt + length (dec_int pg) + 10 \<le> MAX_MSG_SZ"
  shows "(\<exists>lg'. log_debug pg level fmt lg = Inr (lg',
      if level \<le> m_debugLevel lg
      then [placed pg lg LOG_DEBUG (replicate (nat (min level 5)) (CHR ''>'') @ '' '' @ fmt)]
      else [])) \<and>
    (\<exists>lg'. log_debug_plain pg fmt lg = Inr (lg', [placed pg lg LOG_DEBUG (''> '' @ fmt)]))"
proof -
  have "length (replicate (nat (min level 5)) (CHR ''>'') @ '' '') \<le> 6" for level :: int
    by simp
  with assms log_msg_pref_placed [of "replicate (nat (min level 5)) (CHR ''>'') @ '' ''" fmt pg LOG_DEBUG lg]
    log_msg_pref_placed [of "''> ''" fmt pg LOG_DEBUG lg]
  show ?thesis
    by (auto simp: log_debug_def log_debug_plain_def log_debug_with_def debug_marks_eq numeral_eq_Suc)
qed

theorem debug_level_filters_witness:
  "(\<exists>lg'. log_debug 7 2 ''x'' (Logger ''p'') = Inr (lg', [])) \<and>
   (\<exists>lg'. log_debug_plain 7 ''x'' (Logger ''p'') = Inr (lg', [Stdout ''> x'']))"
proof -
  have "length ''x'' + length (dec_int 7) + 10 \<le> MAX_MSG_SZ"
    by (simp add: dec_int_def dec_nat.simps digit_char_def MAX_MSG_SZ_def)
  from debug_level_filters [OF this, of 2 "Logger ''p''"] show ?thesis
    by (auto simp: Logger_def placed_def less_eq_priority_def)
qed

text \<open>\<open>log_die\<close> ends the process with status 1 after writing its message as an error, and
  then, when the logger is not interactive, a line that says so. An empty message outside of
  the system log is no message: the byte before the buffer is read.\<close>

theorem log_die_ends:
  assumes "length fmt + length (dec_int pg) + 20 \<le> MAX_MSG_SZ"
  shows "log_die pg fmt lg =
    (if fmt = [] \<and> \<not> m_stateSyslog lg then (Fault Out_of_bounds, [])
     else (Exited 1, placed pg lg LOG_ERR fmt #
       (if m_stateInter lg then [] else [placed pg lg LOG_ERR (''Exiting.'' @ [CHR 0x0A])])))"
proof (cases "fmt = []")
  case False
  with assms log_msg_placed [of fmt pg LOG_ERR lg] obtain lg' where
    1: "log_msg pg LOG_ERR fmt lg = Inr (lg', [placed pg lg LOG_ERR fmt])" by auto
  from assms log_msg_placed [of "''Exiting.'' @ [CHR 0x0A]" pg LOG_ERR lg'] obtain lg'' where
    2: "log_msg pg LOG_ERR (''Exiting.'' @ [CHR 0x0A]) lg' =
      Inr (lg'', [placed pg lg' LOG_ERR (''Exiting.'' @ [CHR 0x0A])])" by auto
  from log_msg_result [OF 1] have "placed pg lg' = placed pg lg" "m_stateInter lg' = m_stateInter lg"
    by (auto simp: placed_def fun_eq_iff)
  with 1 2 False show ?thesis by (simp add: log_die_def log_err_def)
next
  case True
  show ?thesis
  proof (cases "m_stateSyslog lg")
    case False
    with True show ?thesis by (simp add: log_die_def log_msg_def last_byte_def)
  next
    case sys: True
    with assms log_msg_placed [of "''Exiting.'' @ [CHR 0x0A]" pg LOG_ERR lg] True show ?thesis
      by (auto simp: log_die_def log_msg_def placed_def log_err_def append_message_fits
          MAX_MSG_SZ_def Let_def)
  qed
qed

theorem log_die_ends_witness:
  "log_die 7 ''x'' (Logger ''p'') = (Exited 1, [Stderr ''x'']) \<and>
   log_die 7 '''' (Logger ''p'') = (Fault Out_of_bounds, [])"
proof -
  have "length ''x'' + length (dec_int 7) + 20 \<le> MAX_MSG_SZ"
      "length '''' + length (dec_int 7) + 20 \<le> MAX_MSG_SZ"
    by (simp_all add: dec_int_def dec_nat.simps digit_char_def MAX_MSG_SZ_def)
  from log_die_ends [OF this(1), of "Logger ''p''"] log_die_ends [OF this(2), of "Logger ''p''"]
  show ?thesis by (auto simp: Logger_def placed_def less_eq_priority_def)
qed

end
