(* ===== verification/Proc_Title.thy ===== *)
theory Proc_Title
  imports Prelude
begin

text \<open>
  \<^verbatim>\<open>src/lib/setproctitle.cpp\<close> in the variant of Linux (\<open>SPT_REUSEARGV\<close>, padding with
  zeros): the title of the process is written over the strings of \<open>argv\<close> and of the
  environment, as far as they lie next to each other. Memory is a map from addresses to
  bytes; a string is its address and its contents without the terminator. The theorems say
  that nothing outside of those strings is written.
\<close>


section \<open>Operations\<close>

type_synonym cstr = "int \<times> byte list"

record titles =
  Argv :: "cstr list option"
  LastArgv :: int
  environ :: "byte list list"

text \<open>The two loops that look for the end of the contiguous strings.\<close>

fun extend_last :: "int \<Rightarrow> cstr list \<Rightarrow> int" where
  "extend_last z [] = z"
| "extend_last z ((a, str) # strs) =
     extend_last (if z + 1 = a then a + int (length str) else z) strs"

definition argv_end :: "int \<Rightarrow> cstr list \<Rightarrow> int" where
  "argv_end z argv =
     (case argv of
        [] \<Rightarrow> z
      | (a, str) # strs \<Rightarrow> extend_last (a + int (length str)) strs)"

text \<open>\<open>malloc_ok\<close> is the outcome of the one checked allocation; the copies of the
  environment are fresh objects with the same contents.\<close>

definition initsetproctitle :: "bool \<Rightarrow> cstr list \<Rightarrow> cstr list \<Rightarrow> titles \<Rightarrow> titles" where
  "initsetproctitle malloc_ok argv envp t =
     (if \<not> malloc_ok then t
      else t\<lparr>environ := map snd envp, Argv := Some argv,
             LastArgv := extend_last (argv_end (LastArgv t) argv) envp\<rparr>)"

definition SPT_BUFSIZE :: nat where
  "SPT_BUFSIZE = 2048"

text \<open>Storing bytes from an address on, and the padding loop.\<close>

definition store :: "int \<Rightarrow> byte list \<Rightarrow> (int \<Rightarrow> byte) \<Rightarrow> int \<Rightarrow> byte" where
  "store a bs mem x =
     (if a \<le> x \<and> x < a + int (length bs) then bs ! nat (x - a) else mem x)"

function pad :: "int \<Rightarrow> int \<Rightarrow> (int \<Rightarrow> byte) \<Rightarrow> int \<Rightarrow> byte" where
  "pad p z mem = (if p < z then pad (p + 1) z (mem(p := 0)) else mem)"
  by pat_completeness auto
termination
  by (relation "measure (\<lambda>(p, z, mem). nat (z - p))") auto

declare pad.simps [simp del]

text \<open>\<open>_setproctitle\<close>: \<open>txt\<close> is the expanded title.\<close>

definition write_title :: "byte list \<Rightarrow> titles \<Rightarrow> (int \<Rightarrow> byte) \<Rightarrow> (titles \<times> (int \<Rightarrow> byte)) result" where
  "write_title txt t mem =
     (case Argv t of
        None \<Rightarrow> Inl (Fault Out_of_bounds)
      | Some [] \<Rightarrow> Inl (Fault Out_of_bounds)
      | Some ((a0, s0) # rest) \<Rightarrow>
          let buf = take (SPT_BUFSIZE - 1) txt;
              i = int (length buf);
              room = LastArgv t - a0 - 2
          in if room < i \<and> room < 0 then Inl (Fault Out_of_bounds)
             else
               let buf = (if room < i then take (nat room) buf else buf);
                   i = (if room < i then room else i);
                   mem = store a0 (buf @ [0]) mem
               in Inr (t\<lparr>Argv := Some [(a0, s0)]\<rparr>, pad (a0 + i) (LastArgv t) mem))"

definition setproctitle :: "byte list \<Rightarrow> titles \<Rightarrow> (int \<Rightarrow> byte) \<Rightarrow> (titles \<times> (int \<Rightarrow> byte)) result" where
  "setproctitle txt t mem = write_title (take (SPT_BUFSIZE - 1) txt) t mem"


section \<open>Lemmas\<close>

text \<open>An address inside of a string or at its terminator.\<close>

definition in_str :: "int \<Rightarrow> cstr \<Rightarrow> bool" where
  "in_str x str \<longleftrightarrow> fst str \<le> x \<and> x \<le> fst str + int (length (snd str))"

lemma extend_last_le: "z \<le> extend_last z strs"
proof (induction strs arbitrary: z)
  case (Cons str strs)
  from Cons.IH [of "fst str + int (length (snd str))"] Cons.IH [of z] show ?case
    by (cases str) auto
qed simp

lemma extend_last_covered:
  "z < x \<Longrightarrow> x \<le> extend_last z strs \<Longrightarrow> \<exists>str \<in> set strs. in_str x str"
proof (induction strs arbitrary: z)
  case (Cons str strs)
  obtain a s where str: "str = (a, s)" by fastforce
  show ?case
  proof (cases "z + 1 = a \<and> x \<le> a + int (length s)")
    case True
    with Cons.prems str show ?thesis by (auto simp: in_str_def)
  next
    case False
    with Cons.prems str have "(if z + 1 = a then a + int (length s) else z) < x" by auto
    with Cons.IH [OF this] Cons.prems str show ?thesis by auto
  qed
qed simp

lemma pad_eq: "pad p z mem x = (if p \<le> x \<and> x < z then 0 else mem x)"
proof (induction p z mem rule: pad.induct)
  case (1 p z mem)
  then show ?case by (subst pad.simps) (auto simp: fun_upd_def)
qed


section \<open>Properties\<close>

text \<open>The space that \<open>initsetproctitle\<close> finds begins at \<open>argv[0]\<close>, reaches at least to its
  end, and consists of bytes of the argument and environment strings only, terminators
  included; the environment of the process keeps its contents, in new memory.\<close>

theorem title_space_is_ours:
  assumes "initsetproctitle True ((a0, s0) # argv) envp t = t'"
  shows "Argv t' = Some ((a0, s0) # argv) \<and> environ t' = map snd envp \<and>
    a0 + int (length s0) \<le> LastArgv t' \<and>
    (\<forall>x. a0 \<le> x \<and> x \<le> LastArgv t' \<longrightarrow>
      (\<exists>str \<in> set ((a0, s0) # argv @ envp). in_str x str))"
proof -
  define e0 e1 where "e0 = a0 + int (length s0)" and "e1 = extend_last e0 argv"
  have t': "t' = t\<lparr>environ := map snd envp, Argv := Some ((a0, s0) # argv),
      LastArgv := extend_last e1 envp\<rparr>"
    using assms by (simp add: initsetproctitle_def argv_end_def e1_def e0_def)
  have "\<exists>str \<in> set ((a0, s0) # argv @ envp). in_str x str"
    if "a0 \<le> x" "x \<le> LastArgv t'" for x
  proof -
    consider "x \<le> e0" | "e0 < x" "x \<le> e1" | "e1 < x" by linarith
    then show ?thesis
    proof cases
      case 1
      with that show ?thesis by (auto simp: in_str_def e0_def)
    next
      case 2
      then show ?thesis using extend_last_covered [of e0 x argv] by (auto simp: e1_def)
    next
      case 3
      with that show ?thesis using extend_last_covered [of e1 x envp] by (auto simp: t')
    qed
  qed
  moreover have "e0 \<le> LastArgv t'"
    using extend_last_le [of e0 argv] extend_last_le [of e1 envp] by (simp add: t' e1_def)
  ultimately show ?thesis by (simp add: t' e0_def)
qed

theorem title_space_is_ours_witness:
  "LastArgv (initsetproctitle True [(100, [1, 2, 3]), (104, [4])] [(106, [5, 6]), (200, [7])]
     \<lparr>Argv = None, LastArgv = 0, environ = []\<rparr>) = 108 \<and>
   (\<exists>str \<in> set [(100, [1, 2, 3]), (104, [4]), (106, [5, 6]), (200, [7 :: byte])]. in_str 107 str)"
proof -
  have "LastArgv (initsetproctitle True [(100, [1, 2, 3]), (104, [4])] [(106, [5, 6]), (200, [7])]
     \<lparr>Argv = None, LastArgv = 0, environ = []\<rparr>) = 108"
    by (simp add: initsetproctitle_def argv_end_def)
  moreover from title_space_is_ours [of 100 "[1, 2, 3]" "[(104, [4])]"
      "[(106, [5, 6]), (200, [7])]" "\<lparr>Argv = None, LastArgv = 0, environ = []\<rparr>", OF refl]
  have "\<forall>x. 100 \<le> x \<and> x \<le> LastArgv (initsetproctitle True [(100, [1, 2, 3]), (104, [4])]
      [(106, [5, 6]), (200, [7])] \<lparr>Argv = None, LastArgv = 0, environ = []\<rparr>) \<longrightarrow>
    (\<exists>str \<in> set [(100, [1, 2, 3]), (104, [4]), (106, [5, 6]), (200, [7 :: byte])]. in_str x str)"
    by simp
  ultimately show ?thesis by simp
qed

text \<open>Setting the title writes only between \<open>argv[0]\<close> and the end that was found, whose last
  byte it keeps: the beginning of the title, at most as long as the space less two bytes and
  less than 2048, and zeros after it.\<close>

theorem title_written_in_space:
  assumes "Argv t = Some ((a0, s0) # rest)" and "a0 + 2 \<le> LastArgv t"
  shows "\<exists>mem'. setproctitle txt t mem = Inr (t\<lparr>Argv := Some [(a0, s0)]\<rparr>, mem') \<and>
    (\<forall>x. x < a0 \<or> LastArgv t \<le> x \<longrightarrow> mem' x = mem x) \<and>
    (\<forall>k < nat (LastArgv t - a0). mem' (a0 + int k) =
      (if k < length txt \<and> k < nat (LastArgv t - a0 - 2) \<and> k < 2047 then txt ! k else 0))"
proof -
  define room where "room = LastArgv t - a0 - 2"
  define full where "full = take 2047 txt"
  define buf where "buf = take (nat room) full"
  have room: "0 \<le> room" using assms(2) by (simp add: room_def)
  have len: "int (length buf) \<le> room" using room by (auto simp: buf_def)
  have "take 2047 full = full" by (simp add: full_def)
  then have w: "setproctitle txt t mem =
      Inr (t\<lparr>Argv := Some [(a0, s0)]\<rparr>,
        pad (a0 + (if room < int (length full) then room else int (length full))) (LastArgv t)
          (store a0 ((if room < int (length full) then take (nat room) full else full) @ [0]) mem))"
    using room assms(2)
    by (simp add: setproctitle_def write_title_def assms(1) SPT_BUFSIZE_def Let_def
        room_def [symmetric] full_def [symmetric])
  have "(if room < int (length full) then room else int (length full)) = int (length buf)"
      "(if room < int (length full) then take (nat room) full else full) = buf"
    using room by (auto simp: buf_def)
  with w have "setproctitle txt t mem =
      Inr (t\<lparr>Argv := Some [(a0, s0)]\<rparr>,
        pad (a0 + int (length buf)) (LastArgv t) (store a0 (buf @ [0]) mem))" by (simp only:)
  moreover have "pad (a0 + int (length buf)) (LastArgv t) (store a0 (buf @ [0]) mem) x = mem x"
    if "x < a0 \<or> LastArgv t \<le> x" for x
    using that len by (auto simp: pad_eq store_def room_def)
  moreover have "pad (a0 + int (length buf)) (LastArgv t) (store a0 (buf @ [0]) mem) (a0 + int k) =
      (if k < length txt \<and> k < nat room \<and> k < 2047 then txt ! k else 0)"
    if "k < nat (LastArgv t - a0)" for k
  proof -
    have "k < length buf \<longleftrightarrow> k < length txt \<and> k < nat room \<and> k < 2047"
      by (auto simp: buf_def full_def)
    moreover have "k < length buf \<Longrightarrow> buf ! k = txt ! k" by (simp add: buf_def full_def)
    ultimately show ?thesis using that by (auto simp: pad_eq store_def nth_append)
  qed
  ultimately show ?thesis by (auto simp: room_def)
qed

theorem title_written_in_space_witness:
  "\<exists>mem'. setproctitle [65, 66, 67, 68] \<lparr>Argv = Some [(100, [1, 2, 3])], LastArgv = 104, environ = []\<rparr>
      (\<lambda>x. 9) = Inr (\<lparr>Argv = Some [(100, [1, 2, 3])], LastArgv = 104, environ = []\<rparr>, mem') \<and>
    mem' 99 = 9 \<and> mem' 100 = 65 \<and> mem' 101 = 66 \<and> mem' 102 = 0 \<and> mem' 104 = 9"
proof -
  define t where "t = \<lparr>Argv = Some [(100, [1, 2, 3 :: byte])], LastArgv = 104, environ = []\<rparr>"
  from title_written_in_space [of t 100 "[1, 2, 3]" "[]" "[65, 66, 67, 68]" "\<lambda>x. 9"]
  obtain mem' where m: "setproctitle [65, 66, 67, 68] t (\<lambda>x. 9) = Inr (t, mem')"
      "\<forall>x. x < 100 \<or> 104 \<le> x \<longrightarrow> mem' x = 9"
      "\<forall>k < 4. mem' (100 + int k) =
        (if k < 4 \<and> k < 2 \<and> k < 2047 then [65, 66, 67, 68] ! k else 0)"
    by (auto simp: t_def)
  from m(2) m(3) [rule_format, of 0] m(3) [rule_format, of 1] m(3) [rule_format, of 2] m(1)
  show ?thesis by (auto simp: t_def)
qed
end
