(* ===== verification/Title_Select.thy ===== *)
theory Title_Select
  imports Proc_Title
begin

text \<open>
  How \<^verbatim>\<open>src/include/setproctitle.h\<close> and the head of \<^verbatim>\<open>src/lib/setproctitle.cpp\<close> choose,
  from the macros a platform defines, the way in which the title of a process is set, and
  what the ways other than \<open>SPT_REUSEARGV\<close> do. The conditional sections of the preprocessor
  are functions on the macros they define. The theorems say which way the supported
  platforms get, and that the text that needs a padding character has one.
\<close>


section \<open>Macros\<close>

datatype spt =
    SPT_NONE | SPT_REUSEARGV | SPT_BUILTIN | SPT_PSTAT | SPT_PSSTRINGS | SPT_SYSMIPS | SPT_SCO
  | SPT_CHANGEARGV

text \<open>What the compiler and the system headers define: names, and the values of those macros
  whose value is tested.\<close>

record platform =
  macro :: "string \<Rightarrow> bool"
  BSDI_VERSION :: int
  FreeBSD :: int
  FreeBSD_version :: int
  PSARGSZ :: nat
  MAXLINE :: nat

record choice =
  spt_type :: "spt option"
  spt_padchar :: "char option"
  spt_bufsize :: "nat option"

definition undefined_choice :: choice where
  "undefined_choice = \<lparr>spt_type = None, spt_padchar = None, spt_bufsize = None\<rparr>"

text \<open>A conditional section, and the two definitions that occur.\<close>

definition cond :: "bool \<Rightarrow> (choice \<Rightarrow> choice) \<Rightarrow> choice \<Rightarrow> choice" where
  "cond b f c = (if b then f c else c)"

definition def_type :: "spt \<Rightarrow> choice \<Rightarrow> choice" where
  "def_type t c = c\<lparr>spt_type := Some t\<rparr>"

definition undef_type :: "choice \<Rightarrow> choice" where
  "undef_type c = c\<lparr>spt_type := None\<rparr>"

definition def_padchar :: "choice \<Rightarrow> choice" where
  "def_padchar c = c\<lparr>spt_padchar := Some (char_of (0 :: nat))\<rparr>"


section \<open>The header\<close>

text \<open>The sections for BSDI and for the other BSD systems.\<close>

definition bsdi_section :: "platform \<Rightarrow> choice \<Rightarrow> choice" where
  "bsdi_section p =
     (if macro p ''_BSDI_VERSION'' \<and> BSDI_VERSION p \<ge> 199312
      then def_type SPT_BUILTIN \<circ> undef_type else def_padchar)"

definition freebsd_section :: "platform \<Rightarrow> choice \<Rightarrow> choice" where
  "freebsd_section p c =
     (let c = undef_type c;
          c = cond (FreeBSD p \<ge> 2)
                (cond (FreeBSD_version p \<ge> 199512) (def_type SPT_BUILTIN)) c
      in cond (spt_type c = None) (def_padchar \<circ> def_type SPT_REUSEARGV) c)"

definition bsd_section :: "platform \<Rightarrow> choice \<Rightarrow> choice" where
  "bsd_section p c =
     (let c = cond (macro p ''__NetBSD__'' \<or> macro p ''__DragonFly__'')
                (def_type SPT_BUILTIN \<circ> undef_type) c;
          c = cond (macro p ''__FreeBSD__'') (freebsd_section p) c
      in cond (macro p ''__OpenBSD__'') (def_type SPT_BUILTIN \<circ> undef_type) c)"

text \<open>The whole header; \<open>DGUX\<close> and \<open>_SCO_unix_\<close> may be defined by the header itself.\<close>

definition spt_header :: "platform \<Rightarrow> choice" where
  "spt_header p =
     (let c = undefined_choice;
          c = cond (macro p ''__hpux'') (def_type SPT_PSTAT) c;
          c = cond (macro p ''_AIX3'') def_padchar c;
          c = cond (macro p ''_AIX4'') def_padchar c;
          c = cond (macro p ''AIX'') def_padchar c;
          c = cond (macro p ''DGUX_5_4_2'' \<or> macro p ''DGUX'') (def_type SPT_NONE) c;
          c = cond (macro p ''__APPLE__'') (def_padchar \<circ> def_type SPT_PSSTRINGS) c;
          c = cond (macro p ''BSD4_4'' \<and> \<not> macro p ''__bsdi__'' \<and> \<not> macro p ''__GNU__'') (def_type SPT_PSSTRINGS) c;
          c = cond (macro p ''__bsdi__'') (bsdi_section p) c;
          c = cond (macro p ''__QNX__'') (def_padchar \<circ> def_type SPT_REUSEARGV) c;
          c = cond (macro p ''__FreeBSD__'' \<or> macro p ''__NetBSD__'' \<or> macro p ''__OpenBSD__'' \<or> macro p ''__DragonFly__'')
                (bsd_section p) c;
          c = cond (macro p ''__GNU_HURD__'') (def_type SPT_CHANGEARGV) c;
          c = cond (macro p ''_SCO_unix_4_2'' \<or> macro p ''_SCO_unix_'') (def_type SPT_SCO) c;
          c = cond (macro p ''__linux__'') def_padchar c;
          c = cond (macro p ''_SEQUENT_'') (def_type SPT_NONE) c;
          c = cond (macro p ''apollo'') (def_type SPT_NONE) c;
          c = cond (macro p ''__svr5__'') def_padchar c;
          c = cond (macro p ''NCR_MP_RAS2'') (def_type SPT_NONE) c;
          c = cond (macro p ''NCR_MP_RAS3'') (def_type SPT_NONE) c
      in cond (macro p ''sony_news'')
           (cond (\<not> macro p ''__svr4'') (\<lambda>c. cond (spt_type c = None) (def_type SPT_SYSMIPS) c)) c)"


section \<open>The head of the source file\<close>

definition spt_source :: "platform \<Rightarrow> choice \<Rightarrow> choice" where
  "spt_source p c =
     (let c = cond (spt_type c = None) (def_type SPT_REUSEARGV) c;
          c = cond (spt_type c \<noteq> Some SPT_NONE \<and> spt_type c \<noteq> Some SPT_BUILTIN)
                (\<lambda>c. let c = cond (spt_type c = Some SPT_PSSTRINGS \<and> \<not> macro p ''PS_STRINGS'')
                                (def_type SPT_REUSEARGV \<circ> undef_type) c;
                         c = cond (spt_type c = Some SPT_SCO \<and> PSARGSZ p > MAXLINE p)
                                (\<lambda>c. c\<lparr>spt_bufsize := Some (PSARGSZ p)\<rparr>) c
                     in cond (spt_padchar c = None)
                          (\<lambda>c. if macro p ''_AIX'' then def_padchar c
                               else c\<lparr>spt_padchar := Some (CHR '' '')\<rparr>) c) c
      in cond (spt_bufsize c = None) (\<lambda>c. c\<lparr>spt_bufsize := Some 2048\<rparr>) c)"

definition spt_select :: "platform \<Rightarrow> choice" where
  "spt_select p = spt_source p (spt_header p)"


section \<open>Setting the title\<close>

text \<open>
  What \<open>_setproctitle\<close> does with the expanded text \<open>buf\<close> in the ways that do not write over
  \<open>argv\<close>: a call of the system, or a pointer to the static buffer.
\<close>

datatype title_action =
    Pstat_setcmd "byte list" nat
  | Ps_argvstr "byte list"
  | Sony_setpsargs "byte list"
  | Argv0 "byte list"
  | Libc_setproctitle "byte list"
  | Kmem_close int
  | Kmem_open
  | Kmem_cloexec int
  | Kmem_write int "byte list"

text \<open>
  The way of SCO: the static variables are the descriptor of the kernel memory and the
  process that opened it. \<open>pid\<close>, \<open>fd\<close> and \<open>seek_ok\<close> are what \<open>getpid\<close>, \<open>open\<close> and \<open>lseek\<close> answer;
  \<open>junk\<close> is what follows the terminator in the buffer.
\<close>

record kmem_state =
  kmem :: int
  kmempid :: int

definition sco_title ::
  "nat \<Rightarrow> int \<Rightarrow> int \<Rightarrow> bool \<Rightarrow> byte list \<Rightarrow> byte list \<Rightarrow> kmem_state \<Rightarrow> title_action list \<times> kmem_state"
  where
  "sco_title psargsz pid fd seek_ok junk buf k =
     (let stale = (kmem k < 0 \<or> kmempid k \<noteq> pid);
          opening = (if stale then (if kmem k \<ge> 0 then [Kmem_close (kmem k)] else []) @ [Kmem_open]
                     else [])
      in if stale \<and> fd < 0 then (opening, k\<lparr>kmem := fd\<rparr>)
         else
           let k' = (if stale then \<lparr>kmem = fd, kmempid = pid\<rparr> else k);
               opened = (if stale then opening @ [Kmem_cloexec fd] else []);
               arr = (buf @ 0 # junk)[psargsz - 1 := 0]
           in (opened @ (if seek_ok then [Kmem_write (kmem k') (take psargsz arr)] else []), k'))"

definition other_title :: "spt \<Rightarrow> byte list \<Rightarrow> title_action list" where
  "other_title ty buf =
     (if ty = SPT_PSTAT then [Pstat_setcmd buf (length buf)] else []) @
     (if ty = SPT_PSSTRINGS then [Ps_argvstr buf] else []) @
     (if ty = SPT_SYSMIPS then [Sony_setpsargs buf] else []) @
     (if ty = SPT_CHANGEARGV then [Argv0 buf] else [])"

text \<open>\<open>setproctitle\<close> for a choice: the text is cut to the buffer and handed on; \<open>sco\<close> is the
  way of SCO in its present state.\<close>

definition setproctitle_by ::
  "choice \<Rightarrow> (byte list \<Rightarrow> title_action list) \<Rightarrow> byte list \<Rightarrow> titles \<Rightarrow> (int \<Rightarrow> byte) \<Rightarrow>
     (title_action list \<times> titles \<times> (int \<Rightarrow> byte)) result" where
  "setproctitle_by c sco txt t mem =
     (case (spt_type c, spt_bufsize c) of
        (Some ty, Some bufsize) \<Rightarrow>
          (let buf = take (bufsize - 1) txt
           in if ty = SPT_BUILTIN then Inr ([Libc_setproctitle buf], t, mem)
              else if ty = SPT_REUSEARGV
              then bindR (write_title buf t mem) (\<lambda>(t, mem). Inr ([], t, mem))
              else if ty = SPT_SCO then Inr (sco buf, t, mem)
              else Inr (other_title ty buf, t, mem))
      | _ \<Rightarrow> Inr ([], t, mem))"


section \<open>Properties\<close>

lemmas spt_defs = spt_select_def spt_source_def spt_header_def undefined_choice_def cond_def
  def_type_def undef_type_def def_padchar_def bsdi_section_def bsd_section_def freebsd_section_def

lemma spt_source_complete:
  "\<exists>ty sz. spt_type (spt_source p c) = Some ty \<and> spt_bufsize (spt_source p c) = Some sz \<and>
    (ty = SPT_REUSEARGV \<longrightarrow> spt_padchar (spt_source p c) \<noteq> None)"
  by (cases "spt_type c"; cases "spt_padchar c")
    (auto simp: spt_source_def cond_def def_type_def undef_type_def def_padchar_def Let_def)

text \<open>Whatever a platform defines, a way of setting the title and a buffer size are chosen, and
  the way that pads has a padding character.\<close>

lemma spt_select_complete:
  "\<exists>ty sz. spt_type (spt_select p) = Some ty \<and> spt_bufsize (spt_select p) = Some sz \<and>
    (ty = SPT_REUSEARGV \<longrightarrow> spt_padchar (spt_select p) \<noteq> None)"
  unfolding spt_select_def by (rule spt_source_complete)

text \<open>On Linux, with none of the other macros, the title is written over \<open>argv\<close> and padded with
  zeros, in a buffer of 2048 bytes: the variant of \<open>Proc_Title\<close>.\<close>

lemma linux_choice:
  assumes "macro p = (\<lambda>m. m = ''__linux__'')"
  shows "spt_select p = \<lparr>spt_type = Some SPT_REUSEARGV, spt_padchar = Some (char_of (0 :: nat)),
    spt_bufsize = Some SPT_BUFSIZE\<rparr>"
  by (simp add: spt_defs assms Let_def SPT_BUFSIZE_def)

lemma linux_title_reuses_argv:
  assumes "macro p = (\<lambda>m. m = ''__linux__'')"
  shows "spt_padchar (spt_select p) = Some (char_of (0 :: nat))"
    and "setproctitle_by (spt_select p) sco txt t mem =
      bindR (setproctitle txt t mem) (\<lambda>(t, mem). Inr ([], t, mem))"
  by (simp_all add: linux_choice [OF assms] setproctitle_by_def setproctitle_def Let_def)

text \<open>On a FreeBSD since 2.2, NetBSD, OpenBSD or DragonFly the C library does it.\<close>

lemma bsd_choice:
  assumes "macro p = (\<lambda>m. m = sys)" and "sys \<in> {''__NetBSD__'', ''__OpenBSD__'', ''__DragonFly__''} \<or>
    sys = ''__FreeBSD__'' \<and> FreeBSD p \<ge> 2 \<and> FreeBSD_version p \<ge> 199512"
  shows "spt_type (spt_select p) = Some SPT_BUILTIN"
  using assms(2) by (elim insertE disjE conjE emptyE) (simp_all add: spt_defs assms(1) Let_def)

text \<open>The macros of HP-UX give the call of \<open>pstat\<close>, and those of Darwin the strings of the
  process, if the system still has them.\<close>

lemma hpux_title:
  assumes "macro p = (\<lambda>m. m = ''__hpux'')"
  shows "setproctitle_by (spt_select p) sco txt t mem =
    Inr ([Pstat_setcmd (take 2047 txt) (length (take 2047 txt))], t, mem)"
  by (simp add: spt_defs assms Let_def setproctitle_by_def other_title_def)

lemma darwin_choice:
  assumes "macro p = (\<lambda>m. m = ''__APPLE__'' \<or> (m = ''PS_STRINGS'' \<and> has))"
  shows "spt_type (spt_select p) = Some (if has then SPT_PSSTRINGS else SPT_REUSEARGV)"
  by (simp add: spt_defs assms Let_def)

end
