(* ===== verification/Udt_Options.thy ===== *)
theory Udt_Options
  imports Sock_Api C_Text
begin

text \<open>
  The UDT options of \<^verbatim>\<open>src/relay/udtrelay.cpp\<close>: \<open>UDT_OPTIONS_LIST\<close>, the parser of the
  \<open>-U\<close> option, \<open>is_custom_value\<close>, the probing of the largest UDP buffer
  (\<open>check_udp_buffer\<close>, with its static variables as state) and \<open>setsockopt(UDTSOCKET)\<close>,
  which prepares every UDT socket of the relay.
\<close>


section \<open>Parsing an option\<close>

definition UDT_OPTIONS_LIST :: "(string \<times> udt_opt) list" where
  "UDT_OPTIONS_LIST =
     [(''UDT_MSS'', UDT_MSS), (''UDT_RCVBUF'', UDT_RCVBUF), (''UDP_RCVBUF'', UDP_RCVBUF),
      (''UDT_SNDBUF'', UDT_SNDBUF), (''UDP_SNDBUF'', UDP_SNDBUF), (''UDT_LINGER'', UDT_LINGER)]"

type_synonym udt_options = "udt_opt \<rightharpoonup> int"

definition is_custom_value :: "udt_options \<Rightarrow> udt_opt \<Rightarrow> bool" where
  "is_custom_value opts optcode = (case opts optcode of None \<Rightarrow> False | Some v \<Rightarrow> True)"

text \<open>The search of the option table.\<close>

fun store_option ::
  "(string \<times> udt_opt) list \<Rightarrow> string \<Rightarrow> int option \<Rightarrow> udt_options \<Rightarrow> udt_options result" where
  "store_option [] optname optval opts = Inl (Exited 1)"
| "store_option ((name, code) # rest) optname optval opts =
     (if caseless_eq name optname
      then case optval of
             None \<Rightarrow> Inl (Fault Uninitialised)
           | Some v \<Rightarrow> Inr (opts(code \<mapsto> v))
      else store_option rest optname optval opts)"

text \<open>The factor that the last character stands for.\<close>

definition quantifier :: "char \<Rightarrow> int option" where
  "quantifier q =
     (if q = CHR ''k'' \<or> q = CHR ''K'' then Some 1024
      else if q = CHR ''m'' \<or> q = CHR ''M'' then Some (1024 * 1024)
      else None)"

text \<open>
  \<open>optval\<close> is \<open>None\<close> while it has not been assigned. The block for the name has the length
  of the whole text, so a text that is all name leaves no room for the terminator, and the
  last character of an empty text lies before it.
\<close>

definition parse_udt_option :: "string \<Rightarrow> udt_options \<Rightarrow> udt_options result" where
  "parse_udt_option optstr opts =
     (let optname = takeWhile is_name_char optstr;
          rest = dropWhile is_name_char optstr;
          optval = (if rest \<noteq> [] \<and> hd rest = CHR ''='' then map_option fst (scan_int (tl rest))
                    else None)
      in if optstr = [] then Inl (Fault Out_of_bounds)
         else if optname = [] then Inl (Fault Uninitialised)
         else if length optname + 1 > length optstr then Inl (Fault Out_of_bounds)
         else case quantifier (last optstr) of
                None \<Rightarrow> store_option UDT_OPTIONS_LIST optname optval opts
              | Some f \<Rightarrow>
                  (case optval of
                     None \<Rightarrow> Inl (Fault Uninitialised)
                   | Some v \<Rightarrow>
                       store_option UDT_OPTIONS_LIST optname (Some (i32 (v * f))) opts))"


section \<open>Probing the UDP buffer size\<close>

text \<open>The static variables of \<open>check_udp_buffer\<close>, one set per direction; all are unsigned.\<close>

record bufstat =
  chk_size :: int   \<comment> \<open>largest size successfully bound\<close>
  max_size :: int   \<comment> \<open>largest size of the system\<close>
  warned :: bool

record udp_statics =
  rcv_stat :: bufstat
  snd_stat :: bufstat

definition fresh_stat :: bufstat where
  "fresh_stat = \<lparr>chk_size = 0, max_size = 0, warned = False\<rparr>"

definition fresh_statics :: udp_statics where
  "fresh_statics = \<lparr>rcv_stat = fresh_stat, snd_stat = fresh_stat\<rparr>"

definition u32 :: "int \<Rightarrow> int" where
  "u32 x = x mod 2 ^ 32"

definition inaddr_any :: sockaddr where
  "inaddr_any = \<lparr>sa_family = AF_INET, sa_data = replicate 14 0\<rparr>"

text \<open>
  The loop \<open>for (int sz = size; sz > 8096; *max_size = sz = sz / 2)\<close>. The first component
  of the result says whether the loop returned from the function.
\<close>

function probe_udp ::
  "'w os \<Rightarrow> int \<Rightarrow> so_opt \<Rightarrow> int \<Rightarrow> bufstat \<Rightarrow> 'w sys \<Rightarrow> (bool \<times> bufstat) \<times> 'w sys" where
  "probe_udp os sd so sz b s =
     (if sz > 8096 then
        let (rc, s1) = sys_num os (Set_so sd so sz 4) s;
            (rb, s2) = (if rc = 0 then sys_num os (Bind (Tcp sd) inaddr_any) s1 else (-1, s1))
        in if rc = 0 \<and> rb = 0
           then let s3 = sys_do os (Close (Tcp sd)) s2;
                    b1 = (if chk_size b < sz then b\<lparr>chk_size := sz\<rparr> else b)
                in ((max_size b1 = 0, b1), s3)
           else probe_udp os sd so (sz div 2) (b\<lparr>max_size := sz div 2\<rparr>) s2
      else ((False, b), s))"
  by pat_completeness auto
termination
  by (relation "measure (\<lambda>(os, sd, so, sz, b, s). nat sz)") auto

declare probe_udp.simps [simp del]

definition stat_of :: "udt_opt \<Rightarrow> udp_statics \<Rightarrow> bufstat" where
  "stat_of optcode st = (if optcode = UDP_RCVBUF then rcv_stat st else snd_stat st)"

definition set_stat :: "udt_opt \<Rightarrow> bufstat \<Rightarrow> udp_statics \<Rightarrow> udp_statics" where
  "set_stat optcode b st =
     (if optcode = UDP_RCVBUF then st\<lparr>rcv_stat := b\<rparr> else st\<lparr>snd_stat := b\<rparr>)"

text \<open>The requested size: a custom value, or what UDT has as its default.\<close>

definition requested_size ::
  "'w os \<Rightarrow> int \<Rightarrow> udt_opt \<Rightarrow> udt_options \<Rightarrow> 'w sys \<Rightarrow> int option \<times> 'w sys" where
  "requested_size os sock optcode opts s =
     (case opts optcode of
        Some v \<Rightarrow> (Some (u32 v), s)
      | None \<Rightarrow>
          let (r, s1) = sys_call os (Get_udt sock optcode) s
          in (case r of Ret v \<Rightarrow> Some (u32 v) | _ \<Rightarrow> None, s1))"

text \<open>The part of the function after the size is known, up to the end of the probing.\<close>

definition probe_if_new ::
  "'w os \<Rightarrow> udt_opt \<Rightarrow> int \<Rightarrow> bufstat \<Rightarrow> 'w sys \<Rightarrow> (bool \<times> bufstat) \<times> 'w sys" where
  "probe_if_new os optcode req b s =
     (if max_size b = 0 then
        let so = (if optcode = UDP_RCVBUF then SO_RCVBUF else SO_SNDBUF);
            (sd, s1) = sys_num os (Socket Udp_kind) s;
            ((ret, b1), s2) = probe_udp os sd so (i32 req) b s1
        in if ret then ((True, b1), s2) else ((False, b1), sys_do os (Close (Tcp sd)) s2)
      else ((False, b), s))"

definition check_udp_buffer ::
  "'w os \<Rightarrow> int \<Rightarrow> udt_opt \<Rightarrow> udt_options \<Rightarrow> udp_statics \<Rightarrow> 'w sys \<Rightarrow>
     (bool \<times> udp_statics \<times> 'w sys) result" where
  "check_udp_buffer os sock optcode opts st s =
     (if \<not> (optcode = UDP_RCVBUF \<or> optcode = UDP_SNDBUF) then Inl (Fault Assertion_failed)
      else
        let b = stat_of optcode st;
            (req, s1) = requested_size os sock optcode opts s
        in case req of
             None \<Rightarrow> Inl (Fault Uninitialised)
           | Some sz \<Rightarrow>
               if chk_size b > 0 \<and> sz \<le> chk_size b then Inr (True, st, s1)
               else
                 let ((ret, b1), s2) = probe_if_new os optcode sz b s1
                 in if ret then Inr (True, set_stat optcode b1 st, s2)
                    else if sz > max_size b1 then
                      if is_custom_value opts optcode then Inl (Exited 1)
                      else
                        let s3 = (if \<not> warned b1
                              then sys_do os (Say LOG_WARNING ''default %s = %d is reduced'') s2
                              else s2);
                            s4 = sys_do os (Set_udt sock optcode (i32 (max_size b1))) s3
                        in Inr (False, set_stat optcode (b1\<lparr>warned := True\<rparr>) st, s4)
                    else Inr (True, set_stat optcode b1 st,
                           sys_do os (Set_udt sock optcode (i32 sz)) s2))"


section \<open>Preparing a UDT socket\<close>

text \<open>
  The loop over the custom options. \<open>order\<close> is the order in which \<open>std::map\<close> visits its
  keys, that of the enumeration in the header of UDT.
\<close>

fun set_custom ::
  "'w os \<Rightarrow> int \<Rightarrow> udt_opt list \<Rightarrow> udt_options \<Rightarrow> 'w sys \<Rightarrow> 'w sys" where
  "set_custom os sock [] opts s = s"
| "set_custom os sock (o1 # order) opts s =
     (case opts o1 of
        None \<Rightarrow> set_custom os sock order opts s
      | Some v \<Rightarrow> set_custom os sock order opts (sys_do os (Set_udt sock o1 v) s))"

definition relay_setsockopt ::
  "'w os \<Rightarrow> int \<Rightarrow> udt_opt list \<Rightarrow> udt_options \<Rightarrow> bool \<Rightarrow> udp_statics \<Rightarrow> 'w sys \<Rightarrow>
     (udp_statics \<times> 'w sys) result" where
  "relay_setsockopt os sock order opts is_rendezvous st s =
     (let s1 = set_custom os sock order opts s
      in bindR (check_udp_buffer os sock UDP_RCVBUF opts st s1)
        (\<lambda>(ok1, st2, s2). bindR (check_udp_buffer os sock UDP_SNDBUF opts st2 s2)
          (\<lambda>(ok2, st3, s3). Inr (st3,
             if is_rendezvous then sys_do os (Set_udt sock UDT_RENDEZVOUS 1) s3 else s3))))"

section \<open>Lemmas\<close>

lemma probe_small: "sz \<le> 8096 \<Longrightarrow> probe_udp os sd so sz b s = ((False, b), s)"
  by (subst probe_udp.simps) simp

text \<open>
  What the loop leaves behind: a size it recorded as the maximum is a halving of the
  requested one; returning early means that the very first size was accepted.
\<close>

lemma probe_result:
  assumes "probe_udp os sd so sz b s = ((ret, b'), s')"
  shows "warned b' = warned b \<and> chk_size b \<le> chk_size b' \<and>
    (max_size b' = max_size b \<and> (ret \<longrightarrow> max_size b = 0 \<and> sz \<le> chk_size b') \<or>
     \<not> ret \<and> 8096 < sz \<and> (\<exists>k>0. max_size b' = sz div 2 ^ k) \<and> 4048 \<le> max_size b')"
  using assms
proof (induction os sd so sz b s arbitrary: ret b' s' rule: probe_udp.induct)
  case (1 os sd so sz b s)
  show ?case
  proof (cases "sz > 8096")
    case False
    with "1.prems" show ?thesis by (simp add: probe_small)
  next
    case True
    obtain rc s1 where c: "sys_num os (Set_so sd so sz 4) s = (rc, s1)" by fastforce
    obtain rb s2 where d: "(if rc = 0 then sys_num os (Bind (Tcp sd) inaddr_any) s1 else (-1, s1))
        = (rb, s2)" by (metis surj_pair)
    show ?thesis
    proof (cases "rc = 0 \<and> rb = 0")
      case True
      with \<open>sz > 8096\<close> "1.prems" c d show ?thesis
        by (subst (asm) probe_udp.simps) (auto simp: Let_def split: if_splits)
    next
      case False
      with \<open>sz > 8096\<close> "1.prems" c d
      have rec: "probe_udp os sd so (sz div 2) (b\<lparr>max_size := sz div 2\<rparr>) s2 = ((ret, b'), s')"
        by (subst (asm) probe_udp.simps) (simp add: Let_def split: if_splits)
      from "1.IH" [OF True refl c [symmetric] refl d [symmetric] False rec]
      have IH: "warned b' = warned b \<and> chk_size b \<le> chk_size b' \<and>
        (max_size b' = sz div 2 \<and> \<not> ret \<or>
         \<not> ret \<and> (\<exists>k>0. max_size b' = sz div 2 div 2 ^ k) \<and> 4048 \<le> max_size b')"
        using True by auto
      moreover have "sz div 2 div 2 ^ k = sz div 2 ^ Suc k" for k
        by (simp add: zdiv_zmult2_eq [symmetric])
      moreover have "4048 \<le> sz div 2" using True by simp
      ultimately show ?thesis
        using True by (metis power_one_right zero_less_one zero_less_Suc)
    qed
  qed
qed

lemma name_char_not_eq [simp]: "\<not> is_name_char (CHR ''='')"
  by (simp add: is_name_char_def)

lemma takeWhile_name:
  "list_all is_name_char nm \<Longrightarrow> takeWhile is_name_char (nm @ CHR ''='' # rest) = nm \<and>
    dropWhile is_name_char (nm @ CHR ''='' # rest) = CHR ''='' # rest"
  by (induction nm) auto

lemma store_option_distinct:
  assumes "distinct (map (\<lambda>e. map to_lower (fst e)) table)"
    and "(name, code) \<in> set table" and "caseless_eq name nm"
  shows "store_option table nm (Some v) opts = Inr (opts(code \<mapsto> v))"
  using assms(1,2)
proof (induction table)
  case Nil
  then show ?case by simp
next
  case (Cons e table)
  then show ?case
    using assms(3) by (cases e) (force simp: caseless_eq_def)
qed

lemma store_option_hit:
  "(name, code) \<in> set UDT_OPTIONS_LIST \<Longrightarrow> caseless_eq name nm \<Longrightarrow>
    store_option UDT_OPTIONS_LIST nm (Some v) opts = Inr (opts(code \<mapsto> v))"
  by (rule store_option_distinct) (code_simp)

lemma store_option_miss:
  "\<forall>e \<in> set table. \<not> caseless_eq (fst e) nm \<Longrightarrow> store_option table nm v opts = Inl (Exited 1)"
  by (induction table nm v opts rule: store_option.induct) auto

lemma quantifier_digit: "is_digit c \<Longrightarrow> quantifier c = None"
  by (auto simp: quantifier_def is_digit_def)

text \<open>What a suffix of the value stands for.\<close>

fun suffix_factor :: "string \<Rightarrow> int option" where
  "suffix_factor [] = Some 1"
| "suffix_factor [q] = quantifier q"
| "suffix_factor _ = None"

lemma suffix_factor_cases:
  assumes "suffix_factor q = Some f"
  obtains "q = []" "f = 1" | c where "q = [c]" "quantifier c = Some f" "\<not> is_digit c"
  using assms quantifier_digit by (cases q rule: suffix_factor.cases) force+

lemma parse_named_value:
  assumes "nm \<noteq> []" and "list_all is_name_char nm" and "n < 2 ^ 31" and "suffix_factor q = Some f"
  shows "parse_udt_option (nm @ ''='' @ dec_nat n @ q) opts =
    store_option UDT_OPTIONS_LIST nm (Some (i32 (int n * f))) opts"
proof -
  have "scan_int (dec_nat n @ q) = Some (int n, q)"
    using assms(3,4) by (intro scan_int_dec_nat) (auto elim!: suffix_factor_cases)
  moreover have "quantifier (last (dec_nat n)) = None"
    using dec_nat_digits [of n] by (intro quantifier_digit) simp
  ultimately show ?thesis
    using assms takeWhile_name [OF assms(2), of "dec_nat n @ q"]
    by (auto simp: parse_udt_option_def Let_def elim!: suffix_factor_cases)
qed

lemma sys_do_calls: "map fst (log (sys_do os c s)) = map fst (log s) @ [c]"
  using sys_do_log [of os c s] by auto

text \<open>The calls that the loop over the custom options makes.\<close>

definition custom_calls :: "int \<Rightarrow> udt_opt list \<Rightarrow> udt_options \<Rightarrow> call list" where
  "custom_calls sock order opts =
     concat (map (\<lambda>o1. case opts o1 of None \<Rightarrow> [] | Some v \<Rightarrow> [Set_udt sock o1 v]) order)"

lemma set_custom_calls:
  "map fst (log (set_custom os sock order opts s)) =
    map fst (log s) @ custom_calls sock order opts"
  by (induction os sock order opts s rule: set_custom.induct)
    (simp_all add: custom_calls_def sys_do_calls split: option.split)


text \<open>The range of a recorded maximum.\<close>

definition stat_ok :: "bufstat \<Rightarrow> bool" where
  "stat_ok b \<longleftrightarrow> max_size b = 0 \<or> 4048 \<le> max_size b"

lemma stat_of_set_stat [simp]: "stat_of optcode (set_stat optcode b st) = b"
  by (simp add: stat_of_def set_stat_def)

lemma check_udp_buffer_stat_of:
  assumes "check_udp_buffer os sock optcode opts st s = Inr (ok, st', s')"
  obtains v s1 where "requested_size os sock optcode opts s = (Some v, s1)"
    and "st' = st \<or> (\<exists>r b t w. probe_if_new os optcode v (stat_of optcode st) s1 = ((r, b), t) \<and>
      stat_of optcode st' = b\<lparr>warned := w\<rparr>)"
proof -
  have same: "\<exists>w. b = b\<lparr>warned := w\<rparr>" for b :: bufstat
    by (rule exI [of _ "warned b"]) simp
  obtain v s1 where v: "requested_size os sock optcode opts s = (Some v, s1)"
    using assms
    by (auto simp: check_udp_buffer_def Let_def split: if_splits option.splits prod.splits)
  obtain r b t where p: "probe_if_new os optcode v (stat_of optcode st) s1 = ((r, b), t)"
    by (metis surj_pair)
  have "st' = st \<or> (\<exists>w. stat_of optcode st' = b\<lparr>warned := w\<rparr>)"
    using assms v p same [of b]
    by (auto simp: check_udp_buffer_def Let_def split: if_splits)
  with v p show ?thesis by (intro that) auto
qed

lemma probe_if_new_stat:
  "probe_if_new os optcode v b t = ((r, b'), t') \<Longrightarrow>
    (stat_ok b \<longrightarrow> stat_ok b') \<and> chk_size b \<le> chk_size b' \<and>
    (max_size b' = max_size b \<or> (\<exists>k. max_size b' = i32 v div 2 ^ k))"
  by (auto simp: probe_if_new_def stat_ok_def Let_def split: if_splits prod.splits
      dest!: probe_result)

text \<open>The calls of \<open>check_udp_buffer\<close>: only the two buffer sizes of the socket are set.\<close>

definition buffer_call :: "int \<Rightarrow> call \<Rightarrow> bool" where
  "buffer_call sock c =
     (case c of
        Set_udt u opt v \<Rightarrow> u = sock \<and> (opt = UDP_RCVBUF \<or> opt = UDP_SNDBUF)
      | Send ep bs f \<Rightarrow> False | Recv ep n f \<Rightarrow> False | Write fd bs \<Rightarrow> False | Read fd n \<Rightarrow> False
      | Connect ep a \<Rightarrow> False | Accept ep \<Rightarrow> False
      | Close ep \<Rightarrow> \<not> is_udt ep
      | _ \<Rightarrow> True)"

lemma probe_udp_calls: "only_calls (buffer_call sock) s (snd (probe_udp os sd so sz b s))"
proof (induction os sd so sz b s rule: probe_udp.induct)
  case (1 os sd so sz b s)
  obtain rc s1 where c: "sys_num os (Set_so sd so sz 4) s = (rc, s1)" by fastforce
  obtain rb s2 where d: "(if rc = 0 then sys_num os (Bind (Tcp sd) inaddr_any) s1 else (-1, s1))
      = (rb, s2)" by (metis surj_pair)
  have "only_calls (buffer_call sock) s s1" "only_calls (buffer_call sock) s1 s2"
    using c d by (auto simp: buffer_call_def intro: only_calls_sys_num split: if_splits)
  then have "only_calls (buffer_call sock) s s2" by (rule only_calls_trans)
  moreover have "only_calls (buffer_call sock) s2 (sys_do os (Close (Tcp sd)) s2)"
    by (rule only_calls_sys_do) (simp add: buffer_call_def)
  ultimately show ?case
    using "1.IH" [OF _ refl c [symmetric] refl d [symmetric]] c d
    by (subst probe_udp.simps) (auto simp: Let_def intro: only_calls_trans)
qed

lemma probe_if_new_calls:
  assumes "probe_if_new os optcode v b s = (rb, s')"
  shows "only_calls (buffer_call sock) s s'"
proof (cases "max_size b = 0")
  case False
  with assms show ?thesis by (simp add: probe_if_new_def)
next
  case True
  define so where "so = (if optcode = UDP_RCVBUF then SO_RCVBUF else SO_SNDBUF)"
  obtain sd s1 where c: "sys_num os (Socket Udp_kind) s = (sd, s1)" by fastforce
  obtain r b1 s2 where p: "probe_udp os sd so (i32 v) b s1 = ((r, b1), s2)"
    by (metis surj_pair)
  have "only_calls (buffer_call sock) s s1"
    using c by (rule only_calls_sys_num) (simp add: buffer_call_def)
  also have "only_calls (buffer_call sock) s1 s2"
    using probe_udp_calls [of sock s1 os sd so "i32 v" b] p by simp
  finally have "only_calls (buffer_call sock) s s2" .
  moreover from this have "only_calls (buffer_call sock) s (sys_do os (Close (Tcp sd)) s2)"
    by (rule only_calls_then_do) (simp add: buffer_call_def)
  ultimately show ?thesis
    using assms True c p by (auto simp: probe_if_new_def so_def split: if_splits)
qed

lemma check_udp_buffer_calls:
  assumes "check_udp_buffer os sock optcode opts st s = Inr (ok, st', s')"
  shows "only_calls (buffer_call sock) s s'"
proof -
  have opt: "optcode = UDP_RCVBUF \<or> optcode = UDP_SNDBUF"
    using assms by (auto simp: check_udp_buffer_def split: if_splits)
  obtain v s1 where v: "requested_size os sock optcode opts s = (Some v, s1)"
    using assms
    by (auto simp: check_udp_buffer_def Let_def split: if_splits option.splits prod.splits)
  obtain r b t where p: "probe_if_new os optcode v (stat_of optcode st) s1 = ((r, b), t)"
    by (metis surj_pair)
  have s1: "only_calls (buffer_call sock) s s1"
    using v by (auto simp: requested_size_def buffer_call_def intro: only_calls_sys_call
        split: option.splits prod.splits)
  also have "only_calls (buffer_call sock) s1 t" using p by (rule probe_if_new_calls)
  finally have t: "only_calls (buffer_call sock) s t" .
  have say: "buffer_call sock (Say pri fmt)" for pri fmt by (simp add: buffer_call_def)
  have set: "buffer_call sock (Set_udt sock optcode x)" for x
    using opt by (simp add: buffer_call_def)
  show ?thesis
    using assms opt v p s1 t
    by (auto simp: check_udp_buffer_def Let_def split: if_splits
        intro!: only_calls_then_do set say)
qed


lemma relay_setsockopt_calls:
  assumes "relay_setsockopt os sock order opts rdv st s = Inr (st', s')"
  shows "\<exists>mid. map fst (log s') = map fst (log s) @ custom_calls sock order opts @ mid @
      (if rdv then [Set_udt sock UDT_RENDEZVOUS 1] else []) \<and>
    (\<forall>c \<in> set mid. buffer_call sock c)"
proof -
  from assms obtain ok1 st1 s1 ok2 s2 where
      c1: "check_udp_buffer os sock UDP_RCVBUF opts st (set_custom os sock order opts s) =
        Inr (ok1, st1, s1)" and
      c2: "check_udp_buffer os sock UDP_SNDBUF opts st1 s1 = Inr (ok2, st', s2)" and
      s': "s' = (if rdv then sys_do os (Set_udt sock UDT_RENDEZVOUS 1) s2 else s2)"
    by (auto simp: relay_setsockopt_def bindR_eq_Inr Let_def)
  have "only_calls (buffer_call sock) (set_custom os sock order opts s) s2"
    using check_udp_buffer_calls [OF c1] check_udp_buffer_calls [OF c2]
    by (rule only_calls_trans)
  then obtain l where l: "log s2 = log (set_custom os sock order opts s) @ l"
      "\<forall>e \<in> set l. buffer_call sock (fst e)"
    by (auto simp: only_calls_def)
  show ?thesis
    by (rule exI [of _ "map fst l"])
      (use l s' in \<open>auto simp: set_custom_calls sys_do_calls\<close>)
qed

text \<open>In short: besides options of the socket, only what the buffer checks call.\<close>

definition opt_call :: "int \<Rightarrow> call \<Rightarrow> bool" where
  "opt_call sock c \<longleftrightarrow> (\<exists>opt v. c = Set_udt sock opt v) \<or> buffer_call sock c"

lemma opt_call_proj [simp]:
  "opt_call sock c \<Longrightarrow> sends ep c = []" "opt_call sock c \<Longrightarrow> connects c = []"
  by (auto simp: opt_call_def buffer_call_def sends_def connects_def split: call.splits)

lemma opt_call_streams [simp]:
  "opt_call sock c \<Longrightarrow> in_bytes ep (c, r) = []" "opt_call sock c \<Longrightarrow> out_bytes ep (c, r) = []"
  by (auto simp: opt_call_def buffer_call_def in_bytes_def out_bytes_def split: call.splits)

lemma relay_setsockopt_only:
  assumes "relay_setsockopt os sock order opts rdv st s = Inr (st', s')"
  shows "only_calls (opt_call sock) s s'"
proof -
  from assms obtain ok1 st1 s1 ok2 s2 where
      c1: "check_udp_buffer os sock UDP_RCVBUF opts st (set_custom os sock order opts s) =
        Inr (ok1, st1, s1)" and
      c2: "check_udp_buffer os sock UDP_SNDBUF opts st1 s1 = Inr (ok2, st', s2)" and
      s': "s' = (if rdv then sys_do os (Set_udt sock UDT_RENDEZVOUS 1) s2 else s2)"
    by (auto simp: relay_setsockopt_def bindR_eq_Inr Let_def)
  have "only_calls (opt_call sock) s (set_custom os sock order opts s)"
    by (induction os sock order opts s rule: set_custom.induct)
      (auto split: option.split elim!: only_calls_trans [rotated]
        simp: opt_call_def intro!: only_calls_sys_do)
  also have "only_calls (opt_call sock) \<dots> s2"
    using only_calls_trans [OF check_udp_buffer_calls [OF c1] check_udp_buffer_calls [OF c2]]
    by (rule only_calls_weaken) (simp add: opt_call_def)
  finally show ?thesis
    using s' by (auto intro: only_calls_then_do simp: opt_call_def)
qed


section \<open>Properties\<close>

text \<open>C36: An option text \<open>name=value\<close> with a known name in any mixture of cases, a decimal
  value and an optional quantifier sets that option, and only it, to the value times 1024
  or 1048576, reduced to an \<open>int\<close>; products of less than 2 to the 31 are exact.\<close>

theorem parse_udt_option_sets_value:
  assumes "(name, code) \<in> set UDT_OPTIONS_LIST" and "caseless_eq name nm"
    and "nm \<noteq> []" and "list_all is_name_char nm" and "n < 2 ^ 31"
    and "suffix_factor q = Some f"
  shows "parse_udt_option (nm @ ''='' @ dec_nat n @ q) opts = Inr (opts(code \<mapsto> i32 (int n * f)))
    \<and> (int n * f < 2 ^ 31 \<longrightarrow> i32 (int n * f) = int n * f)"
proof -
  have "0 \<le> f" using assms(6)
    by (auto elim!: suffix_factor_cases simp: quantifier_def split: if_splits)
  then show ?thesis
    using assms(1,2) parse_named_value [OF assms(3-6)]
    by (auto simp: store_option_hit intro!: i32_id order_trans [OF _ mult_nonneg_nonneg])
qed

theorem parse_udt_option_sets_value_witness:
  "parse_udt_option (''udp_RcvBuf'' @ ''='' @ dec_nat 8 @ ''M'') Map.empty =
     Inr [UDP_RCVBUF \<mapsto> 8388608] \<and>
   parse_udt_option (''UDT_SNDBUF'' @ ''='' @ dec_nat 4096 @ ''M'') Map.empty =
     Inr [UDT_SNDBUF \<mapsto> 0]"
proof
  have c: "caseless_eq ''UDP_RCVBUF'' ''udp_RcvBuf''" "caseless_eq ''UDT_SNDBUF'' ''UDT_SNDBUF''"
    by code_simp+
  show "parse_udt_option (''udp_RcvBuf'' @ ''='' @ dec_nat 8 @ ''M'') Map.empty =
     Inr [UDP_RCVBUF \<mapsto> 8388608]"
    by (subst parse_udt_option_sets_value [OF _ c(1), where f = 1048576])
      (simp_all add: UDT_OPTIONS_LIST_def is_name_char_def quantifier_def)
  show "parse_udt_option (''UDT_SNDBUF'' @ ''='' @ dec_nat 4096 @ ''M'') Map.empty =
     Inr [UDT_SNDBUF \<mapsto> 0]"
    by (subst parse_udt_option_sets_value [OF _ c(2), where f = 1048576])
      (simp_all add: UDT_OPTIONS_LIST_def is_name_char_def quantifier_def i32_def)
qed

text \<open>A text that is a name only, such as \<open>-U UDT_MSS\<close>, makes the parser write the
  terminator of the name past the end of its block; a text with an unknown name ends the
  process.\<close>

theorem parse_udt_option_bad_text:
  assumes "list_all is_name_char nm" and "nm \<noteq> []"
    and "\<forall>e \<in> set UDT_OPTIONS_LIST. \<not> caseless_eq (fst e) nm"
  shows "parse_udt_option nm opts = Inl (Fault Out_of_bounds) \<and>
    parse_udt_option (nm @ ''='' @ dec_nat 0) opts = Inl (Exited 1)"
  using assms parse_named_value [of nm 0 "[]" 1 opts]
  by (auto simp: parse_udt_option_def Let_def store_option_miss list_all_iff
      takeWhile_eq_all_conv [THEN iffD2] dropWhile_eq_Nil_conv [THEN iffD2])

theorem parse_udt_option_bad_text_witness:
  "parse_udt_option ''UDT_CC'' Map.empty = Inl (Fault Out_of_bounds) \<and>
    parse_udt_option (''UDT_CC'' @ ''='' @ dec_nat 0) Map.empty = Inl (Exited 1)"
proof (rule parse_udt_option_bad_text)
  show "list_all is_name_char ''UDT_CC''" by code_simp
  show "\<forall>e \<in> set UDT_OPTIONS_LIST. \<not> caseless_eq (fst e) ''UDT_CC''" by code_simp
qed simp

text \<open>\<open>check_udp_buffer\<close> answers false exactly in the case in which it reduced the
  buffer: the option was not set by the user, the last call sets it on the socket to the
  recorded maximum of the system, and that is less than the size UDT asked for. (The
  comment above the function says the opposite.)\<close>

theorem check_udp_buffer_false_reduces:
  assumes "check_udp_buffer os sock optcode opts st s = Inr (False, st', s')"
  shows "opts optcode = None \<and> warned (stat_of optcode st') \<and>
    fst (last (log s')) = Set_udt sock optcode (i32 (max_size (stat_of optcode st'))) \<and>
    (\<exists>v. fst (requested_size os sock optcode opts s) = Some v \<and>
      max_size (stat_of optcode st') < v)"
proof -
  have last: "fst (last (log (sys_do os c t))) = c" for c and t :: "'a sys"
    using sys_do_log [of os c t] by auto
  show ?thesis
    using assms
    by (auto simp: check_udp_buffer_def is_custom_value_def stat_of_def set_stat_def last Let_def
        split: if_splits option.splits prod.splits)
qed

theorem check_udp_buffer_false_reduces_witness:
  "\<exists>st' s'. check_udp_buffer script 9 UDP_RCVBUF Map.empty fresh_statics
       (start [Ret 12000, Ret 3, Fail 105, Ret 0, Ret 0]) = Inr (False, st', s') \<and>
     fst (last (log s')) = Set_udt 9 UDP_RCVBUF 6000"
proof -
  obtain st' s' where r: "check_udp_buffer script 9 UDP_RCVBUF Map.empty fresh_statics
       (start [Ret 12000, Ret 3, Fail 105, Ret 0, Ret 0]) = Inr (False, st', s')"
      "max_size (stat_of UDP_RCVBUF st') = 6000"
    by (simp add: check_udp_buffer_def fresh_statics_def fresh_stat_def stat_of_def set_stat_def
        requested_size_def probe_if_new_def probe_udp.simps sys_num_def sys_do_def sys_call_def
        answer_def script_def start_def of_udt_def u32_def is_custom_value_def)
  from check_udp_buffer_false_reduces [OF r(1)] r show ?thesis by auto
qed

text \<open>A custom UDP buffer of at most 8096 bytes that has not been checked before ends
  the process with the message that it is too big: nothing of that size is ever probed,
  and the maximum it is compared with is 0.\<close>

theorem small_custom_buffer_dies:
  assumes "optcode = UDP_RCVBUF \<or> optcode = UDP_SNDBUF"
    and "opts optcode = Some v" and "0 < v" and "v \<le> 8096"
    and "chk_size (stat_of optcode st) < v" and "max_size (stat_of optcode st) = 0"
  shows "check_udp_buffer os sock optcode opts st s = Inl (Exited 1)"
  using assms
  by (auto simp: check_udp_buffer_def requested_size_def probe_if_new_def probe_small u32_def
      is_custom_value_def Let_def split: prod.splits)

theorem small_custom_buffer_dies_witness:
  "check_udp_buffer script 9 UDP_RCVBUF [UDP_RCVBUF \<mapsto> 8000] fresh_statics (start []) =
    Inl (Exited 1)"
  by (rule small_custom_buffer_dies [where v = 8000])
    (simp_all add: stat_of_def fresh_statics_def fresh_stat_def)

text \<open>The maximum that probing records is 0, or the requested size halved a number of
  times and at least 4048; the largest size known to be bindable only grows. Both bounds
  survive every later check of the same direction.\<close>

theorem check_udp_buffer_stats:
  assumes "check_udp_buffer os sock optcode opts st s = Inr (ok, st', s')"
    and "stat_ok (stat_of optcode st)"
  shows "stat_ok (stat_of optcode st') \<and>
    chk_size (stat_of optcode st) \<le> chk_size (stat_of optcode st') \<and>
    (max_size (stat_of optcode st') = max_size (stat_of optcode st) \<or>
      (\<exists>v k. fst (requested_size os sock optcode opts s) = Some v \<and>
        max_size (stat_of optcode st') = i32 v div 2 ^ k))"
proof -
  obtain v s1 where v: "requested_size os sock optcode opts s = (Some v, s1)"
    and st: "st' = st \<or> (\<exists>r b t w. probe_if_new os optcode v (stat_of optcode st) s1 = ((r, b), t) \<and>
      stat_of optcode st' = b\<lparr>warned := w\<rparr>)"
    using assms(1) by (rule check_udp_buffer_stat_of)
  from st show ?thesis
  proof
    assume "st' = st"
    with assms(2) show ?thesis by simp
  next
    assume "\<exists>r b t w. probe_if_new os optcode v (stat_of optcode st) s1 = ((r, b), t) \<and>
      stat_of optcode st' = b\<lparr>warned := w\<rparr>"
    then obtain r b t w where p: "probe_if_new os optcode v (stat_of optcode st) s1 = ((r, b), t)"
        "stat_of optcode st' = b\<lparr>warned := w\<rparr>" by blast
    with probe_if_new_stat [OF p(1)] assms(2) v show ?thesis
      by (auto simp: stat_ok_def)
  qed
qed

theorem check_udp_buffer_stats_witness:
  "\<exists>ok st' s'. check_udp_buffer script 9 UDP_RCVBUF Map.empty fresh_statics
       (start [Ret 12000, Ret 3, Fail 105, Ret 0, Ret 0]) = Inr (ok, st', s') \<and>
     stat_ok (stat_of UDP_RCVBUF st')"
proof -
  obtain st' s' where r: "check_udp_buffer script 9 UDP_RCVBUF Map.empty fresh_statics
       (start [Ret 12000, Ret 3, Fail 105, Ret 0, Ret 0]) = Inr (False, st', s')"
    by (simp add: check_udp_buffer_def fresh_statics_def fresh_stat_def stat_of_def set_stat_def
        requested_size_def probe_if_new_def probe_udp.simps sys_num_def sys_do_def sys_call_def
        answer_def script_def start_def of_udt_def u32_def is_custom_value_def)
  have "stat_ok (stat_of UDP_RCVBUF fresh_statics)"
    by (simp add: stat_ok_def stat_of_def fresh_statics_def fresh_stat_def)
  from check_udp_buffer_stats [OF r this] r show ?thesis by blast
qed

text \<open>C30: \<open>setsockopt\<close> applies every custom option to the socket, in the order of the
  option map, then only touches the two UDP buffer sizes of that socket, and turns the
  rendezvous mode on, last of all, exactly when it was asked for.\<close>

theorem relay_setsockopt_applies_options:
  assumes "relay_setsockopt os sock order opts rdv st s = Inr (st', s')"
  shows "\<exists>mid. map fst (log s') = map fst (log s) @ custom_calls sock order opts @ mid @
      (if rdv then [Set_udt sock UDT_RENDEZVOUS 1] else []) \<and>
    (\<forall>c \<in> set mid. buffer_call sock c)"
  using assms by (rule relay_setsockopt_calls)

theorem relay_setsockopt_applies_options_witness:
  "\<exists>st' s' mid. relay_setsockopt script 9 [UDT_MSS, UDP_RCVBUF] [UDT_MSS \<mapsto> 1400] True fresh_statics
       (start [Ret 0, Ret 12000, Ret 3, Ret 0, Ret 0, Ret 0, Ret 10000, Ret 3, Ret 0, Ret 0, Ret 0])
       = Inr (st', s') \<and>
     map fst (log s') = [Set_udt 9 UDT_MSS 1400] @ mid @ [Set_udt 9 UDT_RENDEZVOUS 1]"
proof -
  obtain st' s' where r: "relay_setsockopt script 9 [UDT_MSS, UDP_RCVBUF] [UDT_MSS \<mapsto> 1400] True
       fresh_statics
       (start [Ret 0, Ret 12000, Ret 3, Ret 0, Ret 0, Ret 0, Ret 10000, Ret 3, Ret 0, Ret 0, Ret 0])
       = Inr (st', s')"
    by (simp add: relay_setsockopt_def check_udp_buffer_def fresh_statics_def fresh_stat_def
        stat_of_def set_stat_def requested_size_def probe_if_new_def probe_udp.simps sys_num_def
        sys_do_def sys_call_def answer_def script_def start_def of_udt_def u32_def
        is_custom_value_def)
  from relay_setsockopt_applies_options [OF r] r show ?thesis
    by (auto simp: custom_calls_def start_def)
qed

end
