(* ===== verification/Socks.thy ===== *)
theory Socks
  imports Udt_Options Sock_Io
begin

text \<open>
  The SOCKS4 handshakes of \<open>start_child\<close> in \<^verbatim>\<open>src/relay/udtrelay.cpp\<close>: the side that
  accepts a UDT connection from the peer relay and connects to the destination
  (\<open>server_handshake\<close>), and the side that accepts a socks connection from an application
  and forwards its request to the peer relay (\<open>client_handshake\<close>). Every answer of the
  environment, errors included, is possible at every call.

  A handshake is \<open>None\<close> when it does not return. \<open>junk\<close> arguments are the indeterminate
  contents of uninitialised variables.
\<close>


section \<open>Requests\<close>

text \<open>The packed \<open>struct sock_pkt\<close>.\<close>

record sock_pkt =
  vn :: byte
  cd :: byte
  dstport :: "byte list"
  dstip :: "byte list"

definition pkt_bytes :: "sock_pkt \<Rightarrow> byte list" where
  "pkt_bytes p = [vn p, cd p] @ dstport p @ dstip p"

definition pkt_of :: "byte list \<Rightarrow> sock_pkt" where
  "pkt_of bs = \<lparr>vn = bs ! 0, cd = bs ! 1, dstport = take 2 (drop 2 bs), dstip = take 4 (drop 4 bs)\<rparr>"

definition wf_pkt :: "sock_pkt \<Rightarrow> bool" where
  "wf_pkt p \<longleftrightarrow> length (dstport p) = 2 \<and> length (dstip p) = 4"

lemma length_pkt_bytes: "wf_pkt p \<Longrightarrow> length (pkt_bytes p) = 8"
  by (simp add: pkt_bytes_def wf_pkt_def)

lemma pkt_of_bytes [simp]: "wf_pkt p \<Longrightarrow> pkt_of (pkt_bytes p) = p"
  by (simp add: pkt_bytes_def wf_pkt_def pkt_of_def)

lemma pkt_of_sel [simp]: "vn (pkt_of bs) = bs ! 0" "cd (pkt_of bs) = bs ! 1"
  by (simp_all add: pkt_of_def)

lemma wf_pkt_of: "length bs = 8 \<Longrightarrow> wf_pkt (pkt_of bs)"
  by (simp add: wf_pkt_def pkt_of_def)

lemma bytes_pkt_of:
  assumes "length bs = 8"
  shows "pkt_bytes (pkt_of bs) = bs"
proof -
  obtain a b c d e f g h where "bs = [a, b, c, d, e, f, g, h]"
    using assms by (auto simp: numeral_eq_Suc length_Suc_conv)
  then show ?thesis by (simp add: pkt_bytes_def pkt_of_def)
qed

text \<open>The destination: \<open>sin_port\<close> and \<open>sin_addr\<close> copied as they came, the rest zero.\<close>

definition dest_addr :: "sock_pkt \<Rightarrow> sockaddr" where
  "dest_addr p = \<lparr>sa_family = AF_INET, sa_data = dstport p @ dstip p @ replicate 8 0\<rparr>"


section \<open>Process configuration and connection\<close>

record config =
  net_access :: int
  is_rendezvous :: bool
  udt_opts :: udt_options
  opt_order :: "udt_opt list"
  peer_addr :: sockaddr       \<comment> \<open>\<open>pPeeraddr\<close>\<close>
  rzv_local :: sockaddr       \<comment> \<open>\<open>pPeerRzvLocal\<close>\<close>

record cargs =
  udtsock :: int
  tcpsock :: int
  shutdown :: int

text \<open>How the handshake leaves its loop: with the relay threads, by \<open>break\<close>, or by \<open>return\<close>.\<close>

datatype child_end = Relay cargs | Broken cargs | Returned

definition MSG_WAITALL :: int where
  "MSG_WAITALL = 256"


section \<open>The loops of the handshakes\<close>

text \<open>
  \<open>for (p = spktp; p < spktp + sizeof(spkt);) p += UDT::recv(...)\<close>, with \<open>p\<close> as an offset.
  The result of a failed call is -1, which moves the pointer back.
\<close>

partial_function (option) recv_pkt ::
  "'w os \<Rightarrow> int \<Rightarrow> int \<Rightarrow> byte list \<Rightarrow> 'w sys \<Rightarrow> (byte list \<times> 'w sys) result option" where
  "recv_pkt os u p spkt s =
     (if p < 8 then
        (case sys_call os (Recv (Udt u) (8 - p) 0) s of (r, s') \<Rightarrow>
           if p < 0 \<and> resp_data r \<noteq> [] then Some (Inl (Fault Out_of_bounds))
           else recv_pkt os u (p + rv r) (overwrite (nat p) (resp_data r) spkt) s')
      else Some (Inr (spkt, s)))"

text \<open>
  \<open>do { recv(sock, &c, 1, 0); } while (c != 0)\<close>: the user name is skipped. The result of
  the call is not looked at.
\<close>

partial_function (option) skip_userid ::
  "'w os \<Rightarrow> endpoint \<Rightarrow> byte \<Rightarrow> 'w sys \<Rightarrow> 'w sys result option" where
  "skip_userid os ep c s =
     (case sys_call os (Recv ep 1 0) s of (r, s') \<Rightarrow>
        let c' = (case resp_data r of [] \<Rightarrow> c | b # bs \<Rightarrow> b)
        in if c' \<noteq> 0 then skip_userid os ep c' s' else Some (Inr s'))"

text \<open>\<open>while (UDT::recv(peersock, &spkt, sizeof(spkt), 0) == 0);\<close>\<close>

partial_function (option) wait_reply ::
  "'w os \<Rightarrow> int \<Rightarrow> byte list \<Rightarrow> 'w sys \<Rightarrow> (byte list \<times> 'w sys) result option" where
  "wait_reply os u spkt s =
     (case sys_call os (Recv (Udt u) 8 0) s of (r, s') \<Rightarrow>
        let spkt' = overwrite 0 (resp_data r) spkt
        in if rv r = 0 then wait_reply os u spkt' s' else Some (Inr (spkt', s')))"


section \<open>The handshakes\<close>

text \<open>\<open>spkt.cd = code; send(..., &spkt, sizeof(spkt), 0)\<close>\<close>

definition send_reply :: "'w os \<Rightarrow> endpoint \<Rightarrow> byte \<Rightarrow> byte list \<Rightarrow> 'w sys \<Rightarrow> 'w sys" where
  "send_reply os ep code spkt s = sys_do os (Send ep (spkt[1 := code]) 0) s"

text \<open>The access check with its call of \<open>getifaddrs\<close>, and the list it returns.\<close>

definition interfaces_of :: "resp \<Rightarrow> ifaddrs list option" where
  "interfaces_of r = (case r of Ifs l \<Rightarrow> Some l | _ \<Rightarrow> None)"

definition check_access :: "'w os \<Rightarrow> int \<Rightarrow> sockaddr \<Rightarrow> 'w sys \<Rightarrow> (bool \<times> 'w sys) result" where
  "check_access os na addr s =
     (if na < 2
      then let (r, s') = sys_call os Getifaddrs s
           in bindR (access_allowed na addr (interfaces_of r))
                (\<lambda>ok. Inr (ok, s'))
      else Inr (True, s))"

definition server_handshake ::
  "'w os \<Rightarrow> config \<Rightarrow> int \<Rightarrow> byte list \<Rightarrow> byte \<Rightarrow> 'w sys \<Rightarrow> (child_end \<times> 'w sys) result option" where
  "server_handshake os cfg servsock junk_pkt junk_c s0 =
     (let (peersock, s1) = sys_num os (Socket Tcp_kind) s0;
          args = \<lparr>udtsock = servsock, tcpsock = peersock, shutdown = 0\<rparr>;
          ep = Udt servsock
      in bindO (recv_pkt os servsock 0 junk_pkt s1) (\<lambda>(spkt, s2).
           if spkt ! 0 \<noteq> 4 then
             Some (Inr (Returned, send_reply os ep 91 spkt
               (sys_do os (Say LOG_WARNING ''wrong socks version (%d), connection closed'') s2)))
           else if spkt ! 1 \<noteq> 1 then
             Some (Inr (Returned, send_reply os ep 91 spkt
               (sys_do os (Say LOG_WARNING ''! wrong command - only \"connect\" is supported'') s2)))
           else bindO (skip_userid os ep junk_c s2) (\<lambda>s3.
             let paddr = dest_addr (pkt_of spkt)
             in bindO (Some (check_access os (net_access cfg) paddr s3)) (\<lambda>(ok, s4).
               if \<not> ok then
                 Some (Inr (Broken args,
                   sys_do os (Say LOG_WARNING ''rejected incoming connection to: %s'')
                     (send_reply os ep 92 spkt s4)))
               else
                 let (rc, s5) = sys_num os (Connect (Tcp peersock) paddr) s4
                 in if rc = -1 then
                      Some (Inr (Broken args,
                        sys_do os (Say LOG_WARNING ''canot connect'') (send_reply os ep 92 spkt s5)))
                    else Some (Inr (Relay args, send_reply os ep 90 spkt s5))))))"

definition client_handshake ::
  "'w os \<Rightarrow> config \<Rightarrow> int \<Rightarrow> byte list \<Rightarrow> byte \<Rightarrow> udp_statics \<Rightarrow> 'w sys \<Rightarrow>
     (child_end \<times> udp_statics \<times> 'w sys) result option" where
  "client_handshake os cfg servsock junk_pkt junk_c st s0 =
     (let (peersock, s1) = sys_num os (Socket Udt_kind) s0;
          args = \<lparr>udtsock = peersock, tcpsock = servsock, shutdown = 0\<rparr>;
          ep = Tcp servsock;
          (r, s2) = sys_call os (Recv ep 8 MSG_WAITALL) s1;
          spkt = overwrite 0 (resp_data r) junk_pkt
      in if spkt ! 0 \<noteq> 4 then
           Some (Inr (Broken args, st, send_reply os ep 91 spkt
             (sys_do os (Say LOG_WARNING ''wrong socks version; connection closed'') s2)))
         else if spkt ! 1 \<noteq> 1 then
           Some (Inr (Broken args, st, send_reply os ep 90 spkt
             (sys_do os (Say LOG_WARNING ''wrong command - only connect is supported'') s2)))
         else bindO (skip_userid os ep junk_c s2) (\<lambda>s3.
           bindO (Some (relay_setsockopt os peersock (opt_order cfg) (udt_opts cfg)
                         (is_rendezvous cfg) st s3)) (\<lambda>(st', s4).
             let bind_addr = (if is_rendezvous cfg then rzv_local cfg else inaddr_any);
                 (rb, s5) = sys_num os (Bind (Udt peersock) bind_addr) s4
             in if rb = -1 then Some (Inl (Exited 1))
                else
                  let (rc, s6) = sys_num os (Connect (Udt peersock) (peer_addr cfg)) s5
                  in if rc = -1 then
                       Some (Inr (Broken args, st', send_reply os ep 92 spkt
                         (sys_do os (Say LOG_WARNING ''udt connect: %s'') s6)))
                     else
                       let s7 = sys_do os (Send (Udt peersock) spkt 0) s6;
                           s8 = sys_do os (Send (Udt peersock) [0] 0) s7
                       in bindO (wait_reply os peersock spkt s8) (\<lambda>(spkt', s9).
                            let s10 = sys_do os (Send ep spkt' 0) s9
                            in if spkt' ! 1 \<noteq> 90
                               then Some (Inr (Broken args, st',
                                      sys_do os (Say LOG_ERR ''remote peer socks error'') s10))
                               else Some (Inr (Relay args, st', s10))))))"

text \<open>The end of \<open>start_child\<close>: both sockets are closed.\<close>

definition close_both :: "'w os \<Rightarrow> cargs \<Rightarrow> 'w sys \<Rightarrow> 'w sys" where
  "close_both os args s =
     sys_do os (Close (Tcp (tcpsock args))) (sys_do os (Close (Udt (udtsock args))) s)"

section \<open>What the loops do\<close>

definition recv_call :: "endpoint \<Rightarrow> call \<Rightarrow> bool" where
  "recv_call ep c \<longleftrightarrow> (\<exists>n f. c = Recv ep n f)"

lemma recv_call_proj [simp]:
  "recv_call ep c \<Longrightarrow> sends e c = []" "recv_call ep c \<Longrightarrow> connects c = []"
  "recv_call ep c \<Longrightarrow> closes c = []" "recv_call ep c \<Longrightarrow> says c = []"
  by (auto simp: recv_call_def sends_def connects_def closes_def says_def)

text \<open>Since \<open>s\<close>, no call failed.\<close>

definition no_failure :: "'w sys \<Rightarrow> 'w sys \<Rightarrow> bool" where
  "no_failure s s' \<longleftrightarrow> (\<forall>e \<in> set (drop (length (log s)) (log s')). 0 \<le> rv (snd e))"

lemma only_calls_length: "only_calls P s s' \<Longrightarrow> length (log s) \<le> length (log s')"
  by (auto simp: only_calls_def)

lemma no_failure_call:
  assumes "sys_call os c s = (r, t)" and "only_calls P t s'" and "no_failure s s'"
  shows "0 \<le> rv r \<and> no_failure t s'"
  using assms by (auto simp: no_failure_def sys_call_log only_calls_def)

text \<open>Induction along a run of each loop that returns \<open>x\<close>.\<close>

lemma recv_pkt_induct [consumes 1, case_names finish below more]:
  assumes "recv_pkt os u p k s = Some x"
    and finish: "\<And>p k s. 8 \<le> p \<Longrightarrow> x = Inr (k, s) \<Longrightarrow> P p k s"
    and below: "\<And>p k s r t. p < 0 \<Longrightarrow> sys_call os (Recv (Udt u) (8 - p) 0) s = (r, t) \<Longrightarrow>
      resp_data r \<noteq> [] \<Longrightarrow> x = Inl (Fault Out_of_bounds) \<Longrightarrow> P p k s"
    and more: "\<And>p k s r t. p < 8 \<Longrightarrow> sys_call os (Recv (Udt u) (8 - p) 0) s = (r, t) \<Longrightarrow>
      \<not> (p < 0 \<and> resp_data r \<noteq> []) \<Longrightarrow>
      P (p + rv r) (overwrite (nat p) (resp_data r) k) t \<Longrightarrow> P p k s"
  shows "P p k s"
proof -
  have "o1 = os \<longrightarrow> v = u \<longrightarrow> y = x \<longrightarrow> P p k s" if "recv_pkt o1 v p k s = Some y" for o1 v p k s y
  proof (rule recv_pkt.raw_induct [where
      P = "\<lambda>o1 v p k s y. o1 = os \<longrightarrow> v = u \<longrightarrow> y = x \<longrightarrow> P p k s", OF _ that], intro impI)
    fix f o1 v p k s y
    assume IH: "\<And>o1 v p k s y. f o1 v p k s = Some y \<Longrightarrow> o1 = os \<longrightarrow> v = u \<longrightarrow> y = x \<longrightarrow> P p k s"
      and eq: "(if p < 8 then
          (case sys_call o1 (Recv (Udt v) (8 - p) 0) s of (r, s') \<Rightarrow>
             if p < 0 \<and> resp_data r \<noteq> [] then Some (Inl (Fault Out_of_bounds))
             else f o1 v (p + rv r) (overwrite (nat p) (resp_data r) k) s')
        else Some (Inr (k, s))) = Some y"
      and same: "o1 = os" "v = u" "y = x"
    obtain r t where r: "sys_call os (Recv (Udt u) (8 - p) 0) s = (r, t)" by fastforce
    show "P p k s"
    proof (cases "p < 8")
      case True
      with eq same r IH below [OF _ r] more [OF True r] show ?thesis by (auto split: if_splits)
    qed (use eq same finish in auto)
  qed
  with assms(1) show ?thesis by blast
qed

lemma skip_userid_induct [consumes 1, case_names finish more]:
  assumes "skip_userid os ep c s = Some x"
    and finish: "\<And>c s r t. sys_call os (Recv ep 1 0) s = (r, t) \<Longrightarrow>
      (case resp_data r of [] \<Rightarrow> c | b # bs \<Rightarrow> b) = 0 \<Longrightarrow> x = Inr t \<Longrightarrow> P c s"
    and more: "\<And>c s r t c'. sys_call os (Recv ep 1 0) s = (r, t) \<Longrightarrow>
      c' = (case resp_data r of [] \<Rightarrow> c | b # bs \<Rightarrow> b) \<Longrightarrow> c' \<noteq> 0 \<Longrightarrow> P c' t \<Longrightarrow> P c s"
  shows "P c s"
proof -
  have "o1 = os \<longrightarrow> e = ep \<longrightarrow> y = x \<longrightarrow> P c s" if "skip_userid o1 e c s = Some y" for o1 e c s y
  proof (rule skip_userid.raw_induct [where
      P = "\<lambda>o1 e c s y. o1 = os \<longrightarrow> e = ep \<longrightarrow> y = x \<longrightarrow> P c s", OF _ that], intro impI)
    fix f o1 e c s y
    assume IH: "\<And>o1 e c s y. f o1 e c s = Some y \<Longrightarrow> o1 = os \<longrightarrow> e = ep \<longrightarrow> y = x \<longrightarrow> P c s"
      and eq: "(case sys_call o1 (Recv e 1 0) s of (r, s') \<Rightarrow>
        let c' = (case resp_data r of [] \<Rightarrow> c | b # bs \<Rightarrow> b)
        in if c' \<noteq> 0 then f o1 e c' s' else Some (Inr s')) = Some y"
      and same: "o1 = os" "e = ep" "y = x"
    obtain r t where r: "sys_call os (Recv ep 1 0) s = (r, t)" by fastforce
    define c' where "c' = (case resp_data r of [] \<Rightarrow> c | b # bs \<Rightarrow> b)"
    from eq [unfolded same] have "(if c' \<noteq> 0 then f os ep c' t else Some (Inr t)) = Some x"
      by (simp only: r prod.case Let_def c'_def)
    with finish [OF r, of c] more [OF r c'_def] IH [of os ep c' t x] show "P c s"
      by (auto simp: c'_def [symmetric] split: if_splits)
  qed
  with assms(1) show ?thesis by blast
qed

lemma wait_reply_induct [consumes 1, case_names again finish]:
  assumes "wait_reply os u k s = Some x"
    and again: "\<And>k s r t. sys_call os (Recv (Udt u) 8 0) s = (r, t) \<Longrightarrow> rv r = 0 \<Longrightarrow>
      P (overwrite 0 (resp_data r) k) t \<Longrightarrow> P k s"
    and finish: "\<And>k s r t. sys_call os (Recv (Udt u) 8 0) s = (r, t) \<Longrightarrow> rv r \<noteq> 0 \<Longrightarrow>
      x = Inr (overwrite 0 (resp_data r) k, t) \<Longrightarrow> P k s"
  shows "P k s"
proof -
  have "o1 = os \<longrightarrow> v = u \<longrightarrow> y = x \<longrightarrow> P k s" if "wait_reply o1 v k s = Some y" for o1 v k s y
  proof (rule wait_reply.raw_induct [where
      P = "\<lambda>o1 v k s y. o1 = os \<longrightarrow> v = u \<longrightarrow> y = x \<longrightarrow> P k s", OF _ that], intro impI)
    fix f o1 v k s y
    assume IH: "\<And>o1 v k s y. f o1 v k s = Some y \<Longrightarrow> o1 = os \<longrightarrow> v = u \<longrightarrow> y = x \<longrightarrow> P k s"
      and eq: "(case sys_call o1 (Recv (Udt v) 8 0) s of (r, s') \<Rightarrow>
          let spkt' = overwrite 0 (resp_data r) k
          in if rv r = 0 then f o1 v spkt' s' else Some (Inr (spkt', s'))) = Some y"
      and same: "o1 = os" "v = u" "y = x"
    obtain r t where r: "sys_call os (Recv (Udt u) 8 0) s = (r, t)" by fastforce
    with eq same IH again [OF r] finish [OF r] show "P k s" by (auto simp: Let_def split: if_splits)
  qed
  with assms(1) show ?thesis by blast
qed

text \<open>What a run of the loop from offset \<open>p\<close> with the contents \<open>k\<close> leaves in \<open>k'\<close>; and one more
  call in front of such a run.\<close>

definition pkt_read :: "int \<Rightarrow> int \<Rightarrow> byte list \<Rightarrow> 'w sys \<Rightarrow> byte list \<Rightarrow> 'w sys \<Rightarrow> bool" where
  "pkt_read u p k s k' s' \<longleftrightarrow>
     0 \<le> p \<and> length k' = 8 \<and> only_calls (recv_call (Udt u)) s s' \<and>
     (no_failure s s' \<longrightarrow> take (nat p) k' = take (nat p) k \<and>
       received (Udt u) s' = received (Udt u) s @ drop (nat p) k')"

lemma chunk_in_front:
  assumes "take (length d + n) k' = take n k @ d" and "n \<le> length k"
  shows "take n k' = take n k \<and> drop n k' = d @ drop (length d + n) k'"
proof -
  have "k' = take n k @ d @ drop (length d + n) k'"
    using append_take_drop_id [of "length d + n" k'] assms(1) by simp
  moreover have "length (take n k) = n" using assms(2) by simp
  ultimately show ?thesis by (metis append_eq_conv_conj)
qed

lemma pkt_read_step:
  assumes c: "sys_call os (Recv (Udt u) (8 - p) 0) s = (r, s1)" and p: "p < 8" and k: "length k = 8"
    and nf: "\<not> (p < 0 \<and> resp_data r \<noteq> [])"
    and rest: "pkt_read u (p + rv r) (overwrite (nat p) (resp_data r) k) s1 k' s'"
  shows "pkt_read u p k s k' s'"
proof -
  define d where "d = resp_data r"
  have r: "rv r = -1 \<and> d = [] \<or> rv r = int (length d) \<and> rv r \<le> 8 - p"
      "received (Udt u) s1 = received (Udt u) s @ d"
    using sys_call_recv [OF c, of "Udt u"] by (auto simp: d_def)
  from rest have p0: "0 \<le> p" using r(1) nf by (auto simp: pkt_read_def d_def)
  have oc: "only_calls (recv_call (Udt u)) s1 s'" using rest by (simp add: pkt_read_def)
  have "take (nat p) k' = take (nat p) k \<and>
      received (Udt u) s' = received (Udt u) s @ drop (nat p) k'" if "no_failure s s'"
  proof -
    from no_failure_call [OF c oc that] have ok: "0 \<le> rv r" "no_failure s1 s'" by auto
    with r(1) p0 have n: "nat (p + rv r) = length d + nat p" "nat p + length d \<le> 8" by auto
    with rest ok k have t: "take (length d + nat p) k' = take (nat p) k @ d"
        "received (Udt u) s' = received (Udt u) s @ d @ drop (length d + nat p) k'"
      by (auto simp: pkt_read_def d_def [symmetric] take_overwrite [of "nat p" d k] r(2) add.commute)
    with chunk_in_front [OF t(1)] n(2) k show ?thesis by simp
  qed
  moreover have "only_calls (recv_call (Udt u)) s s'"
    using only_calls_sys_call [OF c, of "recv_call (Udt u)"] oc
    by (auto simp: recv_call_def intro: only_calls_trans)
  ultimately show ?thesis using p0 rest by (simp add: pkt_read_def)
qed

lemma recv_call_extends: "sys_call os (Recv ep n f) s = (r, t) \<Longrightarrow> only_calls (recv_call ep) s t"
  by (erule only_calls_sys_call) (simp add: recv_call_def)

lemma recv_pkt_result:
  assumes "recv_pkt os u p spkt s = Some (Inr (spkt', s'))" and "p \<le> 8" and "length spkt = 8"
  shows "pkt_read u p spkt s spkt' s'"
  using assms
proof (induction rule: recv_pkt_induct)
  case (more p k s r t)
  have "p + rv r \<le> 8" "length (overwrite (nat p) (resp_data r) k) = 8"
    using sys_call_recv [OF more(2), of "Udt u"] more.hyps(3) more.prems by (cases "p < 0"; auto)+
  with more.IH have "pkt_read u (p + rv r) (overwrite (nat p) (resp_data r) k) t spkt' s'" by blast
  then show ?case by (rule pkt_read_step [OF more(2,1) more.prems(2) more.hyps(3)])
qed (simp_all add: pkt_read_def)

lemma skip_userid_result:
  assumes "skip_userid os ep c s = Some x"
  shows "\<exists>s' bs. x = Inr s' \<and> only_calls (recv_call ep) s s' \<and> received ep s' = received ep s @ bs \<and>
    (c = 0 \<and> bs = [] \<or> (\<exists>us. bs = us @ [0] \<and> 0 \<notin> set us))"
  using assms
proof (induction rule: skip_userid_induct)
  case (finish c s r t)
  then have "received ep t = received ep s @ resp_data r"
      "resp_data r = [] \<and> c = 0 \<or> resp_data r = [0]"
    using sys_call_recv [OF finish(1), of ep] by (auto split: list.splits)
  with finish(3) recv_call_extends [OF finish(1)] show ?case by fastforce
next
  case (more c s r t c')
  then have d: "received ep t = received ep s @ resp_data r" "0 \<notin> set (resp_data r)"
    using sys_call_recv [OF more(1), of ep] by (auto split: list.splits)
  from more.IH more(3) obtain s' us where
    "x = Inr s'" "only_calls (recv_call ep) t s'"
    "received ep s' = received ep t @ us @ [0]" "0 \<notin> set us" by auto
  with d recv_call_extends [OF more(1)] show ?case
    by (intro exI [of _ s'] exI [of _ "resp_data r @ us @ [0]"]) (auto intro: only_calls_trans)
qed

lemma wait_reply_result:
  assumes "wait_reply os u spkt s = Some x" and "length spkt = 8"
  shows "\<exists>spkt' s'. x = Inr (spkt', s') \<and> length spkt' = 8 \<and> only_calls (recv_call (Udt u)) s s'"
  using assms
proof (induction rule: wait_reply_induct)
  case (again k s r t)
  have "length (overwrite 0 (resp_data r) k) = 8"
    using again(4) sys_call_recv [OF again(1), of "Udt u"] by auto
  with again.IH recv_call_extends [OF again(1)] show ?case by (auto intro: only_calls_trans)
next
  case (finish k s r t)
  with sys_call_recv [OF finish(1), of "Udt u"] recv_call_extends [OF finish(1)] show ?case by auto
qed

section \<open>The handshakes, case by case\<close>

text \<open>Since \<open>s\<close>, no receiving call on the endpoint failed.\<close>

definition recvs_ok :: "endpoint \<Rightarrow> 'w sys \<Rightarrow> 'w sys \<Rightarrow> bool" where
  "recvs_ok ep s s' \<longleftrightarrow>
     (\<forall>e \<in> set (drop (length (log s)) (log s')). recv_call ep (fst e) \<longrightarrow> 0 \<le> rv (snd e))"

abbreviation extends :: "'w sys \<Rightarrow> 'w sys \<Rightarrow> bool" where
  "extends \<equiv> only_calls (\<lambda>c. True)"

lemma recvs_ok_no_failure:
  assumes "recvs_ok ep s s'" and "only_calls (recv_call ep) t t'"
    and "extends s t" and "extends t' s'"
  shows "no_failure t t'"
proof -
  from assms(2-4) obtain a b c where l: "log t = log s @ a" "log t' = log t @ b"
      "log s' = log t' @ c" "\<forall>e \<in> set b. recv_call ep (fst e)"
    by (auto simp: only_calls_def)
  with assms(1) show ?thesis by (auto simp: recvs_ok_def no_failure_def)
qed

text \<open>Since \<open>s\<close>, every receive of a single byte, as the loop over the user name makes them,
  delivered one; so its uninitialised variable did not matter.\<close>

definition bytes_read :: "endpoint \<Rightarrow> 'w sys \<Rightarrow> 'w sys \<Rightarrow> bool" where
  "bytes_read ep s s' \<longleftrightarrow>
     (\<forall>r. (Recv ep 1 0, r) \<in> set (drop (length (log s)) (log s')) \<longrightarrow> resp_data r \<noteq> [])"

lemma bytes_read_between:
  assumes "bytes_read ep s s'" and "extends s t" and "extends t t'" and "extends t' s'"
  shows "bytes_read ep t t'"
proof -
  from assms(2-4) obtain a b c where "log t = log s @ a" "log t' = log t @ b" "log s' = log t' @ c"
    by (auto simp: only_calls_def)
  with assms(1) show ?thesis by (auto simp: bytes_read_def)
qed

lemma extends_only: "only_calls P s t \<Longrightarrow> extends s t"
  by (erule only_calls_weaken) simp

lemma skip_userid_read:
  assumes "skip_userid os ep c s = Some (Inr s')" and "c \<noteq> 0 \<or> bytes_read ep s s'"
  shows "\<exists>nm. received ep s' = received ep s @ nm @ [0] \<and> 0 \<notin> set nm"
proof (cases "c = 0")
  case False
  with skip_userid_result [OF assms(1)] show ?thesis by auto
next
  case True
  obtain r t where r: "sys_call os (Recv ep 1 0) s = (r, t)" by fastforce
  with assms(1) have "s' = t \<or> (\<exists>c'. skip_userid os ep c' t = Some (Inr s'))"
    by (auto simp: skip_userid.simps [of os ep c s] Let_def split: if_splits)
  then have "extends t s'" by (auto dest!: skip_userid_result intro: only_calls_refl extends_only)
  with True assms(2) have "resp_data r \<noteq> []"
    by (auto simp: bytes_read_def only_calls_def sys_call_log [OF r])
  with r have "skip_userid os ep 1 s = skip_userid os ep c s"
    by (cases "resp_data r") (simp_all add: skip_userid.simps [of os ep _ s])
  with skip_userid_result [of os ep 1 s] assms(1) show ?thesis by auto
qed

lemma check_access_result:
  assumes "check_access os na addr s = Inr (ok, s')"
  shows "only_calls (\<lambda>c. c = Getifaddrs) s s' \<and>
    (na < 2 \<longrightarrow> (\<exists>r. (Getifaddrs, r) \<in> set (log s') \<and>
      access_allowed na addr (interfaces_of r) = Inr ok)) \<and> (2 \<le> na \<longrightarrow> ok)"
  using assms
  by (auto simp: check_access_def bindR_eq_Inr sys_call_log Let_def split: if_splits prod.splits
      intro: only_calls_sys_call)

lemma set_reply:
  "length spkt = 8 \<Longrightarrow> spkt[1 := code] = pkt_bytes ((pkt_of spkt)\<lparr>cd := code\<rparr>)"
proof -
  assume "length spkt = 8"
  then obtain a b c d e f g h where "spkt = [a, b, c, d, e, f, g, h]"
    by (auto simp: numeral_eq_Suc length_Suc_conv)
  then show ?thesis by (simp add: pkt_bytes_def pkt_of_def)
qed

text \<open>The ways in which the server side can end, once its request was read as \<open>spkt\<close>.\<close>

lemma server_cases:
  assumes run: "server_handshake os cfg u junk jc s = Some (Inr (e, s'))"
  obtains s1 s2 spkt peer m where "sys_num os (Socket Tcp_kind) s = (peer, s1)"
      and "recv_pkt os u 0 junk s1 = Some (Inr (spkt, s2))"
      and "e = Returned" and "spkt ! 0 \<noteq> 4 \<or> spkt ! 1 \<noteq> 1"
      and "s' = send_reply os (Udt u) 91 spkt (sys_do os (Say LOG_WARNING m) s2)"
  | s1 s2 s3 s4 spkt peer where "sys_num os (Socket Tcp_kind) s = (peer, s1)"
      and "recv_pkt os u 0 junk s1 = Some (Inr (spkt, s2))"
      and "spkt ! 0 = 4" and "spkt ! 1 = 1"
      and "skip_userid os (Udt u) jc s2 = Some (Inr s3)"
      and "check_access os (net_access cfg) (dest_addr (pkt_of spkt)) s3 = Inr (False, s4)"
      and "e = Broken \<lparr>udtsock = u, tcpsock = peer, shutdown = 0\<rparr>"
      and "s' = sys_do os (Say LOG_WARNING ''rejected incoming connection to: %s'')
             (send_reply os (Udt u) 92 spkt s4)"
  | s1 s2 s3 s4 s5 spkt peer rc where "sys_num os (Socket Tcp_kind) s = (peer, s1)"
      and "recv_pkt os u 0 junk s1 = Some (Inr (spkt, s2))"
      and "spkt ! 0 = 4" and "spkt ! 1 = 1"
      and "skip_userid os (Udt u) jc s2 = Some (Inr s3)"
      and "check_access os (net_access cfg) (dest_addr (pkt_of spkt)) s3 = Inr (True, s4)"
      and "sys_num os (Connect (Tcp peer) (dest_addr (pkt_of spkt))) s4 = (rc, s5)"
      and "rc = -1 \<and> e = Broken \<lparr>udtsock = u, tcpsock = peer, shutdown = 0\<rparr> \<and>
          s' = sys_do os (Say LOG_WARNING ''canot connect'') (send_reply os (Udt u) 92 spkt s5) \<or>
        rc \<noteq> -1 \<and> e = Relay \<lparr>udtsock = u, tcpsock = peer, shutdown = 0\<rparr> \<and>
          s' = send_reply os (Udt u) 90 spkt s5"
proof -
  obtain peer s1 where 1: "sys_num os (Socket Tcp_kind) s = (peer, s1)" by fastforce
  with run obtain spkt s2 where 2: "recv_pkt os u 0 junk s1 = Some (Inr (spkt, s2))"
    by (auto simp: server_handshake_def bindO_eq_Inr Let_def)
  note run = run [unfolded server_handshake_def Let_def 1 prod.case 2 bindO_simps]
  show ?thesis
  proof (cases "spkt ! 0 = 4 \<and> spkt ! 1 = 1")
    case False
    with run show ?thesis by (auto split: if_splits intro: that(1) [OF 1 2])
  next
    case True
    with run obtain s3 ok s4 where 3: "skip_userid os (Udt u) jc s2 = Some (Inr s3)"
        "check_access os (net_access cfg) (dest_addr (pkt_of spkt)) s3 = Inr (ok, s4)"
      by (auto simp: bindO_eq_Inr)
    obtain rc s5 where 4: "sys_num os (Connect (Tcp peer) (dest_addr (pkt_of spkt))) s4 = (rc, s5)"
      by fastforce
    show ?thesis
    proof (cases ok)
      case False
      with run True 3 show ?thesis by (auto intro: that(2) [OF 1 2])
    next
      case ok: True
      with run True 3 4 show ?thesis by (auto split: if_splits intro: that(3) [OF 1 2])
    qed
  qed
qed

text \<open>What an end of the handshake answers.\<close>

fun reply_code :: "child_end \<Rightarrow> byte" where
  "reply_code (Relay args) = 90"
| "reply_code (Broken args) = 92"
| "reply_code Returned = 91"

lemma proj_simps [simp]:
  "sends ep (Say p m) = []" "sends ep (Socket k) = []" "sends ep (Connect ep' a) = []"
  "sends ep Getifaddrs = []" "sends ep (Bind ep' a) = []"
  "sends ep (Send ep' bs f) = (if ep' = ep then [bs] else [])" "sends ep (Recv ep' n f) = []"
  "connects (Say p m) = []" "connects (Socket k) = []" "connects (Connect ep' a) = [(ep', a)]"
  "connects Getifaddrs = []" "connects (Bind ep' a) = []" "connects (Send ep' bs f) = []"
  "connects (Recv ep' n f) = []"
  by (simp_all add: sends_def connects_def)

lemma stream_simps [simp]:
  "received ep (sys_do os (Say p m) s) = received ep s"
  "received ep (send_reply os ep' code spkt s) = received ep s"
  unfolding send_reply_def sys_do_def
  by (simp_all add: received_call [of os _ s, OF surjective_pairing] in_bytes_def)

lemma received_only:
  "only_calls P s s' \<Longrightarrow> (\<And>c r. P c \<Longrightarrow> in_bytes ep (c, r) = []) \<Longrightarrow> received ep s' = received ep s"
  by (force simp: only_calls_def received_def)

lemma received_num:
  "sys_num os c s = (n, s') \<Longrightarrow> (\<And>r. in_bytes ep (c, r) = []) \<Longrightarrow> received ep s' = received ep s"
  by (auto simp: sys_num_def received_call split: prod.splits)

lemma server_request_read:
  assumes "sys_num os (Socket Tcp_kind) s = (peer, s1)"
    and "recv_pkt os u 0 junk s1 = Some (Inr (spkt, s2))" and "length junk = 8"
  shows "length spkt = 8 \<and> extends s s1 \<and> only_calls (recv_call (Udt u)) s1 s2 \<and>
    calls_of (sends ep) s2 = calls_of (sends ep) s \<and> calls_of connects s2 = calls_of connects s \<and>
    (no_failure s1 s2 \<longrightarrow> received (Udt u) s2 = received (Udt u) s @ spkt)"
proof -
  from recv_pkt_result [OF assms(2) _ assms(3)] have r: "length spkt = 8"
      "only_calls (recv_call (Udt u)) s1 s2"
      "no_failure s1 s2 \<longrightarrow> received (Udt u) s2 = received (Udt u) s1 @ spkt"
    by (auto simp: pkt_read_def)
  from r(2) have "calls_of (sends ep) s2 = calls_of (sends ep) s1"
      "calls_of connects s2 = calls_of connects s1"
    by (rule calls_of_only, simp)+
  with r show ?thesis
    using calls_of_num [OF assms(1), of "sends ep"] calls_of_num [OF assms(1), of connects]
      received_num [OF assms(1), of "Udt u"]
      only_calls_sys_num [OF assms(1), of "\<lambda>c. True"]
    by (auto simp: in_bytes_def)
qed

lemma server_access_checked:
  assumes "skip_userid os (Udt u) jc s2 = Some (Inr s3)"
    and "check_access os na addr s3 = Inr (ok, s4)"
  shows "extends s2 s4 \<and> calls_of (sends ep) s4 = calls_of (sends ep) s2 \<and>
    calls_of connects s4 = calls_of connects s2 \<and>
    (\<exists>us. received (Udt u) s4 = received (Udt u) s2 @ us \<and>
      (jc = 0 \<and> \<not> bytes_read (Udt u) s2 s4 \<and> us = [] \<or> (\<exists>nm. us = nm @ [0] \<and> 0 \<notin> set nm)))"
proof -
  from skip_userid_result [OF assms(1)] skip_userid_read [OF assms(1)] obtain us where
    s: "only_calls (recv_call (Udt u)) s2 s3" "received (Udt u) s3 = received (Udt u) s2 @ us"
      "jc = 0 \<and> \<not> bytes_read (Udt u) s2 s3 \<and> us = [] \<or> (\<exists>nm. us = nm @ [0] \<and> 0 \<notin> set nm)" by auto
  from check_access_result [OF assms(2)] have c: "only_calls (\<lambda>c. c = Getifaddrs) s3 s4" by simp
  have "extends s2 s4"
    using s(1) c by (blast intro: only_calls_trans only_calls_weaken)
  moreover have "calls_of (sends ep) s4 = calls_of (sends ep) s2"
      "calls_of connects s4 = calls_of connects s2"
    using calls_of_only [OF s(1), of "sends ep"] calls_of_only [OF c, of "sends ep"]
      calls_of_only [OF s(1), of connects] calls_of_only [OF c, of connects] by auto
  moreover have "received (Udt u) s4 = received (Udt u) s3"
    by (rule received_only [OF c]) (simp add: in_bytes_def)
  moreover have "bytes_read (Udt u) s2 s4 \<Longrightarrow> bytes_read (Udt u) s2 s3"
    using s(1) c by (blast intro: bytes_read_between only_calls_refl extends_only)
  ultimately show ?thesis using s by auto
qed

lemma server_request_received:
  assumes "sys_num os (Socket Tcp_kind) s = (peer, s1)"
    and "recv_pkt os u 0 junk s1 = Some (Inr (spkt, s2))" and "length junk = 8"
    and "recvs_ok (Udt u) s s'" and "extends s2 s'"
  shows "received (Udt u) s2 = received (Udt u) s @ spkt"
  using server_request_read [OF assms(1-3)] recvs_ok_no_failure [OF assms(4) _ _ assms(5)]
  by blast

lemma server_request_accepted:
  assumes "sys_num os (Socket Tcp_kind) s = (peer, s1)"
    and "recv_pkt os u 0 junk s1 = Some (Inr (spkt, s2))" and "length junk = 8"
    and "recvs_ok (Udt u) s s'"
    and "skip_userid os (Udt u) jc s2 = Some (Inr s3)"
    and "check_access os na addr s3 = Inr (ok, s4)" and "extends s4 s'"
  shows "length spkt = 8 \<and> calls_of (sends ep) s4 = calls_of (sends ep) s \<and>
    (\<exists>us. received (Udt u) s4 = received (Udt u) s @ spkt @ us \<and>
      (jc = 0 \<and> \<not> bytes_read (Udt u) s s' \<and> us = [] \<or> (\<exists>nm. us = nm @ [0] \<and> 0 \<notin> set nm)))"
proof -
  note r = server_request_read [OF assms(1-3), of ep]
  note a = server_access_checked [OF assms(5,6), of ep]
  from a assms(7) have x: "extends s2 s'" by (blast intro: only_calls_trans)
  have "extends s s2" using r by (blast intro: only_calls_trans extends_only)
  with a assms(7) have "bytes_read (Udt u) s s' \<Longrightarrow> bytes_read (Udt u) s2 s4"
    by (blast intro: bytes_read_between)
  with server_request_received [OF assms(1-4) x] r a show ?thesis by auto
qed

lemma calls_of_reply [simp]:
  "calls_of f (send_reply os ep code spkt s) = calls_of f s @ f (Send ep (spkt[1 := code]) 0)"
  by (simp add: send_reply_def)

lemma extends_reply: "extends s t \<Longrightarrow> extends s (send_reply os ep code spkt t)"
  unfolding send_reply_def by (erule only_calls_then_do) simp

lemmas extends_intros = extends_reply only_calls_then_do [of "\<lambda>c. True"] only_calls_refl
  only_calls_sys_do [of "\<lambda>c. True"]


section \<open>Properties of the server side\<close>

text \<open>C7: Whenever the server handshake ends, it has sent exactly one message to the peer
  relay: the eight bytes of the request as it was read, with the code replaced by 90 when the
  relay threads are started, 92 when access is denied or the destination cannot be reached,
  and 91 when, and only when, the version or the command is wrong. If moreover no receive on
  the connection failed, the request is what was received first; after a request that was
  refused with 91 nothing more was received, and otherwise exactly a zero-terminated user
  name, unless the first receive of a byte of it delivered nothing while the uninitialised
  variable for the byte happened to be zero.\<close>

theorem server_answers_request:
  assumes "server_handshake os cfg u junk jc s = Some (Inr (e, s'))" and "length junk = 8"
  shows "\<exists>pkt. wf_pkt pkt \<and>
    calls_of (sends (Udt u)) s' =
      calls_of (sends (Udt u)) s @ [pkt_bytes (pkt\<lparr>cd := reply_code e\<rparr>)] \<and>
    (e = Returned \<longleftrightarrow> vn pkt \<noteq> 4 \<or> cd pkt \<noteq> 1) \<and>
    (recvs_ok (Udt u) s s' \<longrightarrow>
      (\<exists>us. received (Udt u) s' = received (Udt u) s @ pkt_bytes pkt @ us \<and>
        (if e = Returned then us = []
         else jc = 0 \<and> \<not> bytes_read (Udt u) s s' \<and> us = [] \<or> (\<exists>nm. us = nm @ [0] \<and> 0 \<notin> set nm))))"
  using assms(1)
proof (cases rule: server_cases)
  case (1 s1 s2 spkt peer m)
  have "extends s2 s'" by (simp add: 1(5) extends_intros)
  with server_request_read [OF 1(1,2) assms(2), of "Udt u"]
    server_request_received [OF 1(1,2) assms(2) _ this] 1 show ?thesis
    by (intro exI [of _ "pkt_of spkt"]) (auto simp: wf_pkt_of bytes_pkt_of set_reply [simplified])
next
  case (2 s1 s2 s3 s4 spkt peer)
  note r = server_request_read [OF 2(1,2) assms(2), of "Udt u"]
  note a = server_access_checked [OF 2(5,6), of "Udt u"]
  have "extends s4 s'" by (simp add: 2(8) extends_intros)
  with server_request_accepted [OF 2(1,2) assms(2) _ 2(5,6) this, of "Udt u"] r a 2 show ?thesis
    by (intro exI [of _ "pkt_of spkt"]) (simp add: wf_pkt_of bytes_pkt_of set_reply [simplified])
next
  case (3 s1 s2 s3 s4 s5 spkt peer rc)
  note r = server_request_read [OF 3(1,2) assms(2), of "Udt u"]
  note a = server_access_checked [OF 3(5,6), of "Udt u"]
  have "extends s4 s'"
    using only_calls_sys_num [OF 3(7), of "\<lambda>c. True"] 3(8) by (auto intro: extends_intros)
  note acc = server_request_accepted [OF 3(1,2) assms(2) _ 3(5,6) this, of "Udt u"]
  have "received (Udt u) s5 = received (Udt u) s4"
    using 3(7) by (rule received_num) (simp add: in_bytes_def)
  with acc r a 3(3,4,8) calls_of_num [OF 3(7), of "sends (Udt u)"] show ?thesis
    by (intro exI [of _ "pkt_of spkt"])
      (elim disjE conjE; simp add: wf_pkt_of bytes_pkt_of set_reply [simplified])
qed

lemmas run_simps = recv_pkt.simps skip_userid.simps wait_reply.simps sys_num_def sys_do_def
  sys_call_def answer_def script_def start_def of_udt_def overwrite_def send_reply_def

definition sample_config :: config where
  "sample_config = \<lparr>net_access = 2, is_rendezvous = False, udt_opts = Map.empty, opt_order = [],
     peer_addr = inaddr_any, rzv_local = inaddr_any\<rparr>"

definition sample_script :: "resp list" where
  "sample_script = [Ret 9, Data [4, 1, 0], Data [80, 10, 0, 0, 1], Data [98], Data [0], Ret 0, Ret 8]"

lemma server_sample:
  "\<exists>s'. server_handshake script sample_config 5 (replicate 8 0) 0 (start sample_script) =
      Some (Inr (Relay \<lparr>udtsock = 5, tcpsock = 9, shutdown = 0\<rparr>, s')) \<and>
    recvs_ok (Udt 5) (start sample_script) s' \<and> bytes_read (Udt 5) (start sample_script) s' \<and>
    connects (fst (log s' ! 5)) = [(Tcp 9, dest_addr (pkt_of [4, 1, 0, 80, 10, 0, 0, 1]))]"
  by (simp add: server_handshake_def run_simps sample_config_def sample_script_def
      check_access_def recvs_ok_def bytes_read_def recv_call_def Let_def)

theorem server_answers_request_witness:
  "\<exists>s' pkt us. wf_pkt pkt \<and>
    server_handshake script sample_config 5 (replicate 8 0) 0 (start sample_script) =
      Some (Inr (Relay \<lparr>udtsock = 5, tcpsock = 9, shutdown = 0\<rparr>, s')) \<and>
    calls_of (sends (Udt 5)) s' = [pkt_bytes (pkt\<lparr>cd := 90\<rparr>)] \<and>
    received (Udt 5) s' = pkt_bytes pkt @ us @ [0] \<and> 0 \<notin> set us"
proof -
  obtain s' where r: "server_handshake script sample_config 5 (replicate 8 0) 0 (start sample_script) =
      Some (Inr (Relay \<lparr>udtsock = 5, tcpsock = 9, shutdown = 0\<rparr>, s'))"
    and o: "recvs_ok (Udt 5) (start sample_script) s'" "bytes_read (Udt 5) (start sample_script) s'"
    using server_sample by blast
  from server_answers_request [OF r] o r show ?thesis
    by (auto simp: calls_of_def received_def start_def)
qed

text \<open>Where the server side connects to, and when.\<close>

lemma server_connects:
  assumes "server_handshake os cfg u junk jc s = Some (Inr (e, s'))" and "length junk = 8"
  shows "(calls_of connects s' = calls_of connects s \<and> (\<forall>args. e \<noteq> Relay args)) \<or>
    (\<exists>peer pkt. calls_of connects s' = calls_of connects s @ [(Tcp peer, dest_addr pkt)] \<and>
      wf_pkt pkt \<and> vn pkt = 4 \<and> cd pkt = 1 \<and>
      (net_access cfg < 2 \<longrightarrow> (\<exists>r. (Getifaddrs, r) \<in> set (log s') \<and>
        access_allowed (net_access cfg) (dest_addr pkt) (interfaces_of r) = Inr True)) \<and>
      (\<forall>args. e = Relay args \<longrightarrow> tcpsock args = peer \<and>
        (\<exists>r. (Connect (Tcp peer) (dest_addr pkt), r) \<in> set (log s') \<and> rv r \<noteq> -1)))"
  using assms(1)
proof (cases rule: server_cases)
  case (1 s1 s2 spkt peer m)
  then show ?thesis using server_request_read [OF 1(1,2) assms(2)] by simp
next
  case (2 s1 s2 s3 s4 spkt peer)
  then show ?thesis
    using server_request_read [OF 2(1,2) assms(2)] server_access_checked [OF 2(5,6)] by simp
next
  case (3 s1 s2 s3 s4 s5 spkt peer rc)
  from server_request_read [OF 3(1,2) assms(2)] server_access_checked [OF 3(5,6)]
  have "calls_of connects s4 = calls_of connects s" "wf_pkt (pkt_of spkt)"
    by (auto intro: wf_pkt_of)
  moreover from 3(7) obtain r where r: "log s5 = log s4 @ [(Connect (Tcp peer) (dest_addr (pkt_of spkt)), r)]"
      "rc = rv r" by (auto simp: sys_num_def sys_call_log split: prod.splits)
  moreover have "extends s5 s'" using 3(8) by (auto intro: extends_intros)
  then obtain l where "log s' = log s5 @ l" by (auto simp: only_calls_def)
  moreover have "calls_of connects s' = calls_of connects s5" using 3(8) by auto
  moreover have "tcpsock args = peer \<and> rc \<noteq> -1" if "e = Relay args" for args
    using 3(8) that by auto
  moreover have "(Getifaddrs, r) \<in> set (log s4) \<Longrightarrow> (Getifaddrs, r) \<in> set (log s')" for r
    using calculation by auto
  ultimately show ?thesis
    using 3(3,4) calls_of_num [OF 3(7), of connects] check_access_result [OF 3(6)]
    by (intro disjI2 exI [of _ peer] exI [of _ "pkt_of spkt"]) (simp, blast)
qed

text \<open>The server side connects at most once, to the address and port of the request,
  and only if the access check said so on the interfaces that \<open>getifaddrs\<close> reported (or
  access is unlimited). The relay threads are started only on a socket for which this
  connect was made and did not fail.\<close>

theorem server_connects_where_allowed:
  assumes "server_handshake os cfg u junk jc s = Some (Inr (e, s'))" and "length junk = 8"
  shows "(calls_of connects s' = calls_of connects s \<and> (\<forall>args. e \<noteq> Relay args)) \<or>
    (\<exists>peer pkt. calls_of connects s' = calls_of connects s @ [(Tcp peer, dest_addr pkt)] \<and>
      wf_pkt pkt \<and> vn pkt = 4 \<and> cd pkt = 1 \<and>
      (net_access cfg < 2 \<longrightarrow> (\<exists>r. (Getifaddrs, r) \<in> set (log s') \<and>
        access_allowed (net_access cfg) (dest_addr pkt) (interfaces_of r) = Inr True)) \<and>
      (\<forall>args. e = Relay args \<longrightarrow> tcpsock args = peer \<and>
        (\<exists>r. (Connect (Tcp peer) (dest_addr pkt), r) \<in> set (log s') \<and> rv r \<noteq> -1)))"
  using assms by (rule server_connects)

theorem server_connects_where_allowed_witness:
  "\<exists>s'. server_handshake script sample_config 5 (replicate 8 0) 0 (start sample_script) =
      Some (Inr (Relay \<lparr>udtsock = 5, tcpsock = 9, shutdown = 0\<rparr>, s')) \<and>
    (\<exists>pkt. calls_of connects s' = [(Tcp 9, dest_addr pkt)])"
proof -
  obtain s' where r: "server_handshake script sample_config 5 (replicate 8 0) 0 (start sample_script) =
      Some (Inr (Relay \<lparr>udtsock = 5, tcpsock = 9, shutdown = 0\<rparr>, s'))"
    using server_sample by blast
  from server_connects_where_allowed [OF r] r show ?thesis
    by (auto simp: calls_of_def start_def)
qed

section \<open>Handshakes that do not end\<close>

text \<open>Under \<open>I\<close>, a set of states of the environment, receiving never yields a byte.\<close>

definition silent :: "('w \<Rightarrow> bool) \<Rightarrow> 'w os \<Rightarrow> endpoint \<Rightarrow> bool" where
  "silent I os ep \<longleftrightarrow>
     (\<forall>w n f. I w \<longrightarrow> resp_data (fst (os w (Recv ep n f))) = [] \<and> I (snd (os w (Recv ep n f))))"

definition failing :: "('w \<Rightarrow> bool) \<Rightarrow> 'w os \<Rightarrow> endpoint \<Rightarrow> bool" where
  "failing I os ep \<longleftrightarrow>
     (\<forall>w n f. I w \<longrightarrow> (\<exists>e. fst (os w (Recv ep n f)) = Fail e) \<and> I (snd (os w (Recv ep n f))))"

lemma sys_call_world:
  "sys_call os c s = (r, s') \<Longrightarrow>
    world s' = snd (os (world s) c) \<and> (r = fst (os (world s) c) \<or> r = Fail EIO)"
  by (auto simp: sys_call_def answer_def Let_def split: prod.splits if_splits resp.splits)

lemma silent_call:
  "silent I os ep \<Longrightarrow> sys_call os (Recv ep n f) s = (r, s') \<Longrightarrow> I (world s) \<Longrightarrow>
    resp_data r = [] \<and> I (world s')"
  by (drule sys_call_world) (auto simp: silent_def)



lemma failing_call:
  "failing I os ep \<Longrightarrow> sys_call os (Recv ep n f) s = (r, s') \<Longrightarrow> I (world s) \<Longrightarrow>
    rv r = -1 \<and> resp_data r = [] \<and> I (world s')"
  unfolding failing_def
  by (drule sys_call_world, elim allE [of _ "world s"] allE [of _ n] allE [of _ f]) auto

lemma skip_userid_diverges:
  assumes "silent I os ep" and "c \<noteq> 0" and "I (world s)"
  shows "skip_userid os ep c s = None"
proof (rule ccontr)
  assume "\<not> ?thesis"
  then obtain x where "skip_userid os ep c s = Some x" by auto
  then have "c \<noteq> 0 \<longrightarrow> \<not> I (world s)"
    by (induction rule: skip_userid_induct) (auto dest: silent_call [OF assms(1)])
  with assms(2,3) show False by simp
qed

lemma recv_pkt_diverges:
  assumes "failing I os (Udt u)" and "p < 8" and "I (world s)"
  shows "recv_pkt os u p spkt s = None"
proof (rule ccontr)
  assume "\<not> ?thesis"
  then obtain x where "recv_pkt os u p spkt s = Some x" by auto
  then have "p < 8 \<longrightarrow> \<not> I (world s)"
    by (induction rule: recv_pkt_induct) (auto dest: failing_call [OF assms(1)])
  with assms(2,3) show False by simp
qed

text \<open>The loop that skips the user name does not look at the result of \<open>recv\<close>. Once no
  more byte arrives, because the connection was closed or every call fails, it never ends
  (unless the variable happens to hold zero already), whatever the socket.\<close>

theorem userid_loop_spins:
  assumes "silent I os ep" and "c \<noteq> 0" and "I (world s)"
  shows "skip_userid os ep c s = None"
  using assms by (rule skip_userid_diverges)

theorem userid_loop_spins_witness:
  "skip_userid (\<lambda>w c. (Data [], w)) (Tcp 7) 1 (start ()) = None \<and>
    server_handshake script sample_config 5 (replicate 8 0) 1
      (start [Ret 9, Data [4, 1, 0, 80, 10, 0, 0, 1]]) = None"
proof
  show "skip_userid (\<lambda>w c. (Data [], w)) (Tcp 7) 1 (start ()) = None"
    by (rule userid_loop_spins [where I = "\<lambda>w. True"]) (simp_all add: silent_def)
  have "skip_userid script (Udt 5) 1 s = None" if "world s = []" for s
    by (rule userid_loop_spins [where I = "\<lambda>w. w = []"]) (simp_all add: silent_def script_def that)
  then show "server_handshake script sample_config 5 (replicate 8 0) 1
      (start [Ret 9, Data [4, 1, 0, 80, 10, 0, 0, 1]]) = None"
    by (simp add: server_handshake_def recv_pkt.simps sys_num_def sys_call_def answer_def
        script_def start_def of_udt_def overwrite_def Let_def)
qed

text \<open>C40: The loop that reads the request adds the result of \<open>UDT::recv\<close> to its pointer
  even when that is the error -1. On a broken connection it moves the pointer down for
  ever; and if data arrives after one failure at the start, it is stored in front of the
  request.\<close>

theorem request_loop_mishandles_errors:
  assumes "p < 8"
  shows "(failing I os (Udt u) \<and> I (world s) \<longrightarrow> recv_pkt os u p spkt s = None) \<and>
    (sys_call os (Recv (Udt u) 8 0) s = (Fail e, s1) \<and>
     sys_call os (Recv (Udt u) 9 0) s1 = (Data (b # bs), s2) \<longrightarrow>
       recv_pkt os u 0 spkt s = Some (Inl (Fault Out_of_bounds)))"
  using recv_pkt_diverges [OF _ assms]
  by (auto simp: recv_pkt.simps [of os u 0] recv_pkt.simps [of os u "-1"])

theorem request_loop_mishandles_errors_witness:
  "recv_pkt script 5 3 (replicate 8 0) (start []) = None \<and>
    recv_pkt script 5 0 (replicate 8 0) (start [Fail 2001, Data [4]]) =
      Some (Inl (Fault Out_of_bounds))"
proof
  have "failing (\<lambda>w. w = []) script (Udt 5)" by (simp add: failing_def script_def)
  with request_loop_mishandles_errors [of 3 "\<lambda>w. w = []" script 5 "start []"]
  show "recv_pkt script 5 3 (replicate 8 0) (start []) = None" by (simp add: start_def)
  obtain s1 where 1: "sys_call script (Recv (Udt 5) 8 0) (start [Fail 2001, Data [4]]) = (Fail 2001, s1)"
      "world s1 = [Data [4]]"
    by (simp add: sys_call_def answer_def script_def start_def of_udt_def)
  obtain s2 where 2: "sys_call script (Recv (Udt 5) 9 0) s1 = (Data [4], s2)"
    by (simp add: sys_call_def answer_def script_def 1(2))
  show "recv_pkt script 5 0 (replicate 8 0) (start [Fail 2001, Data [4]]) =
      Some (Inl (Fault Out_of_bounds))"
    using request_loop_mishandles_errors [of 0 "\<lambda>w. True" script 5 "start [Fail 2001, Data [4]]"
      "replicate 8 0" 2001 s1 4 "[]" s2] 1(1) 2 by simp
qed

section \<open>Properties of the client side\<close>

text \<open>The ways in which the client side can end, once the request was read as \<open>spkt\<close>.\<close>

lemma client_cases:
  assumes run: "client_handshake os cfg fd junk jc st s = Some (Inr (e, st', s'))"
  obtains s1 s2 spkt peer r m code where "sys_num os (Socket Udt_kind) s = (peer, s1)"
      and "sys_call os (Recv (Tcp fd) 8 MSG_WAITALL) s1 = (r, s2)"
      and "spkt = overwrite 0 (resp_data r) junk"
      and "spkt ! 0 \<noteq> 4 \<and> code = 91 \<or> spkt ! 0 = 4 \<and> spkt ! 1 \<noteq> 1 \<and> code = 90"
      and "e = Broken \<lparr>udtsock = peer, tcpsock = fd, shutdown = 0\<rparr>"
      and "s' = send_reply os (Tcp fd) code spkt (sys_do os (Say LOG_WARNING m) s2)"
  | s1 s2 s3 s4 s5 s6 spkt peer r rb rc baddr where "sys_num os (Socket Udt_kind) s = (peer, s1)"
      and "sys_call os (Recv (Tcp fd) 8 MSG_WAITALL) s1 = (r, s2)"
      and "spkt = overwrite 0 (resp_data r) junk" and "spkt ! 0 = 4" and "spkt ! 1 = 1"
      and "skip_userid os (Tcp fd) jc s2 = Some (Inr s3)"
      and "relay_setsockopt os peer (opt_order cfg) (udt_opts cfg) (is_rendezvous cfg) st s3 =
          Inr (st', s4)"
      and "sys_num os (Bind (Udt peer) baddr) s4 = (rb, s5)"
      and "sys_num os (Connect (Udt peer) (peer_addr cfg)) s5 = (rc, s6)"
      and "rc = -1 \<and> e = Broken \<lparr>udtsock = peer, tcpsock = fd, shutdown = 0\<rparr> \<and>
          s' = send_reply os (Tcp fd) 92 spkt (sys_do os (Say LOG_WARNING ''udt connect: %s'') s6) \<or>
        rc \<noteq> -1 \<and> (\<exists>spkt' s9. wait_reply os peer spkt
            (sys_do os (Send (Udt peer) [0] 0) (sys_do os (Send (Udt peer) spkt 0) s6)) =
            Some (Inr (spkt', s9)) \<and>
          (spkt' ! 1 = 90 \<and> e = Relay \<lparr>udtsock = peer, tcpsock = fd, shutdown = 0\<rparr> \<and>
             s' = sys_do os (Send (Tcp fd) spkt' 0) s9 \<or>
           spkt' ! 1 \<noteq> 90 \<and> e = Broken \<lparr>udtsock = peer, tcpsock = fd, shutdown = 0\<rparr> \<and>
             s' = sys_do os (Say LOG_ERR ''remote peer socks error'')
               (sys_do os (Send (Tcp fd) spkt' 0) s9)))"
proof -
  obtain peer s1 where 1: "sys_num os (Socket Udt_kind) s = (peer, s1)" by fastforce
  obtain r s2 where 2: "sys_call os (Recv (Tcp fd) 8 MSG_WAITALL) s1 = (r, s2)" by fastforce
  define spkt where "spkt = overwrite 0 (resp_data r) junk"
  note run = run [unfolded client_handshake_def Let_def 1 prod.case 2 spkt_def [symmetric]]
  show ?thesis
  proof (cases "spkt ! 0 = 4 \<and> spkt ! 1 = 1")
    case False
    with run show ?thesis by (auto split: if_splits intro: that(1) [OF 1 2 spkt_def])
  next
    case True
    with run obtain s3 where 3: "skip_userid os (Tcp fd) jc s2 = Some (Inr s3)"
      by (auto simp: bindO_eq_Inr)
    obtain st1 s4 where opts: "relay_setsockopt os peer (opt_order cfg) (udt_opts cfg)
        (is_rendezvous cfg) st s3 = Inr (st1, s4)"
      using run True 3
      by (cases "relay_setsockopt os peer (opt_order cfg) (udt_opts cfg) (is_rendezvous cfg) st s3")
        auto
    define baddr where "baddr = (if is_rendezvous cfg then rzv_local cfg else inaddr_any)"
    obtain rb s5 where 4: "sys_num os (Bind (Udt peer) baddr) s4 = (rb, s5)" by fastforce
    obtain rc s6 where 5: "sys_num os (Connect (Udt peer) (peer_addr cfg)) s5 = (rc, s6)"
      by fastforce
    have "st' = st1 \<and> (rc = -1 \<and> e = Broken \<lparr>udtsock = peer, tcpsock = fd, shutdown = 0\<rparr> \<and>
          s' = send_reply os (Tcp fd) 92 spkt (sys_do os (Say LOG_WARNING ''udt connect: %s'') s6) \<or>
        rc \<noteq> -1 \<and> (\<exists>spkt' s9. wait_reply os peer spkt
            (sys_do os (Send (Udt peer) [0] 0) (sys_do os (Send (Udt peer) spkt 0) s6)) =
            Some (Inr (spkt', s9)) \<and>
          (spkt' ! 1 = 90 \<and> e = Relay \<lparr>udtsock = peer, tcpsock = fd, shutdown = 0\<rparr> \<and>
             s' = sys_do os (Send (Tcp fd) spkt' 0) s9 \<or>
           spkt' ! 1 \<noteq> 90 \<and> e = Broken \<lparr>udtsock = peer, tcpsock = fd, shutdown = 0\<rparr> \<and>
             s' = sys_do os (Say LOG_ERR ''remote peer socks error'')
               (sys_do os (Send (Tcp fd) spkt' 0) s9))))"
      using run True
      by (auto simp: 3 opts baddr_def [symmetric] 4 5 bindO_eq_Inr split: if_splits)
    with True show ?thesis by (intro that(2) [OF 1 2 spkt_def _ _ 3 _ 4 5]) (auto simp: opts)
  qed
qed

lemma client_prefix:
  assumes "sys_num os (Socket Udt_kind) s = (peer, s1)"
    and "sys_call os (Recv (Tcp fd) 8 MSG_WAITALL) s1 = (r, s2)" and "length junk = 8"
  shows "length (overwrite 0 (resp_data r) junk) = 8 \<and>
    calls_of (sends ep) s2 = calls_of (sends ep) s \<and> calls_of connects s2 = calls_of connects s \<and>
    (\<exists>k. log s2 = log s @ [(Socket Udt_kind, k), (Recv (Tcp fd) 8 MSG_WAITALL, r)])"
proof -
  from assms(1) obtain k where "sys_call os (Socket Udt_kind) s = (k, s1)"
    by (auto simp: sys_num_def split: prod.splits)
  with sys_call_recv [OF assms(2), of "Tcp fd"] assms(3)
    calls_of_num [OF assms(1), of "sends ep"] calls_of_call [OF assms(2), of "sends ep"]
    calls_of_num [OF assms(1), of connects] calls_of_call [OF assms(2), of connects] show ?thesis
    by (auto simp: sys_call_log [OF assms(2)] sys_call_log)
qed

lemma client_setup:
  assumes "skip_userid os (Tcp fd) jc s2 = Some (Inr s3)"
    and "relay_setsockopt os peer order opts rdv st s3 = Inr (st', s4)"
    and "sys_num os (Bind (Udt peer) baddr) s4 = (rb, s5)"
    and "sys_num os (Connect (Udt peer) paddr) s5 = (rc, s6)"
  shows "calls_of (sends ep) s6 = calls_of (sends ep) s2 \<and>
    calls_of connects s6 = calls_of connects s2 @ [(Udt peer, paddr)] \<and> extends s2 s6"
proof -
  from skip_userid_result [OF assms(1)] have a: "only_calls (recv_call (Tcp fd)) s2 s3" by auto
  note b = relay_setsockopt_only [OF assms(2)]
  note calls = calls_of_only [OF a, of "sends ep"] calls_of_only [OF a, of connects]
    calls_of_only [OF b, of "sends ep"] calls_of_only [OF b, of connects]
    calls_of_num [OF assms(3), of "sends ep"] calls_of_num [OF assms(3), of connects]
    calls_of_num [OF assms(4), of "sends ep"] calls_of_num [OF assms(4), of connects]
  from a b have "extends s2 s4" by (blast intro: only_calls_trans only_calls_weaken)
  then have "extends s2 s5" using assms(3) by (rule only_calls_then_num) simp
  then have "extends s2 s6" using assms(4) by (rule only_calls_then_num) simp
  with calls show ?thesis by simp
qed

text \<open>The dialogue after a successful connect: the request, the empty user name, and the
  answer of the peer relay passed on.\<close>

lemma client_dialogue:
  assumes "wait_reply os peer spkt
      (sys_do os (Send (Udt peer) [0] 0) (sys_do os (Send (Udt peer) spkt 0) s6)) =
      Some (Inr (spkt', s9))" and "length spkt = 8"
  shows "length spkt' = 8 \<and>
    calls_of (sends (Udt peer)) s9 = calls_of (sends (Udt peer)) s6 @ [spkt, [0]] \<and>
    calls_of (sends (Tcp fd)) s9 = calls_of (sends (Tcp fd)) s6 \<and>
    calls_of connects s9 = calls_of connects s6 \<and> extends s6 s9"
proof -
  from wait_reply_result [OF assms] have w: "length spkt' = 8" and
      oc: "only_calls (recv_call (Udt peer))
        (sys_do os (Send (Udt peer) [0] 0) (sys_do os (Send (Udt peer) spkt 0) s6)) s9" by auto
  have "extends s6 (sys_do os (Send (Udt peer) [0] 0) (sys_do os (Send (Udt peer) spkt 0) s6))"
    by (auto intro: extends_intros)
  with oc have "extends s6 s9" by (blast intro: only_calls_trans only_calls_weaken)
  with w calls_of_only [OF oc, of "sends (Udt peer)"] calls_of_only [OF oc, of "sends (Tcp fd)"]
    calls_of_only [OF oc, of connects] show ?thesis by simp
qed




text \<open>However the client side ends, the application has been sent exactly one message,
  eight bytes long, and nothing else; and when the relay threads are not started, the
  sockets recorded for closing are the ones of this connection.\<close>

theorem client_answers_once:
  assumes "client_handshake os cfg fd junk jc st s = Some (Inr (e, st', s'))"
    and "length junk = 8"
  shows "\<exists>msg peer. length msg = 8 \<and>
    calls_of (sends (Tcp fd)) s' = calls_of (sends (Tcp fd)) s @ [msg] \<and>
    (Socket Udt_kind, peer) \<in> set (log s') \<and>
    (let args = \<lparr>udtsock = rv peer, tcpsock = fd, shutdown = 0\<rparr>
     in e = Broken args \<or> e = Relay args \<and> msg ! 1 = 90)"
  using assms(1)
proof (cases rule: client_cases)
  case (1 s1 s2 spkt peer r m code)
  obtain k where k: "sys_call os (Socket Udt_kind) s = (k, s1)" "peer = rv k"
    using 1(1) by (auto simp: sys_num_def split: prod.splits)
  have "extends s2 s'" by (simp add: 1(6) extends_intros)
  then have "(Socket Udt_kind, k) \<in> set (log s')"
    by (auto simp: only_calls_def sys_call_log [OF 1(2)] sys_call_log [OF k(1)])
  with client_prefix [OF 1(1,2) assms(2), of "Tcp fd"] 1 k(2) show ?thesis
    by (intro exI [of _ "spkt[1 := code]"] exI [of _ k]) auto
next
  case (2 s1 s2 s3 s4 s5 s6 spkt peer r rb rc baddr)
  obtain k where k: "sys_call os (Socket Udt_kind) s = (k, s1)" "peer = rv k"
    using 2(1) by (auto simp: sys_num_def split: prod.splits)
  note p = client_prefix [OF 2(1,2) assms(2), of "Tcp fd"]
  note u = client_setup [OF 2(6-9), of "Tcp fd"]
  have seen: "(Socket Udt_kind, k) \<in> set (log t)" if "extends s6 t" for t
    using u that by (auto simp: only_calls_def sys_call_log [OF 2(2)] sys_call_log [OF k(1)])
  show ?thesis
  proof (cases "rc = -1")
    case True
    with 2(10) have s': "s' = send_reply os (Tcp fd) 92 spkt
          (sys_do os (Say LOG_WARNING ''udt connect: %s'') s6)"
      and "e = Broken \<lparr>udtsock = peer, tcpsock = fd, shutdown = 0\<rparr>" by auto
    moreover have "(Socket Udt_kind, k) \<in> set (log s')"
      by (rule seen) (simp add: s' extends_intros)
    ultimately show ?thesis using p u k(2)
      by (intro exI [of _ "spkt[1 := 92]"] exI [of _ k]) (simp add: 2(3))
  next
    case False
    with 2(10) obtain spkt' s9 where w: "wait_reply os peer spkt
        (sys_do os (Send (Udt peer) [0] 0) (sys_do os (Send (Udt peer) spkt 0) s6)) =
        Some (Inr (spkt', s9))"
      and e: "spkt' ! 1 = 90 \<and> e = Relay \<lparr>udtsock = peer, tcpsock = fd, shutdown = 0\<rparr> \<and>
             s' = sys_do os (Send (Tcp fd) spkt' 0) s9 \<or>
           spkt' ! 1 \<noteq> 90 \<and> e = Broken \<lparr>udtsock = peer, tcpsock = fd, shutdown = 0\<rparr> \<and>
             s' = sys_do os (Say LOG_ERR ''remote peer socks error'')
               (sys_do os (Send (Tcp fd) spkt' 0) s9)" by auto
    have "length spkt = 8" using p by (simp add: 2(3))
    note d = client_dialogue [OF w this]
    from d have "extends s6 s'" using e
      by (auto intro!: only_calls_then_do)
    with seen e d p u k(2) show ?thesis
      by (intro exI [of _ spkt'] exI [of _ k]) auto
  qed
qed

theorem client_answers_once_witness:
  "\<exists>st' s' msg. client_handshake script sample_config 5 (replicate 8 0) 0 fresh_statics
       (start [Ret 9, Data [5, 1, 0]]) =
       Some (Inr (Broken \<lparr>udtsock = 9, tcpsock = 5, shutdown = 0\<rparr>, st', s')) \<and>
     calls_of (sends (Tcp 5)) s' = [msg]"
proof -
  obtain st' s' where r: "client_handshake script sample_config 5 (replicate 8 0) 0 fresh_statics
       (start [Ret 9, Data [5, 1, 0]]) =
       Some (Inr (Broken \<lparr>udtsock = 9, tcpsock = 5, shutdown = 0\<rparr>, st', s'))"
    by (simp add: client_handshake_def run_simps Let_def)
  from client_answers_once [OF r] r show ?thesis
    by (auto simp: calls_of_def start_def)
qed

text \<open>A request with another command than connect is refused on the server side with
  code 91, but the client side answers the application with code 90, which means that the
  request was granted, and then closes the connection.\<close>

theorem client_grants_wrong_command:
  assumes "length junk = 8" and "cd pkt \<noteq> 1" and "vn pkt = 4" and "wf_pkt pkt"
    and "sys_num os (Socket Udt_kind) s = (peer, s1)"
    and "sys_call os (Recv (Tcp fd) 8 MSG_WAITALL) s1 = (Data (pkt_bytes pkt), s2)"
  shows "\<exists>s'. client_handshake os cfg fd junk jc st s =
      Some (Inr (Broken \<lparr>udtsock = peer, tcpsock = fd, shutdown = 0\<rparr>, st, s')) \<and>
    calls_of (sends (Tcp fd)) s' =
      calls_of (sends (Tcp fd)) s @ [pkt_bytes (pkt\<lparr>cd := 90\<rparr>)]"
proof -
  have o: "overwrite 0 (pkt_bytes pkt) junk = pkt_bytes pkt"
    using assms(1,4) by (simp add: overwrite_def length_pkt_bytes)
  have p: "pkt_bytes pkt ! 0 = 4" "pkt_bytes pkt ! 1 \<noteq> 1"
      "(pkt_bytes pkt)[1 := 90] = pkt_bytes (pkt\<lparr>cd := 90\<rparr>)"
    using assms(2,3) by (simp_all add: pkt_bytes_def)
  show ?thesis
    using client_prefix [OF assms(5,6,1), of "Tcp fd"] p(2)
    by (simp add: client_handshake_def assms(5,6) o p p(3) [simplified] Let_def)
qed

theorem client_grants_wrong_command_witness:
  "\<exists>st' s'. client_handshake script sample_config 5 (replicate 8 0) 0 fresh_statics
       (start [Ret 9, Data [4, 2, 0, 80, 10, 0, 0, 1]]) =
       Some (Inr (Broken \<lparr>udtsock = 9, tcpsock = 5, shutdown = 0\<rparr>, st', s')) \<and>
     calls_of (sends (Tcp 5)) s' = [[4, 90, 0, 80, 10, 0, 0, 1]]"
proof -
  define s where "s = start [Ret 9, Data [4, 2, 0, 80, 10, 0, 0, 1 :: byte]]"
  define pkt where "pkt = \<lparr>vn = 4, cd = 2, dstport = [0, 80], dstip = [10, 0, 0, 1 :: byte]\<rparr>"
  obtain s1 where 1: "sys_num script (Socket Udt_kind) s = (9, s1)"
      "world s1 = [Data [4, 2, 0, 80, 10, 0, 0, 1]]"
    by (simp add: s_def sys_num_def sys_call_def answer_def script_def start_def)
  obtain s2 where 2: "sys_call script (Recv (Tcp 5) 8 MSG_WAITALL) s1 = (Data (pkt_bytes pkt), s2)"
    by (simp add: sys_call_def answer_def script_def 1(2) pkt_def pkt_bytes_def)
  show ?thesis
    using client_grants_wrong_command [OF _ _ _ _ 1(1) 2, of "replicate 8 0" sample_config 0
      fresh_statics]
    by (simp add: pkt_def wf_pkt_def s_def) (auto simp: pkt_bytes_def calls_of_def start_def)
qed

end
