(* ===== verification/Relay_Threads.thy ===== *)
theory Relay_Threads
  imports Socks Utils
begin

text \<open>
  The two threads that move the data of an established connection,
  \<open>sock2peer_worker\<close> and \<open>peer2sock_worker\<close> of \<^verbatim>\<open>src/relay/udtrelay.cpp\<close>, and \<open>start_child\<close>,
  which runs a handshake, the two threads and the clean-up.

  A thread is a program counter and the error codes that are local to it. One step is one
  call of the environment, or one access of the flag \<open>shutdown\<close> that the threads share, so
  that every interleaving of the two threads is a sequence of steps. \<open>SOCK_API::writen\<close> is
  inlined as its single writes; \<open>write_steps_refine_writen\<close> relates them to the function.
  Debug messages are left out, except for the call of \<open>dump_str\<close> in the argument of one of
  them, which is evaluated at every debug level.
\<close>


section \<open>State\<close>

text \<open>Where the thread that reads the socks connection stands. \<open>S_write data rest\<close>: of the
  chunk \<open>data\<close>, \<open>rest\<close> is still to be written.\<close>

datatype s2p =
    S_test                              \<comment> \<open>\<open>while (!pCargs->shutdown)\<close>\<close>
  | S_poll
  | S_recv
  | S_write "byte list" "byte list"
  | S_exit                              \<comment> \<open>after the loop\<close>
  | S_done
  | S_fault fault

datatype p2s =
    P_start
  | P_test
  | P_recv
  | P_got int "byte list"               \<comment> \<open>the condition of \<open>do ... while\<close> and the tests after it\<close>
  | P_write "byte list" "byte list"
  | P_reset                             \<comment> \<open>\<open>pCargs->shutdown = 0\<close>\<close>
  | P_exit
  | P_done
  | P_fault fault

text \<open>\<open>serr\<close> and \<open>perr\<close> are the thread-local \<open>errno\<close> and UDT error of the two threads.\<close>

record 'w relay =
  env :: "'w sys"
  flag :: int
  spc :: s2p
  serr :: "int \<times> int"
  ppc :: p2s
  perr :: "int \<times> int"

definition rcvbuffer :: int where
  "rcvbuffer = 1024 * 1024"

definition as_thread :: "int \<times> int \<Rightarrow> 'w sys \<Rightarrow> 'w sys" where
  "as_thread e s = s\<lparr>errno := fst e, udt_errno := snd e\<rparr>"

definition s_goes :: "'w relay \<Rightarrow> 'w sys \<Rightarrow> s2p \<Rightarrow> 'w relay" where
  "s_goes x s pc = x\<lparr>env := s, serr := (errno s, udt_errno s), spc := pc\<rparr>"

definition p_goes :: "'w relay \<Rightarrow> 'w sys \<Rightarrow> p2s \<Rightarrow> 'w relay" where
  "p_goes x s pc = x\<lparr>env := s, perr := (errno s, udt_errno s), ppc := pc\<rparr>"

text \<open>\<open>char str[dump_message*5+10]; dump_str(str, data, rcvbuffer, sz, dump_message)\<close>\<close>

definition dump_chunk :: "int \<Rightarrow> byte list \<Rightarrow> fault option" where
  "dump_chunk dump_message data =
     (case dump_str data rcvbuffer (int (length data)) dump_message of
        Inl e \<Rightarrow> Some Out_of_bounds
      | Inr str \<Rightarrow>
          if c_size str \<le> dump_buffer_size dump_message then None else Some Out_of_bounds)"


section \<open>The threads\<close>

text \<open>
  \<open>sock2peer_worker\<close>. The result of \<open>poll\<close> is compared with \<open>EINTR\<close>, and the test for an
  error compares the address of the function \<open>poll\<close> with zero, so it is never true.
\<close>

definition s2p_step :: "'w os \<Rightarrow> int \<Rightarrow> cargs \<Rightarrow> 'w relay \<Rightarrow> 'w relay" where
  "s2p_step os dump_message args x =
     (let s = as_thread (serr x) (env x)
      in case spc x of
           S_test \<Rightarrow> x\<lparr>spc := (if flag x = 0 then S_poll else S_exit)\<rparr>
         | S_poll \<Rightarrow>
             (let (pollr, s1) = sys_num os (Poll (tcpsock args) 10) s
              in s_goes x s1 (if pollr = EINTR then S_poll
                              else if pollr = 0 then S_test else S_recv))
         | S_recv \<Rightarrow>
             (let (r, s1) = sys_call os (Recv (Tcp (tcpsock args)) rcvbuffer 0) s
              in if rv r = -1
                 then s_goes x (sys_do os (Say LOG_NOTICE ''socks client recv error'') s1) S_exit
                 else if rv r = 0 then s_goes x s1 S_exit
                 else s_goes x s1 (S_write (resp_data r) (resp_data r)))
         | S_write data rest \<Rightarrow>
             (if rest = [] then
                x\<lparr>spc := (case dump_chunk dump_message data of
                            None \<Rightarrow> S_test
                          | Some e \<Rightarrow> S_fault e)\<rparr>
              else
                let (n, s1) = sapi_write os (embedsockfd (udtsock args) UDT) rest s
                in if n \<le> 0
                   then if errno s1 = EINTR then s_goes x s1 (S_write data rest)
                        else s_goes x (sys_do os (Say LOG_ERR ''udt send error: %s'') s1) S_exit
                   else s_goes x s1 (S_write data (drop (nat n) rest)))
         | S_exit \<Rightarrow> x\<lparr>flag := 1, spc := S_done\<rparr>
         | S_done \<Rightarrow> x
         | S_fault e \<Rightarrow> x)"

text \<open>\<open>peer2sock_worker\<close>.\<close>

definition p2s_step :: "'w os \<Rightarrow> int \<Rightarrow> cargs \<Rightarrow> 'w relay \<Rightarrow> 'w relay" where
  "p2s_step os dump_message args x =
     (let s = as_thread (perr x) (env x)
      in case ppc x of
           P_start \<Rightarrow> p_goes x (sys_do os (Set_udt (udtsock args) UDT_RCVTIMEO 100) s) P_test
         | P_test \<Rightarrow> x\<lparr>ppc := (if flag x = 0 then P_recv else P_exit)\<rparr>
         | P_recv \<Rightarrow>
             (let (r, s1) = sys_call os (Recv (Udt (udtsock args)) rcvbuffer 0) s
              in p_goes x s1 (P_got (rv r) (resp_data r)))
         | P_got sz data \<Rightarrow>
             (if sz = 0 \<and> flag x = 0 then x\<lparr>ppc := P_recv\<rparr>
              else if sz = -1 then
                p_goes x
                  (if udt_errno s = 2001
                   then sys_do os (Say LOG_NOTICE ''udt peer connection closed'') s
                   else sys_do os (Say LOG_ERR ''udt recv: %s'') s) P_reset
              else x\<lparr>ppc := P_write data data\<rparr>)
         | P_write data rest \<Rightarrow>
             (if rest = [] then
                x\<lparr>ppc := (case dump_chunk dump_message data of
                            None \<Rightarrow> P_test
                          | Some e \<Rightarrow> P_fault e)\<rparr>
              else
                let (n, s1) = sapi_write os (embedsockfd (tcpsock args) TCP) rest s
                in if n \<le> 0
                   then if errno s1 = EINTR then p_goes x s1 (P_write data rest)
                        else p_goes x s1 P_exit
                   else p_goes x s1 (P_write data (drop (nat n) rest)))
         | P_reset \<Rightarrow> x\<lparr>flag := 0, ppc := P_exit\<rparr>
         | P_exit \<Rightarrow> x\<lparr>flag := 1, ppc := P_done\<rparr>
         | P_done \<Rightarrow> x
         | P_fault e \<Rightarrow> x)"

text \<open>
  The threads after \<open>pthread_create\<close>, their interleavings, and the two calls of
  \<open>pthread_join\<close>: a schedule says whose turn it is, \<open>None\<close> that it is too short.
\<close>

definition relay_start :: "cargs \<Rightarrow> 'w sys \<Rightarrow> 'w relay" where
  "relay_start args s =
     \<lparr>env = s, flag = shutdown args, spc = S_test, serr = (0, 0), ppc = P_start, perr = (0, 0)\<rparr>"

inductive relay_step :: "'w os \<Rightarrow> int \<Rightarrow> cargs \<Rightarrow> 'w relay \<Rightarrow> 'w relay \<Rightarrow> bool"
  for os :: "'w os" and dump_message :: int and args :: cargs where
  s2p_turn: "relay_step os dump_message args x (s2p_step os dump_message args x)"
| p2s_turn: "relay_step os dump_message args x (p2s_step os dump_message args x)"

inductive_cases relay_stepE: "relay_step os dm args x y"

definition run_schedule :: "'w os \<Rightarrow> int \<Rightarrow> cargs \<Rightarrow> bool list \<Rightarrow> 'w relay \<Rightarrow> 'w relay" where
  "run_schedule os dm args sched x =
     fold (\<lambda>b x. if b then s2p_step os dm args x else p2s_step os dm args x) sched x"

definition joined :: "'w relay \<Rightarrow> bool" where
  "joined x \<longleftrightarrow> spc x = S_done \<and> ppc x = P_done"

definition run_threads ::
  "'w os \<Rightarrow> int \<Rightarrow> cargs \<Rightarrow> bool list \<Rightarrow> 'w sys \<Rightarrow> 'w sys result option" where
  "run_threads os dm args sched s =
     (let x = run_schedule os dm args sched (relay_start args s)
      in case spc x of
           S_fault e \<Rightarrow> Some (Inl (Fault e))
         | pc \<Rightarrow> (case ppc x of
                     P_fault e \<Rightarrow> Some (Inl (Fault e))
                   | pc' \<Rightarrow> if joined x then Some (Inr (env x)) else None))"

section \<open>The child\<close>

datatype mode = DUAL | SERVER | CLIENT

text \<open>The end of \<open>start_child\<close>; \<open>noisy\<close> is \<open>debug_level or is_track_connections\<close>.\<close>

definition finish_child :: "'w os \<Rightarrow> bool \<Rightarrow> cargs \<Rightarrow> 'w sys \<Rightarrow> 'w sys" where
  "finish_child os noisy args s =
     (let s1 = close_both os args s
      in if noisy then sys_do os (Say LOG_NOTICE ''close %s connection: %s:%s'') s1 else s1)"

definition start_child ::
  "'w os \<Rightarrow> config \<Rightarrow> int \<Rightarrow> bool \<Rightarrow> mode \<Rightarrow> int \<Rightarrow> byte list \<Rightarrow> byte \<Rightarrow> bool list \<Rightarrow> udp_statics \<Rightarrow>
     'w sys \<Rightarrow> (udp_statics \<times> 'w sys) result option" where
  "start_child os cfg dm noisy mode servsock junk_pkt junk_c sched st s =
     bindO
       (if mode = SERVER
        then bindO (server_handshake os cfg servsock junk_pkt junk_c
                      (sys_do os (Getpeername (Udt servsock)) s))
               (\<lambda>(e, s'). Some (Inr (e, st, s')))
        else client_handshake os cfg servsock junk_pkt junk_c st
               (sys_do os (Getpeername (Tcp servsock)) s))
       (\<lambda>(e, st', s').
          case e of
            Returned \<Rightarrow> Some (Inr (st', s'))
          | Broken args \<Rightarrow> Some (Inr (st', finish_child os noisy args s'))
          | Relay args \<Rightarrow>
              bindO (run_threads os dm args sched s')
                (\<lambda>s''. Some (Inr (st', finish_child os noisy args s''))))"

section \<open>The steps and the byte streams\<close>

lemma as_thread_streams [simp]:
  "received ep (as_thread e s) = received ep s" "sent ep (as_thread e s) = sent ep s"
  "log (as_thread e s) = log s" "world (as_thread e s) = world s"
  "errno (as_thread e s) = fst e" "udt_errno (as_thread e s) = snd e"
  by (simp_all add: as_thread_def received_def sent_def)

lemma goes_simps [simp]:
  "env (s_goes x s pc) = s" "spc (s_goes x s pc) = pc" "ppc (s_goes x s pc) = ppc x"
  "flag (s_goes x s pc) = flag x" "perr (s_goes x s pc) = perr x"
  "serr (s_goes x s pc) = (errno s, udt_errno s)"
  "env (p_goes x s pc') = s" "ppc (p_goes x s pc') = pc'" "spc (p_goes x s pc') = spc x"
  "flag (p_goes x s pc') = flag x" "serr (p_goes x s pc') = serr x"
  "perr (p_goes x s pc') = (errno s, udt_errno s)"
  by (simp_all add: s_goes_def p_goes_def)

lemma quiet_do:
  assumes "\<And>r. in_bytes ep (c, r) = [] \<and> out_bytes ep (c, r) = []"
  shows "received ep (sys_do os c s) = received ep s \<and> sent ep (sys_do os c s) = sent ep s"
  unfolding sys_do_def using assms
  by (simp add: received_call [of os c s, OF surjective_pairing]
      sent_call [of os c s, OF surjective_pairing])

lemma quiet_say [simp]:
  "received ep (sys_do os (Say p m) s) = received ep s"
  "sent ep (sys_do os (Say p m) s) = sent ep s"
  "received ep (sys_do os (Set_udt u opt v) s) = received ep s"
  "sent ep (sys_do os (Set_udt u opt v) s) = sent ep s"
  using quiet_do [of ep "Say p m" os s] quiet_do [of ep "Set_udt u opt v" os s]
  by (simp_all add: in_bytes_def out_bytes_def)

lemma poll_streams:
  "sys_num os (Poll fd t) s = (n, s') \<Longrightarrow> received ep s' = received ep s \<and> sent ep s' = sent ep s"
  by (auto simp: sys_num_def trace_simps in_bytes_def out_bytes_def split: prod.splits)

text \<open>
  What was received from \<open>src\<close> since \<open>s0\<close> is what was sent to \<open>dst\<close> since then, followed
  by \<open>rest\<close>.
\<close>

definition moved :: "endpoint \<Rightarrow> endpoint \<Rightarrow> 'w sys \<Rightarrow> 'w sys \<Rightarrow> byte list \<Rightarrow> bool" where
  "moved src dst s0 s rest \<longleftrightarrow>
     (\<exists>b. received src s = received src s0 @ b @ rest \<and> sent dst s = sent dst s0 @ b)"

text \<open>What a thread can still hold of the data it received.\<close>

fun s_holds :: "s2p \<Rightarrow> byte list \<Rightarrow> bool" where
  "s_holds (S_write data rest) r \<longleftrightarrow> r = rest"
| "s_holds S_test r \<longleftrightarrow> r = []"
| "s_holds S_poll r \<longleftrightarrow> r = []"
| "s_holds S_recv r \<longleftrightarrow> r = []"
| "s_holds pc r \<longleftrightarrow> True"

fun p_holds :: "p2s \<Rightarrow> byte list \<Rightarrow> bool" where
  "p_holds (P_write data rest) r \<longleftrightarrow> r = rest"
| "p_holds (P_got sz data) r \<longleftrightarrow> r = data \<and> (sz = -1 \<and> data = [] \<or> sz = int (length data))"
| "p_holds P_start r \<longleftrightarrow> r = []"
| "p_holds P_test r \<longleftrightarrow> r = []"
| "p_holds P_recv r \<longleftrightarrow> r = []"
| "p_holds pc r \<longleftrightarrow> True"

lemma moved_recv:
  assumes "moved src dst s0 s []" and "sys_call os (Recv src m f) s = (r, s')"
  shows "moved src dst s0 s' (resp_data r)"
  using assms(1) sys_call_recv [OF assms(2), of src] sys_call_recv [OF assms(2), of dst]
  by (auto simp: moved_def)

lemma moved_write:
  assumes "moved src dst s0 s rest" and "sapi_write os sd rest s = (n, s')"
    and "endpoint_of sd = dst"
  shows "moved src dst s0 s' (drop (nat n) rest)"
proof -
  from assms(1) obtain b where
    "received src s = received src s0 @ b @ rest" "sent dst s = sent dst s0 @ b"
    by (auto simp: moved_def)
  with sapi_write_streams [OF assms(2), of src] sapi_write_streams [OF assms(2), of dst] assms(3)
  show ?thesis by (auto simp: moved_def intro: exI [of _ "b @ take (nat n) rest"])
qed

lemma moved_other:
  assumes "moved src dst s0 s rest"
    and "received src s' = received src s" and "sent dst s' = sent dst s"
  shows "moved src dst s0 s' rest"
  using assms by (simp add: moved_def)

abbreviation s_moved :: "cargs \<Rightarrow> 'w sys \<Rightarrow> 'w relay \<Rightarrow> bool" where
  "s_moved args s0 x \<equiv>
     \<exists>rest. moved (Tcp (tcpsock args)) (Udt (udtsock args)) s0 (env x) rest \<and> s_holds (spc x) rest"

abbreviation p_moved :: "cargs \<Rightarrow> 'w sys \<Rightarrow> 'w relay \<Rightarrow> bool" where
  "p_moved args s0 x \<equiv>
     \<exists>rest. moved (Udt (udtsock args)) (Tcp (tcpsock args)) s0 (env x) rest \<and> p_holds (ppc x) rest"

definition relayable :: "cargs \<Rightarrow> bool" where
  "relayable args \<longleftrightarrow> embeddable (udtsock args) UDT \<and> embeddable (tcpsock args) TCP"

section \<open>The invariant of the relay\<close>

text \<open>The threads share nothing but the flag and the environment.\<close>

lemma s2p_step_frame:
  "ppc (s2p_step os dm args x) = ppc x" "perr (s2p_step os dm args x) = perr x"
  by (auto simp: s2p_step_def Let_def split: s2p.splits option.splits prod.splits)

lemma p2s_step_frame:
  "spc (p2s_step os dm args x) = spc x" "serr (p2s_step os dm args x) = serr x"
  by (auto simp: p2s_step_def Let_def split: p2s.splits option.splits prod.splits)

lemma s2p_step_done: "spc x = S_done \<Longrightarrow> s2p_step os dm args x = x"
  by (simp add: s2p_step_def)

lemma p2s_step_done: "ppc x = P_done \<Longrightarrow> p2s_step os dm args x = x"
  by (simp add: p2s_step_def)

lemma s2p_step_own:
  assumes "relayable args" and "s_moved args s0 x"
  shows "s_moved args s0 (s2p_step os dm args x)"
proof -
  define s where "s = as_thread (serr x) (env x)"
  from assms(2) obtain rest where
    m: "moved (Tcp (tcpsock args)) (Udt (udtsock args)) s0 s rest" and h: "s_holds (spc x) rest"
    by (auto simp: s_def moved_def)
  show ?thesis
  proof (cases "spc x")
    case S_poll
    obtain n s1 where p: "sys_num os (Poll (tcpsock args) 10) s = (n, s1)" by fastforce
    from m have "moved (Tcp (tcpsock args)) (Udt (udtsock args)) s0 s1 rest"
      by (rule moved_other) (simp_all add: poll_streams [OF p])
    with S_poll p h show ?thesis by (auto simp: s2p_step_def s_def Let_def)
  next
    case S_recv
    obtain r s1 where c: "sys_call os (Recv (Tcp (tcpsock args)) rcvbuffer 0) s = (r, s1)"
      by fastforce
    from m h S_recv have "moved (Tcp (tcpsock args)) (Udt (udtsock args)) s0 s1 (resp_data r)"
      by (intro moved_recv [OF _ c]) simp
    then have "moved (Tcp (tcpsock args)) (Udt (udtsock args)) s0
        (sys_do os (Say LOG_NOTICE ''socks client recv error'') s1) (resp_data r)"
      by (rule moved_other) simp_all
    with S_recv c \<open>moved _ _ s0 s1 _\<close> show ?thesis
      by (auto simp: s2p_step_def s_def Let_def)
  next
    case (S_write data rest')
    obtain n s1 where w: "sapi_write os (embedsockfd (udtsock args) UDT) rest s = (n, s1)"
      by fastforce
    have m1: "moved (Tcp (tcpsock args)) (Udt (udtsock args)) s0 s1 (drop (nat n) rest)"
      by (rule moved_write [OF m w]) (use assms(1) in \<open>simp add: relayable_def\<close>)
    then have "moved (Tcp (tcpsock args)) (Udt (udtsock args)) s0
        (sys_do os (Say LOG_ERR ''udt send error: %s'') s1) (drop (nat n) rest)"
      by (rule moved_other) simp_all
    with S_write h w m m1 show ?thesis
      by (auto simp: s2p_step_def s_def Let_def moved_def split: option.split)
  qed (use m h in \<open>auto simp: s2p_step_def s_def Let_def moved_def\<close>)
qed

lemma s2p_step_other:
  assumes "relayable args" and "p_moved args s0 x"
  shows "p_moved args s0 (s2p_step os dm args x)"
proof -
  define s where "s = as_thread (serr x) (env x)"
  obtain n s1 where p: "sys_num os (Poll (tcpsock args) 10) s = (n, s1)" by fastforce
  obtain r s2 where c: "sys_call os (Recv (Tcp (tcpsock args)) rcvbuffer 0) s = (r, s2)" by fastforce
  obtain k s3 where w: "sapi_write os (embedsockfd (udtsock args) UDT)
      (case spc x of S_write d r \<Rightarrow> r | _ \<Rightarrow> []) s = (k, s3)" by fastforce
  note streams = poll_streams [OF p] sys_call_recv [OF c] sapi_write_streams [OF w]
  have "received (Udt (udtsock args)) (env (s2p_step os dm args x)) =
        received (Udt (udtsock args)) (env x) \<and>
      sent (Tcp (tcpsock args)) (env (s2p_step os dm args x)) = sent (Tcp (tcpsock args)) (env x)"
    using assms(1) p c w streams [of "Udt (udtsock args)"] streams [of "Tcp (tcpsock args)"]
    by (auto simp: s2p_step_def s_def Let_def relayable_def split: s2p.splits option.splits)
  with assms(2) show ?thesis by (auto simp: moved_def s2p_step_frame)
qed

lemma p2s_step_own:
  assumes "relayable args" and "p_moved args s0 x"
  shows "p_moved args s0 (p2s_step os dm args x)"
proof -
  define s where "s = as_thread (perr x) (env x)"
  from assms(2) obtain rest where
    m: "moved (Udt (udtsock args)) (Tcp (tcpsock args)) s0 s rest" and h: "p_holds (ppc x) rest"
    by (auto simp: s_def moved_def)
  show ?thesis
  proof (cases "ppc x")
    case P_start
    with m h show ?thesis by (auto simp: p2s_step_def s_def [symmetric] Let_def moved_def)
  next
    case P_recv
    obtain r s1 where c: "sys_call os (Recv (Udt (udtsock args)) rcvbuffer 0) s = (r, s1)"
      by fastforce
    from m h P_recv have "moved (Udt (udtsock args)) (Tcp (tcpsock args)) s0 s1 (resp_data r)"
      by (intro moved_recv [OF _ c]) simp
    with P_recv c sys_call_recv [OF c, of "Udt (udtsock args)"] show ?thesis
      by (auto simp: p2s_step_def s_def Let_def)
  next
    case (P_got sz data)
    with m h show ?thesis
      by (auto simp: p2s_step_def s_def [symmetric] Let_def moved_def)
        (auto simp: s_def)
  next
    case (P_write data rest')
    obtain n s1 where w: "sapi_write os (embedsockfd (tcpsock args) TCP) rest s = (n, s1)"
      by fastforce
    have m1: "moved (Udt (udtsock args)) (Tcp (tcpsock args)) s0 s1 (drop (nat n) rest)"
      by (rule moved_write [OF m w]) (use assms(1) in \<open>simp add: relayable_def\<close>)
    with P_write h w m show ?thesis
      by (auto simp: p2s_step_def s_def Let_def moved_def split: option.split)
  qed (use m h in \<open>auto simp: p2s_step_def s_def Let_def moved_def\<close>)
qed

lemma p2s_step_other:
  assumes "relayable args" and "s_moved args s0 x"
  shows "s_moved args s0 (p2s_step os dm args x)"
proof -
  define s where "s = as_thread (perr x) (env x)"
  obtain r s2 where c: "sys_call os (Recv (Udt (udtsock args)) rcvbuffer 0) s = (r, s2)" by fastforce
  obtain k s3 where w: "sapi_write os (embedsockfd (tcpsock args) TCP)
      (case ppc x of P_write d r \<Rightarrow> r | _ \<Rightarrow> []) s = (k, s3)" by fastforce
  note streams = sys_call_recv [OF c] sapi_write_streams [OF w]
  have "received (Tcp (tcpsock args)) (env (p2s_step os dm args x)) =
        received (Tcp (tcpsock args)) (env x) \<and>
      sent (Udt (udtsock args)) (env (p2s_step os dm args x)) = sent (Udt (udtsock args)) (env x)"
    using assms(1) c w streams [of "Udt (udtsock args)"] streams [of "Tcp (tcpsock args)"]
    by (auto simp: p2s_step_def s_def Let_def relayable_def split: p2s.splits option.splits)
  with assms(2) show ?thesis by (auto simp: moved_def p2s_step_frame)
qed

text \<open>
  The flag: a thread that has ended has set it, and the other one can only have reset it
  on its own way out.
\<close>

definition flag_ok :: "'w relay \<Rightarrow> bool" where
  "flag_ok x \<longleftrightarrow> (ppc x = P_done \<longrightarrow> flag x = 1) \<and>
     (spc x = S_done \<and> ppc x \<noteq> P_exit \<longrightarrow> flag x = 1)"

lemma s2p_step_flag: "flag_ok x \<Longrightarrow> flag_ok (s2p_step os dm args x)"
  by (auto simp: s2p_step_def flag_ok_def Let_def split: s2p.splits option.splits prod.splits)

lemma p2s_step_flag: "flag_ok x \<Longrightarrow> flag_ok (p2s_step os dm args x)"
  by (auto simp: p2s_step_def flag_ok_def Let_def split: p2s.splits option.splits prod.splits)

definition relay_inv :: "cargs \<Rightarrow> 'w sys \<Rightarrow> 'w relay \<Rightarrow> bool" where
  "relay_inv args s0 x \<longleftrightarrow> (relayable args \<longrightarrow> s_moved args s0 x \<and> p_moved args s0 x) \<and> flag_ok x"

definition relay_init :: "cargs \<Rightarrow> 'w sys \<Rightarrow> 'w relay \<Rightarrow> bool" where
  "relay_init args s0 x \<longleftrightarrow> x = relay_start args s0"

interpretation relay: inductive_invariant "relay_init args s0" "relay_step os dm args" "relay_inv args s0"
  for os :: "'w os" and dm args s0
proof unfold_locales
  fix x :: "'w relay"
  assume "relay_init args s0 x"
  then show "relay_inv args s0 x"
    by (simp add: relay_init_def relay_start_def relay_inv_def moved_def flag_ok_def)
next
  fix x y :: "'w relay"
  assume step: "relay_step os dm args x y" and inv: "relay_inv args s0 x"
  have "relay_inv args s0 (s2p_step os dm args x)" and "relay_inv args s0 (p2s_step os dm args x)"
    using inv s2p_step_own [of args s0 x os dm] s2p_step_other [of args s0 x os dm]
      p2s_step_own [of args s0 x os dm] p2s_step_other [of args s0 x os dm]
    unfolding relay_inv_def by (simp_all add: s2p_step_flag p2s_step_flag)
  with step show "relay_inv args s0 y" by (elim relay_stepE) simp_all
qed

lemma run_schedule_reach:
  assumes "reach (relay_init args s0) (relay_step os dm args) x"
  shows "reach (relay_init args s0) (relay_step os dm args) (run_schedule os dm args sched x)"
  using assms unfolding run_schedule_def
  by (induction sched arbitrary: x) (auto intro: reach_step relay_step.intros)

lemma run_schedule_inv: "relay_inv args s0 (run_schedule os dm args sched (relay_start args s0))"
  by (rule relay.reach_inv [OF run_schedule_reach [OF reach_init]]) (simp add: relay_init_def)

text \<open>The bytes an endpoint yielded, or accepted, since \<open>s0\<close>.\<close>

definition received_since :: "'w sys \<Rightarrow> endpoint \<Rightarrow> 'w sys \<Rightarrow> byte list" where
  "received_since s0 ep s = drop (length (received ep s0)) (received ep s)"

definition sent_since :: "'w sys \<Rightarrow> endpoint \<Rightarrow> 'w sys \<Rightarrow> byte list" where
  "sent_since s0 ep s = drop (length (sent ep s0)) (sent ep s)"

lemma moved_since:
  "moved src dst s0 s rest \<Longrightarrow> received_since s0 src s = sent_since s0 dst s @ rest"
  by (auto simp: moved_def received_since_def sent_since_def)


section \<open>Properties\<close>

text \<open>C5: In every state that the two threads can reach, under every interleaving and
  every behaviour of the network, what was sent to the UDT socket is a prefix of what was
  received from the socks connection, and the other way round: nothing is lost in between,
  duplicated, reordered or mixed up. While the thread is at the head of its loop the two
  are equal.\<close>

theorem relay_delivers_in_order:
  assumes "reach (relay_init args s0) (relay_step os dm args) x" and "relayable args"
  shows "prefix (sent_since s0 (Udt (udtsock args)) (env x))
      (received_since s0 (Tcp (tcpsock args)) (env x)) \<and>
    prefix (sent_since s0 (Tcp (tcpsock args)) (env x))
      (received_since s0 (Udt (udtsock args)) (env x)) \<and>
    (spc x = S_test \<longrightarrow> sent_since s0 (Udt (udtsock args)) (env x) =
      received_since s0 (Tcp (tcpsock args)) (env x)) \<and>
    (ppc x = P_test \<longrightarrow> sent_since s0 (Tcp (tcpsock args)) (env x) =
      received_since s0 (Udt (udtsock args)) (env x))"
proof -
  from relay.reach_inv [OF assms(1)] assms(2) obtain r1 r2 where
    "received_since s0 (Tcp (tcpsock args)) (env x) =
       sent_since s0 (Udt (udtsock args)) (env x) @ r1" "s_holds (spc x) r1"
    "received_since s0 (Udt (udtsock args)) (env x) =
       sent_since s0 (Tcp (tcpsock args)) (env x) @ r2" "p_holds (ppc x) r2"
    unfolding relay_inv_def by (metis moved_since)
  then show ?thesis by auto
qed

definition sample_args :: cargs where
  "sample_args = \<lparr>udtsock = 5, tcpsock = 9, shutdown = 0\<rparr>"

definition sample_world :: "resp list" where
  "sample_world = [Ret 1, Data [1, 2, 3], Ret 2, Ret 0, Fail 2001]"

lemmas relay_eval = run_schedule_def relay_start_def s2p_step_def p2s_step_def as_thread_def
  s_goes_def p_goes_def sapi_write_def sys_num_def sys_do_def sys_call_def answer_def script_def
  start_def of_udt_def embedsockfd_def UDT_FD_BASE_def rcvbuffer_def sample_args_def
  sample_world_def

text \<open>After three steps of the first thread and its first write, and the start of the second.\<close>

lemma sample_run:
  "spc (run_schedule script 20 sample_args [True, True, True, True, False, False]
      (relay_start sample_args (start sample_world))) = S_write [1, 2, 3] [3]"
  by (simp add: relay_eval)

theorem relay_delivers_in_order_witness:
  "\<exists>x. reach (relay_init sample_args (start sample_world)) (relay_step script 20 sample_args) x \<and>
    spc x = S_write [1, 2, 3] [3] \<and>
    prefix (sent_since (start sample_world) (Udt 5) (env x))
      (received_since (start sample_world) (Tcp 9) (env x))"
proof -
  define x where "x = run_schedule script 20 sample_args [True, True, True, True, False, False]
      (relay_start sample_args (start sample_world))"
  have r: "reach (relay_init sample_args (start sample_world)) (relay_step script 20 sample_args) x"
    unfolding x_def by (intro run_schedule_reach reach_init) (simp add: relay_init_def)
  have "relayable sample_args"
    by (simp add: relayable_def sample_args_def UDT_FD_BASE_def)
  from relay_delivers_in_order [OF r this]
  have "prefix (sent_since (start sample_world) (Udt 5) (env x))
      (received_since (start sample_world) (Tcp 9) (env x))"
    by (simp add: sample_args_def)
  moreover have "spc x = S_write [1, 2, 3] [3]" unfolding x_def by (rule sample_run)
  ultimately show ?thesis using r by blast
qed

text \<open>C18: When both threads have ended, so that both calls of \<open>pthread_join\<close> return, the
  flag \<open>shutdown\<close> is set, although one of the threads clears it on its way out; and once
  the thread that reads the UDT socket has ended it is never clear again.\<close>

theorem relay_ends_with_flag:
  assumes "reach (relay_init args s0) (relay_step os dm args) x"
  shows "(joined x \<longrightarrow> flag x = 1) \<and>
    (ppc x = P_done \<longrightarrow> flag x = 1 \<and> (\<forall>y. relay_step os dm args x y \<longrightarrow> flag y = 1 \<and> ppc y = P_done))"
proof -
  have inv: "relay_inv args s0 x" by (rule relay.reach_inv [OF assms])
  have "ppc y = P_done" if "relay_step os dm args x y" "ppc x = P_done" for y
    using that
    by (elim relay_stepE) (simp_all add: s2p_step_frame p2s_step_done)
  moreover have "relay_inv args s0 y" if "relay_step os dm args x y" for y
    by (rule relay.reach_inv [OF reach_step [OF assms that]])
  ultimately show ?thesis
    using inv by (auto simp: relay_inv_def flag_ok_def joined_def)
qed

theorem relay_ends_with_flag_witness:
  "\<exists>x. reach (relay_init sample_args (start [])) (relay_step script 20 sample_args) x \<and>
    joined x \<and> flag x = 1"
proof -
  define x where "x = run_schedule script 20 sample_args
      [False, False, False, False, True, False, True, True, True, True, False]
      (relay_start sample_args (start []))"
  have r: "reach (relay_init sample_args (start [])) (relay_step script 20 sample_args) x"
    unfolding x_def by (intro run_schedule_reach reach_init) (simp add: relay_init_def)
  have "joined x" by (simp add: x_def relay_eval joined_def)
  with relay_ends_with_flag [OF r] r show ?thesis by blast
qed

text \<open>An upper bound on the steps of a thread when the flag stays set.\<close>

fun s_measure :: "s2p \<Rightarrow> nat" where
  "s_measure S_test = 2"
| "s_measure S_poll = 5 + nat rcvbuffer"
| "s_measure S_recv = 4 + nat rcvbuffer"
| "s_measure (S_write data rest) = 3 + length rest"
| "s_measure S_exit = 1"
| "s_measure S_done = 0"
| "s_measure (S_fault e) = 0"

fun p_measure :: "p2s \<Rightarrow> nat" where
  "p_measure P_start = 3"
| "p_measure P_test = 2"
| "p_measure P_recv = 5 + nat rcvbuffer"
| "p_measure (P_got sz data) = 4 + length data"
| "p_measure (P_write data rest) = 3 + length rest"
| "p_measure P_reset = 2"
| "p_measure P_exit = 1"
| "p_measure P_done = 0"
| "p_measure (P_fault e) = 0"

lemma uninterrupted_write:
  assumes "uninterrupted os" and "sapi_write os sd bs s = (n, s')" and "errno s \<noteq> EINTR"
  shows "errno s' \<noteq> EINTR"
  using assms(2,3)
  by (auto simp: sapi_write_def sys_num_def split: if_splits prod.splits
      dest: errno_uninterrupted [OF assms(1)])

lemma errno_do:
  "uninterrupted os \<Longrightarrow> errno s \<noteq> EINTR \<Longrightarrow> errno (sys_do os c s) \<noteq> EINTR"
  unfolding sys_do_def using errno_uninterrupted by (metis prod.collapse)

lemma poll_answer: "sys_num os (Poll fd t) s = (n, s') \<Longrightarrow> n = 0 \<or> n = 1 \<or> n = -1"
proof -
  assume "sys_num os (Poll fd t) s = (n, s')"
  then obtain r where r: "sys_call os (Poll fd t) s = (r, s')" "n = rv r"
    by (auto simp: sys_num_def split: prod.splits)
  from sys_call_ok [OF r(1)] r(2) show ?thesis by (cases r) auto
qed

text \<open>Without interruptions no thread ever sees \<open>EINTR\<close>.\<close>

lemma uninterrupted_num:
  "uninterrupted os \<Longrightarrow> sys_num os c s = (n, t) \<Longrightarrow> errno s \<noteq> EINTR \<Longrightarrow> errno t \<noteq> EINTR"
  by (auto simp: sys_num_def split: prod.splits dest: errno_uninterrupted)

lemma step_errno:
  assumes "uninterrupted os"
  shows "fst (serr x) \<noteq> EINTR \<Longrightarrow> fst (serr (s2p_step os dm args x)) \<noteq> EINTR"
    and "fst (perr x) \<noteq> EINTR \<Longrightarrow> fst (perr (p2s_step os dm args x)) \<noteq> EINTR"
  by (auto simp: s2p_step_def p2s_step_def Let_def errno_do [OF assms]
      split: s2p.splits p2s.splits prod.splits option.splits
      dest!: errno_uninterrupted [OF assms] uninterrupted_num [OF assms] uninterrupted_write [OF assms])

definition no_eintr :: "'w relay \<Rightarrow> bool" where
  "no_eintr x \<longleftrightarrow> fst (serr x) \<noteq> EINTR \<and> fst (perr x) \<noteq> EINTR"

lemma reach_no_eintr:
  assumes "reach (relay_init args s0) (relay_step os dm args) x" and "uninterrupted os"
  shows "no_eintr x"
  using assms(1)
proof (induction rule: reach.induct)
  case (reach_step x y)
  from reach_step(2,3) show ?case
    by (elim relay_stepE) (auto simp: no_eintr_def s2p_step_frame p2s_step_frame step_errno [OF assms(2)])
qed (simp add: relay_init_def relay_start_def no_eintr_def)

lemma s2p_step_progress:
  assumes "uninterrupted os" and "fst (serr x) \<noteq> EINTR" and "flag x = 1"
  shows "flag (s2p_step os dm args x) = 1 \<and>
    (0 < s_measure (spc x) \<longrightarrow> s_measure (spc (s2p_step os dm args x)) < s_measure (spc x))"
proof -
  define s where "s = as_thread (serr x) (env x)"
  have e: "errno s \<noteq> EINTR" using assms(2) by (simp add: s_def)
  show ?thesis
  proof (cases "spc x")
    case S_poll
    obtain n s1 where p: "sys_num os (Poll (tcpsock args) 10) s = (n, s1)" by fastforce
    with S_poll p poll_answer [OF p] assms(3) show ?thesis
      by (auto simp: s2p_step_def s_def [symmetric])
  next
    case S_recv
    obtain r s1 where c: "sys_call os (Recv (Tcp (tcpsock args)) rcvbuffer 0) s = (r, s1)"
      by fastforce
    with S_recv sys_call_recv [OF c, of "Tcp 0"] assms(3) show ?thesis
      by (auto simp: s2p_step_def s_def [symmetric] Let_def)
  next
    case (S_write data rest)
    obtain n s1 where w: "sapi_write os (embedsockfd (udtsock args) UDT) rest s = (n, s1)"
      by fastforce
    from uninterrupted_write [OF assms(1) w e] S_write w assms(3) show ?thesis
      by (auto simp: s2p_step_def s_def [symmetric] Let_def split: option.split)
  qed (use assms in \<open>auto simp: s2p_step_def Let_def\<close>)
qed

lemma p2s_step_progress:
  assumes "uninterrupted os" and "fst (perr x) \<noteq> EINTR"
    and "flag x = 1 \<or> ppc x = P_exit"
  shows "(flag (p2s_step os dm args x) = 1 \<or> ppc (p2s_step os dm args x) = P_exit) \<and>
    (0 < p_measure (ppc x) \<longrightarrow> p_measure (ppc (p2s_step os dm args x)) < p_measure (ppc x))"
proof -
  define s where "s = as_thread (perr x) (env x)"
  have e: "errno s \<noteq> EINTR" using assms(2) by (simp add: s_def)
  show ?thesis
  proof (cases "ppc x")
    case P_start
    with assms errno_do [OF assms(1) e] show ?thesis
      by (auto simp: p2s_step_def s_def [symmetric])
  next
    case P_recv
    obtain r s1 where c: "sys_call os (Recv (Udt (udtsock args)) rcvbuffer 0) s = (r, s1)"
      by fastforce
    from P_recv c sys_call_recv [OF c, of "Tcp 0"] assms(3) show ?thesis
      by (auto simp: p2s_step_def s_def [symmetric] Let_def)
  next
    case (P_got sz data)
    with assms errno_do [OF assms(1) e] show ?thesis
      by (auto simp: p2s_step_def s_def [symmetric] Let_def)
  next
    case (P_write data rest)
    obtain n s1 where w: "sapi_write os (embedsockfd (tcpsock args) TCP) rest s = (n, s1)"
      by fastforce
    from uninterrupted_write [OF assms(1) w e] P_write w assms(3) show ?thesis
      by (auto simp: p2s_step_def s_def [symmetric] Let_def split: option.split)
  qed (use assms in \<open>auto simp: p2s_step_def Let_def\<close>)
qed

text \<open>C12: In an environment in which no call is interrupted by a signal, once one of the threads has
  ended, the other one ends after a bounded number of its own steps: the timeouts of \<open>poll\<close>
  and of the UDT receive are what makes it look at the flag. It can only end by a fault in
  \<open>dump_str\<close>, or regularly.\<close>

theorem relay_threads_stop:
  assumes "reach (relay_init args s0) (relay_step os dm args) x" and "uninterrupted os"
  shows "(ppc x = P_done \<longrightarrow> (\<exists>n \<le> s_measure (spc x). \<exists>e.
      spc ((s2p_step os dm args ^^ n) x) = S_done \<or> spc ((s2p_step os dm args ^^ n) x) = S_fault e)) \<and>
    (spc x = S_done \<longrightarrow> (\<exists>n \<le> p_measure (ppc x). \<exists>e.
      ppc ((p2s_step os dm args ^^ n) x) = P_done \<or> ppc ((p2s_step os dm args ^^ n) x) = P_fault e))"
proof -
  have inv: "flag_ok x" using relay.reach_inv [OF assms(1)] by (simp add: relay_inv_def)
  have errno: "fst (serr x) \<noteq> EINTR" "fst (perr x) \<noteq> EINTR"
    using reach_no_eintr [OF assms] by (simp_all add: no_eintr_def)
  have s0: "s_measure pc = 0 \<Longrightarrow> pc = S_done \<or> (\<exists>e. pc = S_fault e)" for pc by (cases pc) auto
  have p0: "p_measure pc = 0 \<Longrightarrow> pc = P_done \<or> (\<exists>e. pc = P_fault e)" for pc by (cases pc) auto
  have "\<exists>n \<le> s_measure (spc x). s_measure (spc ((s2p_step os dm args ^^ n) x)) = 0"
    if "ppc x = P_done"
    using that inv errno(1)
    by (intro funpow_reaches_bottom [where m = "\<lambda>x. s_measure (spc x)"
          and I = "\<lambda>x. fst (serr x) \<noteq> EINTR \<and> flag x = 1"])
      (auto simp: flag_ok_def s2p_step_progress [OF assms(2)] step_errno [OF assms(2)])
  moreover have "\<exists>n \<le> p_measure (ppc x). p_measure (ppc ((p2s_step os dm args ^^ n) x)) = 0"
    if "spc x = S_done"
    using that inv errno(2)
    by (intro funpow_reaches_bottom [where m = "\<lambda>x. p_measure (ppc x)"
          and I = "\<lambda>x. fst (perr x) \<noteq> EINTR \<and> (flag x = 1 \<or> ppc x = P_exit)"])
      (use p2s_step_progress [OF assms(2)] step_errno [OF assms(2)] in \<open>auto simp: flag_ok_def\<close>)
  ultimately show ?thesis using s0 p0 by metis
qed

theorem relay_threads_stop_witness:
  "\<exists>n e. spc ((s2p_step (\<lambda>w c. (Ret 0, w)) 20 sample_args ^^ n)
      (run_schedule (\<lambda>w c. (Ret 0, w)) 20 sample_args [True, False, False, False, False, False, False]
        (relay_start sample_args (start ())))) \<in> {S_done, S_fault e}"
proof -
  define os :: "unit os" where "os = (\<lambda>w c. (Ret 0, w))"
  define x where "x = run_schedule os 20 sample_args [True, False, False, False, False, False, False]
      (relay_start sample_args (start ()))"
  have r: "reach (relay_init sample_args (start ())) (relay_step os 20 sample_args) x"
    unfolding x_def by (intro run_schedule_reach reach_init) (simp add: relay_init_def)
  have "uninterrupted os" by (simp add: os_def uninterrupted_def)
  moreover have "ppc x = P_done" by (simp add: x_def os_def relay_eval)
  ultimately show ?thesis
    using relay_threads_stop [OF r] unfolding x_def os_def by fastforce
qed

text \<open>
  The single writes of a thread, taken without interruption, are \<open>SOCK_API::writen\<close>.
\<close>

lemma as_thread_own [simp]: "as_thread (errno s, udt_errno s) s = s"
  by (cases s) (simp add: as_thread_def)

definition s_writes_to :: "byte list \<Rightarrow> 'w relay \<Rightarrow> int \<Rightarrow> 'w sys \<Rightarrow> 'w relay \<Rightarrow> bool" where
  "s_writes_to data x r s' y \<longleftrightarrow> flag y = flag x \<and> ppc y = ppc x \<and> perr y = perr x \<and>
     as_thread (serr y) (env y) = s' \<and> spc y = (if r < 0 then S_exit else S_write data [])"

definition s_run_writes :: "'w os \<Rightarrow> int \<Rightarrow> cargs \<Rightarrow> byte list \<Rightarrow> 'w relay \<Rightarrow> int \<times> 'w sys \<Rightarrow> bool" where
  "s_run_writes os dm args data x y \<longleftrightarrow>
     (\<exists>n. s_writes_to data x (fst y)
       (if fst y < 0 then sys_do os (Say LOG_ERR ''udt send error: %s'') (snd y) else snd y)
       ((s2p_step os dm args ^^ n) x))"

lemma s_run_writes_step:
  assumes "s2p_step os dm args x = s_goes x t (S_write data p)"
    and "s_run_writes os dm args data (s_goes x t (S_write data p)) y"
  shows "s_run_writes os dm args data x y"
proof -
  from assms(2) obtain n where "s_writes_to data (s_goes x t (S_write data p)) (fst y)
      (if fst y < 0 then sys_do os (Say LOG_ERR ''udt send error: %s'') (snd y) else snd y)
      ((s2p_step os dm args ^^ n) (s_goes x t (S_write data p)))"
    by (auto simp: s_run_writes_def)
  then show ?thesis
    unfolding s_run_writes_def
    by (intro exI [of _ "Suc n"])
      (simp add: assms(1) [symmetric] funpow_swap1, simp add: s_writes_to_def assms(1))
qed

lemma write_steps:
  assumes "write_loop (sapi_write os (embedsockfd (udtsock args) UDT)) (\<lambda>s. errno s = EINTR)
      (int (length data)) p t = Some y"
    and "length p \<le> length data" and "spc x = S_write data p" and "as_thread (serr x) (env x) = t"
  shows "s_run_writes os dm args data x y"
  using assms
proof (induction arbitrary: x rule: write_loop_induct)
  case (finish t)
  then show ?case unfolding s_run_writes_def by (intro exI [of _ 0]) (auto simp: s_writes_to_def)
next
  case (again p t k t')
  then have "s2p_step os dm args x = s_goes x t' (S_write data p)"
    by (auto simp: s2p_step_def Let_def)
  then show ?case by (rule s_run_writes_step) (use again in \<open>auto intro: again.IH\<close>)
next
  case (fail p t k t')
  then show ?case unfolding s_run_writes_def
    by (intro exI [of _ "Suc 0"]) (auto simp: s_writes_to_def s2p_step_def Let_def)
next
  case (more p t k t')
  then have "s2p_step os dm args x = s_goes x t' (S_write data (drop (nat k) p))"
    by (auto simp: s2p_step_def Let_def)
  then show ?case by (rule s_run_writes_step) (use more in \<open>auto intro: more.IH\<close>)
qed

text \<open>C15: The thread implements the call of \<open>SOCK_API::writen\<close>: if the function returns,
  then the writes of the thread, when no other thread runs in between, lead to the same
  state of the environment, and to the same decision, which is to leave the loop exactly
  when the function returns -1.\<close>

theorem write_steps_refine_writen:
  assumes "sapi_writen os (embedsockfd (udtsock args) UDT) data (as_thread (serr x) (env x)) =
      Some (r, s')"
    and "spc x = S_write data data"
  shows "\<exists>n y. y = (s2p_step os dm args ^^ n) x \<and> flag y = flag x \<and> ppc y = ppc x \<and>
    spc y = (if r < 0 then S_exit else S_write data []) \<and>
    as_thread (serr y) (env y) =
      (if r < 0 then sys_do os (Say LOG_ERR ''udt send error: %s'') s' else s')"
  using write_steps [OF assms(1) [unfolded sapi_writen_def] le_refl assms(2) refl,
      of dm]
  by (auto simp: s_writes_to_def s_run_writes_def)

theorem write_steps_refine_writen_witness:
  "\<exists>n y. y = (s2p_step (\<lambda>w c. (Ret 1, w)) 20 sample_args ^^ n)
      (relay_start sample_args (start ()) \<lparr>spc := S_write [7, 8] [7, 8]\<rparr>) \<and>
    spc y = S_write [7, 8] []"
proof -
  define os :: "unit os" where "os = (\<lambda>w c. (Ret 1, w))"
  define x where "x = relay_start sample_args (start ()) \<lparr>spc := S_write [7, 8] [7, 8]\<rparr>"
  obtain s' where "sapi_writen os (embedsockfd (udtsock sample_args) UDT) [7, 8]
      (as_thread (serr x) (env x)) = Some (2, s')"
    by (simp add: sapi_writen_def write_loop.simps os_def x_def relay_eval)
  from write_steps_refine_writen [OF this] show ?thesis
    unfolding x_def os_def by fastforce
qed

section \<open>The clean-up of a child\<close>

lemma closes_simps [simp]:
  "closes (Say p m) = []" "closes (Socket k) = []" "closes (Connect ep a) = []"
  "closes Getifaddrs = []" "closes (Send ep bs f) = []" "closes (Recv ep n f) = []"
  "closes (Write fd bs) = []" "closes (Poll fd t) = []" "closes (Set_udt u opt v) = []"
  "closes (Getpeername ep) = []" "closes (Close ep) = [ep]"
  by (simp_all add: closes_def)

lemma calls_of_as_thread [simp]: "calls_of f (as_thread e s) = calls_of f s"
  by (simp add: calls_of_def)

lemma write_closes: "sapi_write os sd bs s = (n, s') \<Longrightarrow> calls_of closes s' = calls_of closes s"
  by (auto simp: sapi_write_def split: if_splits prod.splits dest!: calls_of_num [of _ _ _ _ _ closes])

lemma thread_closes:
  "calls_of closes (env (s2p_step os dm args x)) = calls_of closes (env x)"
  "calls_of closes (env (p2s_step os dm args x)) = calls_of closes (env x)"
  by (auto simp: s2p_step_def p2s_step_def Let_def split: s2p.splits p2s.splits option.splits prod.splits
      dest!: calls_of_num [of _ _ _ _ _ closes] calls_of_call [of _ _ _ _ _ closes] write_closes)

lemma run_schedule_closes:
  "calls_of closes (env (run_schedule os dm args sched x)) = calls_of closes (env x)"
  unfolding run_schedule_def
  by (induction sched arbitrary: x) (simp_all add: thread_closes)

lemma run_threads_joined:
  assumes "run_threads os dm args sched s = Some (Inr s')"
  shows "joined (run_schedule os dm args sched (relay_start args s)) \<and>
    s' = env (run_schedule os dm args sched (relay_start args s))"
  using assms by (auto simp: run_threads_def Let_def split: s2p.splits p2s.splits if_splits)

lemma server_handshake_closes:
  assumes "server_handshake os cfg u junk jc s = Some (Inr (e, s'))" and "length junk = 8"
  shows "calls_of closes s' = calls_of closes s"
proof -
  have a: "calls_of closes s2 = calls_of closes s"
    if "sys_num os (Socket Tcp_kind) s = (peer, s1)"
      and "recv_pkt os u 0 junk s1 = Some (Inr (spkt, s2))" for peer s1 spkt s2
    using calls_of_num [OF that(1), of closes] server_request_read [OF that assms(2)]
      calls_of_only [of "recv_call (Udt u)" s1 s2 closes] by auto
  have b: "calls_of closes s4 = calls_of closes s2"
    if "skip_userid os (Udt u) jc s2 = Some (Inr s3)"
      and "check_access os na addr s3 = Inr (ok, s4)" for s2 s3 s4 na addr ok
    using skip_userid_result [OF that(1)] check_access_result [OF that(2)]
      calls_of_only [of "recv_call (Udt u)" s2 s3 closes]
      calls_of_only [of "\<lambda>c. c = Getifaddrs" s3 s4 closes] by auto
  from assms(1) show ?thesis
  proof (cases rule: server_cases)
    case 1
    then show ?thesis by (simp add: a [OF 1(1,2)])
  next
    case 2
    then show ?thesis by (simp add: a [OF 2(1,2)] b [OF 2(5,6)])
  next
    case 3
    then show ?thesis
      using calls_of_num [OF 3(7), of closes] by (auto simp: a [OF 3(1,2)] b [OF 3(5,6)])
  qed
qed

lemma server_handshake_args:
  assumes "server_handshake os cfg u junk jc s = Some (Inr (e, s'))"
    and "e = Broken args \<or> e = Relay args"
  shows "udtsock args = u \<and> shutdown args = 0 \<and> fst (sys_num os (Socket Tcp_kind) s) = tcpsock args"
  using assms(1) by (cases rule: server_cases) (use assms(2) in auto)

text \<open>C16: A server child that returns has closed both sockets of its connection, the UDT
  socket first, exactly once each, after both relay threads were joined; unless the request
  had a wrong version or command: then it returns at once, and neither the accepted UDT
  socket nor the TCP socket it opened is ever closed.\<close>

theorem server_child_closes:
  assumes "start_child os cfg dm noisy SERVER u junk jc sched st s = Some (Inr (st', s'))"
    and "length junk = 8"
  shows "\<exists>e t. server_handshake os cfg u junk jc (sys_do os (Getpeername (Udt u)) s) =
      Some (Inr (e, t)) \<and>
    calls_of closes s' = calls_of closes s @
      (if e = Returned then []
       else [Udt u, Tcp (fst (sys_num os (Socket Tcp_kind) (sys_do os (Getpeername (Udt u)) s)))])
    \<and> (\<forall>args. e = Relay args \<longrightarrow> joined (run_schedule os dm args sched (relay_start args t)))"
proof -
  from assms(1) obtain e t where h: "server_handshake os cfg u junk jc
      (sys_do os (Getpeername (Udt u)) s) = Some (Inr (e, t))"
    by (auto simp: start_child_def bindO_eq_Inr)
  have t: "calls_of closes t = calls_of closes s"
    using server_handshake_closes [OF h assms(2)] by simp
  note args = server_handshake_args [OF h]
  show ?thesis
  proof (cases e)
    case (Relay args)
    with assms(1) h obtain t' where "run_threads os dm args sched t = Some (Inr t')"
        and "s' = finish_child os noisy args t'"
      by (auto simp: start_child_def bindO_eq_Inr)
    with t Relay args [of args] run_threads_joined [of os dm args sched t t'] show ?thesis
      by (intro exI [of _ e] exI [of _ t])
        (simp add: h finish_child_def close_both_def run_schedule_closes relay_start_def Let_def)
  next
    case (Broken args)
    with assms(1) h t args [of args] show ?thesis
      by (intro exI [of _ e] exI [of _ t])
        (auto simp: start_child_def finish_child_def close_both_def Let_def)
  next
    case Returned
    with assms(1) h t show ?thesis by (auto simp: start_child_def)
  qed
qed

theorem server_child_closes_witness:
  "(\<exists>s'. start_child script sample_config 20 True SERVER 5 (replicate 8 0) 0 [] fresh_statics
       (start [Ret 0, Ret 9, Data [5, 1, 0, 80, 10, 0, 0, 1]]) = Some (Inr (fresh_statics, s')) \<and>
     calls_of closes s' = [])"
proof -
  let ?s = "sys_do script (Getpeername (Udt 5)) (start [Ret 0, Ret 9, Data [5, 1, 0, 80, 10, 0, 0, 1]])"
  obtain s' where h: "server_handshake script sample_config 5 (replicate 8 0) 0 ?s =
      Some (Inr (Returned, s'))"
    by (simp add: server_handshake_def run_simps Let_def)
  then have "start_child script sample_config 20 True SERVER 5 (replicate 8 0) 0 [] fresh_statics
       (start [Ret 0, Ret 9, Data [5, 1, 0, 80, 10, 0, 0, 1]]) = Some (Inr (fresh_statics, s'))"
    by (simp add: start_child_def)
  from server_child_closes [OF this] h this show ?thesis
    by (auto simp: calls_of_def start_def)
qed

end
