(* ===== verification/Startup.thy ===== *)
theory Startup
  imports Relay_Threads
begin

text \<open>
  The first part of \<open>main\<close> in \<^verbatim>\<open>src/relay/udtrelay.cpp\<close>: the options, the positional
  arguments, the processes, the addresses and the listening socket. What \<open>getopt\<close> yields is
  an argument (the option letters with their texts, and the words that are left), and so is
  \<open>getaddrinfo\<close>. A call of \<open>log_die\<close> or \<open>exit\<close> is \<open>Exited\<close>, and a \<open>return\<close> from \<open>main\<close> is the
  exit with its value. The options that are compiled in only under a macro (\<open>-A\<close>, \<open>-P\<close>,
  \<open>-c\<close>) fall to the default branch.
\<close>


section \<open>Options\<close>

record options =
  o_net_access :: int
  o_debug_level :: int
  o_dump_message :: int
  o_track :: bool
  o_rendezvous :: bool
  o_demonize :: bool
  o_mode :: mode
  o_rzv_lport :: string
  o_rzv_rport :: string
  o_udt :: udt_options

definition initial_options :: options where
  "initial_options = \<lparr>o_net_access = 0, o_debug_level = 0, o_dump_message = 0, o_track = False,
     o_rendezvous = False, o_demonize = False, o_mode = DUAL, o_rzv_lport = '''',
     o_rzv_rport = '''', o_udt = Map.empty\<rparr>"

definition MAX_NAME_SZ :: nat where
  "MAX_NAME_SZ = 128"

text \<open>
  \<open>-R\<close>: \<open>sscanf(optarg, "%[^:]:%[^:]", lport, rport)\<close> without widths, into arrays of
  \<open>MAX_NAME_SZ + 1\<close> bytes, and then the assignment \<open>c = 1\<close> as a condition.
\<close>

definition not_colon :: "char \<Rightarrow> bool" where
  "not_colon ch \<longleftrightarrow> ch \<noteq> CHR '':''"

definition rendezvous_ports :: "string \<Rightarrow> string \<Rightarrow> (string \<times> string) result" where
  "rendezvous_ports optarg rport0 =
     (let lport = takeWhile not_colon optarg;
          rest = takeWhile not_colon (tl (dropWhile not_colon optarg));
          rport = (if rest = [] then rport0 else rest)
      in if lport = [] then Inl (Exited 1)
         else if MAX_NAME_SZ < length lport \<or> MAX_NAME_SZ < length rest
         then Inl (Fault Out_of_bounds)
         else let c = (1 :: int)
              in Inr (lport, if c \<noteq> 0 then lport else rport))"

definition handle_option :: "char \<Rightarrow> string \<Rightarrow> options \<Rightarrow> options result" where
  "handle_option c optarg opts =
     (if c = CHR ''h'' then Inl (Exited 0)
      else if c = CHR ''N'' then Inr (opts\<lparr>o_net_access := o_net_access opts + 1\<rparr>)
      else if c = CHR ''d'' then Inr (opts\<lparr>o_debug_level := o_debug_level opts + 1\<rparr>)
      else if c = CHR ''X'' then
        (let n = atoi optarg
         in if n \<le> 0 \<or> n > 10000 then Inl (Exited 1) else Inr (opts\<lparr>o_dump_message := n\<rparr>))
      else if c = CHR ''D'' then Inr (opts\<lparr>o_demonize := True\<rparr>)
      else if c = CHR ''L'' then Inr (opts\<lparr>o_track := True\<rparr>)
      else if c = CHR ''C'' then
        (if o_mode opts \<noteq> DUAL then Inl (Exited 1) else Inr (opts\<lparr>o_mode := CLIENT\<rparr>))
      else if c = CHR ''S'' then
        (if o_mode opts \<noteq> DUAL then Inl (Exited 1) else Inr (opts\<lparr>o_mode := SERVER\<rparr>))
      else if c = CHR ''R'' then
        bindR (rendezvous_ports optarg (o_rzv_rport opts))
          (\<lambda>(l, r). Inr (opts\<lparr>o_rendezvous := True, o_rzv_lport := l, o_rzv_rport := r\<rparr>))
      else if c = CHR ''U'' then
        bindR (parse_udt_option optarg (o_udt opts)) (\<lambda>u. Inr (opts\<lparr>o_udt := u\<rparr>))
      else if c = CHR ''?'' then Inl (Exited 1)
      else Inr opts)"

fun handle_options :: "(char \<times> string) list \<Rightarrow> options \<Rightarrow> options result" where
  "handle_options [] opts = Inr opts"
| "handle_options ((c, optarg) # rest) opts =
     bindR (handle_option c optarg opts) (handle_options rest)"

definition settle_debug :: "options \<Rightarrow> options" where
  "settle_debug opts =
     (let d1 = (if o_debug_level opts > 3 then 3 else o_debug_level opts);
          d2 = (if o_dump_message opts > 0 then 3 else d1);
          m = (if d2 = 3 \<and> o_dump_message opts = 0 then 20 else o_dump_message opts)
      in opts\<lparr>o_debug_level := d2, o_dump_message := m\<rparr>)"


section \<open>Positional arguments\<close>

record names =
  socks_port :: string
  listen_port :: string
  peer_host :: string
  remote_port :: string

text \<open>
  \<open>sscanf(argv[optind+2], "%128[^:]:%128s", sPeer_addr, sPeer_remote_port)\<close>; what is not
  matched keeps its initial value, the empty string.
\<close>

definition scan_peer :: "string \<Rightarrow> string \<times> string" where
  "scan_peer arg =
     (let host = take MAX_NAME_SZ (takeWhile not_colon arg);
          rest = drop (length host) arg
      in if host = [] then ('''', '''')
         else if rest \<noteq> [] \<and> hd rest = CHR '':''
         then (host, take MAX_NAME_SZ (takeWhile (\<lambda>c. \<not> is_space c) (dropWhile is_space (tl rest))))
         else (host, ''''))"

definition positional :: "string list \<Rightarrow> names result" where
  "positional args =
     (if length args = 0 then Inl (Exited 1)
      else if 3 > length args then Inl (Exited 1)
      else
        let lport = take MAX_NAME_SZ (args ! 1);
            (host, rport) = scan_peer (args ! 2)
        in Inr \<lparr>socks_port = take MAX_NAME_SZ (args ! 0), listen_port = lport, peer_host = host,
                remote_port = (if rport = [] then lport else rport)\<rparr>)"

text \<open>\<open>main\<close> from the option loop to the positional arguments.\<close>

definition command_line ::
  "'w os \<Rightarrow> (char \<times> string) list \<Rightarrow> string list \<Rightarrow> 'w sys \<Rightarrow> (options \<times> names \<times> 'w sys) result"
  where
  "command_line os getopts args s =
     bindR (handle_options getopts initial_options) (\<lambda>opts.
       let (rc, s1) = sys_num os Setpgid s
       in if rc < 0 then Inl (Exited 1)
          else bindR (positional args) (\<lambda>n. Inr (settle_debug opts, n, s1)))"


section \<open>Processes\<close>

text \<open>What a process goes on as, after the forks: a server of one direction, or not at all.\<close>

datatype 'w role = Serve mode "'w sys" | Ends int "'w sys"

definition demonize :: "'w os \<Rightarrow> options \<Rightarrow> 'w sys \<Rightarrow> 'w role" where
  "demonize os opts s =
     (if o_demonize opts then
        let (pid, s1) = sys_num os Fork s
        in if pid = 0 then Serve (o_mode opts) (sys_do os Setsid s1)
           else if pid = -1 then Ends 1 s1
           else Ends 0 s1
      else Serve (o_mode opts) s)"

abbreviation (input) SIGTERM :: int where "SIGTERM \<equiv> 15"

partial_function (option) wait_loop :: "'w os \<Rightarrow> 'w sys \<Rightarrow> (int \<times> 'w sys) option" where
  "wait_loop os s =
     (let s1 = sys_do os Setpgid s;
          (pid, s2) = sys_num os Wait s1
      in if pid > 0 then Some (pid, s2)
         else if errno s2 = EINTR then wait_loop os s2
         else Some (pid, s2))"

partial_function (option) reap_loop :: "'w os \<Rightarrow> 'w sys \<Rightarrow> 'w sys option" where
  "reap_loop os s =
     (case sys_num os Wait s of (pid, s1) \<Rightarrow> if pid \<noteq> -1 then reap_loop os s1 else Some s1)"

text \<open>\<open>exit_handler\<close>, without its debug message; \<open>log_die("")\<close> is its last call.\<close>

definition exit_handler :: "'w os \<Rightarrow> 'w sys \<Rightarrow> 'w role option" where
  "exit_handler os s =
     (case reap_loop os (sys_do os (Kill 0 SIGTERM) s) of
        None \<Rightarrow> None
      | Some s1 \<Rightarrow> Some (Ends 1 (sys_do os (Say LOG_ERR '''') s1)))"

definition supervise :: "'w os \<Rightarrow> int \<Rightarrow> int \<Rightarrow> 'w sys \<Rightarrow> 'w role option" where
  "supervise os server_pid client_pid s =
     (case wait_loop os s of
        None \<Rightarrow> None
      | Some (pid, s1) \<Rightarrow>
          let died = Say LOG_NOTICE ''%s server died. exiting.'';
              s2 = (if pid = server_pid then sys_do os died s1 else s1);
              s3 = (if pid = client_pid then sys_do os died s2 else s2)
          in exit_handler os s3)"

definition fork_servers :: "'w os \<Rightarrow> mode \<Rightarrow> 'w sys \<Rightarrow> 'w role option" where
  "fork_servers os mode s =
     (let (server_pid, s1) = (if mode = DUAL \<or> mode = SERVER then sys_num os Fork s else (0, s))
      in if (mode = DUAL \<or> mode = SERVER) \<and> server_pid = -1
         then Some (Ends 1 (sys_do os (Say LOG_ERR ''% server fork failed.'') s1))
         else if (mode = DUAL \<or> mode = SERVER) \<and> server_pid = 0 then Some (Serve SERVER s1)
         else
           let (client_pid, s2) = (if mode = DUAL \<or> mode = CLIENT then sys_num os Fork s1 else (0, s1))
           in if (mode = DUAL \<or> mode = CLIENT) \<and> client_pid = -1
              then Some (Ends 1 (sys_do os (Say LOG_ERR ''% server fork failed.'') s2))
              else if (mode = DUAL \<or> mode = CLIENT) \<and> client_pid = 0 then Some (Serve CLIENT s2)
              else supervise os server_pid client_pid s2)"


section \<open>Addresses and the listening socket\<close>

record addresses =
  serv_addr :: sockaddr
  a_peer :: sockaddr
  a_rzv_local :: sockaddr
  a_rzv_remote :: sockaddr

definition lookup_addr ::
  "(string option \<Rightarrow> string \<Rightarrow> sockaddr option) \<Rightarrow> string option \<Rightarrow> string \<Rightarrow> sockaddr result" where
  "lookup_addr getaddrinfo host port =
     (case getaddrinfo host port of None \<Rightarrow> Inl (Exited 1) | Some a \<Rightarrow> Inr a)"

definition resolve ::
  "(string option \<Rightarrow> string \<Rightarrow> sockaddr option) \<Rightarrow> mode \<Rightarrow> options \<Rightarrow> names \<Rightarrow> addresses result" where
  "resolve getaddrinfo mode opts n =
     bindR (lookup_addr getaddrinfo None (if mode = SERVER then listen_port n else socks_port n))
       (\<lambda>serv. bindR (lookup_addr getaddrinfo (Some (peer_host n)) (remote_port n))
         (\<lambda>peer.
           if o_rendezvous opts then
             bindR (lookup_addr getaddrinfo None (o_rzv_lport opts))
               (\<lambda>l. bindR (lookup_addr getaddrinfo (Some (peer_host n)) (o_rzv_rport opts))
                 (\<lambda>r. Inr \<lparr>serv_addr = serv, a_peer = peer, a_rzv_local = l, a_rzv_remote = r\<rparr>))
           else Inr \<lparr>serv_addr = serv, a_peer = peer, a_rzv_local = inaddr_any,
                     a_rzv_remote = inaddr_any\<rparr>))"

text \<open>The listening socket: its number, or the value that \<open>main\<close> returns. A rendezvous
  server has none.\<close>

definition open_listener ::
  "'w os \<Rightarrow> mode \<Rightarrow> config \<Rightarrow> sockaddr \<Rightarrow> udp_statics \<Rightarrow> 'w sys \<Rightarrow>
     (int \<times> udp_statics \<times> 'w sys) result" where
  "open_listener os mode cfg serv st s =
     (if mode = SERVER then
        (if \<not> is_rendezvous cfg then
           let (fd, s1) = sys_num os (Socket Udt_kind) s
           in bindR (relay_setsockopt os fd (opt_order cfg) (udt_opts cfg) (is_rendezvous cfg) st s1)
                (\<lambda>(st1, s2).
                   let (rb, s3) = sys_num os (Bind (Udt fd) serv) s2
                   in if rb = -1 then Inl (Exited 0)
                      else let (rl, s4) = sys_num os (Listen (Udt fd) 10) s3
                           in if rl = -1 then Inl (Exited 0)
                              else Inr (fd, st1,
                                sys_do os (Say LOG_INFO ''accepting %s connections at port: %s'') s4))
         else Inr (-1, st, s))
      else
        let (fd, s1) = sys_num os (Socket Tcp_kind) s;
            (ro, s2) = sys_num os (Set_so fd SO_REUSEADDR 1 4) s1
        in if ro \<noteq> 0 then Inl (Exited 1)
           else
             let (rb, s3) = sys_num os (Bind (Tcp fd) serv) s2
             in if rb = -1 then Inl (Exited 0)
                else let (rl, s4) = sys_num os (Listen (Tcp fd) 10) s3
                     in if rl \<noteq> 0 then Inl (Exited 0)
                        else Inr (fd, st,
                          sys_do os (Say LOG_INFO ''accepting %s connections at port: %s'') s4))"

section \<open>What the options mean\<close>

definition letters :: "(char \<times> string) list \<Rightarrow> string" where
  "letters opts = map fst opts"

text \<open>The arguments of the options with a letter, and the effect of a sequence of \<open>-U\<close> arguments.\<close>

definition args_of :: "char \<Rightarrow> (char \<times> string) list \<Rightarrow> string list" where
  "args_of c getopts = map snd (filter (\<lambda>g. fst g = c) getopts)"

fun udt_args :: "string list \<Rightarrow> udt_options \<Rightarrow> udt_options result" where
  "udt_args [] u = Inr u"
| "udt_args (t # ts) u = bindR (parse_udt_option t u) (udt_args ts)"

text \<open>What one option can change.\<close>

lemma handle_option_effect:
  assumes "handle_option c optarg opts = Inr opts'"
  shows "o_net_access opts' = o_net_access opts + (if c = CHR ''N'' then 1 else 0)"
    and "o_debug_level opts' = o_debug_level opts + (if c = CHR ''d'' then 1 else 0)"
    and "c \<noteq> CHR ''h'' \<and> c \<noteq> CHR ''?''"
    and "o_mode opts' = (if c = CHR ''C'' then CLIENT else if c = CHR ''S'' then SERVER else o_mode opts)"
    and "c = CHR ''C'' \<or> c = CHR ''S'' \<Longrightarrow> o_mode opts = DUAL"
    and "o_track opts' \<longleftrightarrow> o_track opts \<or> c = CHR ''L''"
    and "o_demonize opts' \<longleftrightarrow> o_demonize opts \<or> c = CHR ''D''"
    and "o_rendezvous opts' \<longleftrightarrow> o_rendezvous opts \<or> c = CHR ''R''"
    and "0 \<le> o_dump_message opts \<and> o_dump_message opts \<le> 10000 \<Longrightarrow>
      0 \<le> o_dump_message opts' \<and> o_dump_message opts' \<le> 10000"
    and "o_rzv_rport opts = o_rzv_lport opts \<Longrightarrow> o_rzv_rport opts' = o_rzv_lport opts'"
    and "o_dump_message opts' = (if c = CHR ''X'' then atoi optarg else o_dump_message opts)"
    and "c = CHR ''X'' \<Longrightarrow> 0 < atoi optarg \<and> atoi optarg \<le> 10000"
    and "o_rzv_lport opts' = (if c = CHR ''R'' then takeWhile not_colon optarg else o_rzv_lport opts)"
    and "c = CHR ''U'' \<Longrightarrow> parse_udt_option optarg (o_udt opts) = Inr (o_udt opts')"
    and "c \<noteq> CHR ''U'' \<Longrightarrow> o_udt opts' = o_udt opts"
  using assms
  by (auto simp: handle_option_def bindR_eq_Inr rendezvous_ports_def Let_def split: if_splits)

lemma handle_options_values:
  assumes "handle_options gs opts = Inr opts'"
  shows "o_dump_message opts' = (if args_of (CHR ''X'') gs = [] then o_dump_message opts
      else atoi (last (args_of (CHR ''X'') gs))) \<and>
    (\<forall>t \<in> set (args_of (CHR ''X'') gs). 0 < atoi t \<and> atoi t \<le> 10000) \<and>
    o_rzv_lport opts' = (if args_of (CHR ''R'') gs = [] then o_rzv_lport opts
      else takeWhile not_colon (last (args_of (CHR ''R'') gs))) \<and>
    udt_args (args_of (CHR ''U'') gs) (o_udt opts) = Inr (o_udt opts')"
  using assms
proof (induction gs arbitrary: opts)
  case Nil
  then show ?case by (simp add: args_of_def)
next
  case (Cons g gs)
  obtain c t where g: "g = (c, t)" by fastforce
  with Cons.prems obtain o1 where 1: "handle_option c t opts = Inr o1"
      and 2: "handle_options gs o1 = Inr opts'"
    by (auto simp: bindR_eq_Inr)
  have a: "args_of c' (g # gs) = (if c = c' then t # args_of c' gs else args_of c' gs)" for c'
    by (simp add: args_of_def g)
  from handle_option_effect(11-15) [OF 1] Cons.IH [OF 2] show ?case
    by (auto simp: a split: if_splits)
qed

lemma handle_options_effect:
  assumes "handle_options gs opts = Inr opts'"
  shows "o_net_access opts' = o_net_access opts + int (count_list (letters gs) (CHR ''N'')) \<and>
    o_debug_level opts' = o_debug_level opts + int (count_list (letters gs) (CHR ''d'')) \<and>
    CHR ''h'' \<notin> set (letters gs) \<and> CHR ''?'' \<notin> set (letters gs) \<and>
    (o_track opts' \<longleftrightarrow> o_track opts \<or> CHR ''L'' \<in> set (letters gs)) \<and>
    (o_demonize opts' \<longleftrightarrow> o_demonize opts \<or> CHR ''D'' \<in> set (letters gs)) \<and>
    (o_rendezvous opts' \<longleftrightarrow> o_rendezvous opts \<or> CHR ''R'' \<in> set (letters gs)) \<and>
    (0 \<le> o_dump_message opts \<and> o_dump_message opts \<le> 10000 \<longrightarrow>
      0 \<le> o_dump_message opts' \<and> o_dump_message opts' \<le> 10000) \<and>
    (o_rzv_rport opts = o_rzv_lport opts \<longrightarrow> o_rzv_rport opts' = o_rzv_lport opts')"
  using assms
proof (induction gs arbitrary: opts)
  case Nil
  then show ?case by (simp add: letters_def)
next
  case (Cons g gs)
  obtain c t where g: "g = (c, t)" by fastforce
  with Cons.prems obtain o1 where 1: "handle_option c t opts = Inr o1"
      and 2: "handle_options gs o1 = Inr opts'"
    by (auto simp: bindR_eq_Inr)
  from handle_option_effect [OF 1] Cons.IH [OF 2] show ?case
    by (simp add: letters_def g) blast
qed

text \<open>At most one of \<open>-C\<close> and \<open>-S\<close> was given, once, and it decides the mode.\<close>

lemma handle_options_mode:
  assumes "handle_options gs opts = Inr opts'"
  shows "filter (\<lambda>c. c = CHR ''C'' \<or> c = CHR ''S'') (letters gs) =
      (if o_mode opts' = o_mode opts then []
       else if o_mode opts' = CLIENT then ''C'' else ''S'') \<and>
    (o_mode opts' \<noteq> o_mode opts \<longrightarrow> o_mode opts = DUAL)"
  using assms
proof (induction gs arbitrary: opts)
  case Nil
  then show ?case by (simp add: letters_def)
next
  case (Cons g gs)
  obtain c t where g: "g = (c, t)" by fastforce
  with Cons.prems obtain o1 where 1: "handle_option c t opts = Inr o1"
      and 2: "handle_options gs o1 = Inr opts'"
    by (auto simp: bindR_eq_Inr)
  from handle_option_effect(4,5) [OF 1] Cons.IH [OF 2] show ?case
    by (auto simp: letters_def g split: if_splits)
qed

text \<open>
  The types that the rest of the program relies on: the UDT options are those of the table,
  with 32-bit values; the texts fit the arrays they are stored in; the levels are in the
  ranges that their uses assume.
\<close>

definition udt_options_typed :: "udt_options \<Rightarrow> bool" where
  "udt_options_typed u \<longleftrightarrow>
     (\<forall>code v. u code = Some v \<longrightarrow> code \<in> snd ` set UDT_OPTIONS_LIST \<and> i32 v = v)"

definition options_typed :: "options \<Rightarrow> bool" where
  "options_typed opts \<longleftrightarrow>
     udt_options_typed (o_udt opts) \<and> 0 \<le> o_net_access opts \<and> 0 \<le> o_debug_level opts \<and>
     0 \<le> o_dump_message opts \<and> o_dump_message opts \<le> 10000 \<and>
     length (o_rzv_lport opts) \<le> MAX_NAME_SZ \<and> length (o_rzv_rport opts) \<le> MAX_NAME_SZ \<and>
     (o_rendezvous opts \<longrightarrow> o_rzv_lport opts \<noteq> '''') \<and> CHR '':'' \<notin> set (o_rzv_lport opts)"

definition names_typed :: "names \<Rightarrow> bool" where
  "names_typed n \<longleftrightarrow>
     length (socks_port n) \<le> MAX_NAME_SZ \<and> length (listen_port n) \<le> MAX_NAME_SZ \<and>
     length (peer_host n) \<le> MAX_NAME_SZ \<and> length (remote_port n) \<le> MAX_NAME_SZ \<and>
     CHR '':'' \<notin> set (peer_host n)"

lemma store_option_typed:
  assumes "store_option table nm val u = Inr u'" and "udt_options_typed u"
    and "set table \<subseteq> set UDT_OPTIONS_LIST" and "\<And>v. val = Some v \<Longrightarrow> i32 v = v"
  shows "udt_options_typed u'"
  using assms
proof (induction table nm val u rule: store_option.induct)
  case (2 name code rest nm val u)
  then have "code \<in> snd ` set UDT_OPTIONS_LIST" by force
  then have "udt_options_typed (u(code \<mapsto> v))" if "val = Some v" for v
    using 2 that by (simp add: udt_options_typed_def)
  with 2 show ?case by (auto split: if_splits option.splits)
qed simp

lemma scan_int_typed: "scan_int t = Some (v, rest) \<Longrightarrow> i32 v = v"
  by (auto simp: scan_int_def Let_def split: option.splits)

lemma parse_udt_option_typed:
  assumes "parse_udt_option t u = Inr u'" and "udt_options_typed u"
  shows "udt_options_typed u'"
  using assms
  by (auto simp: parse_udt_option_def Let_def scan_int_typed split: if_splits option.splits
      elim!: store_option_typed)

lemma handle_option_typed:
  assumes "handle_option c optarg opts = Inr opts'" and "options_typed opts"
  shows "options_typed opts'"
proof (cases "c = CHR ''R''")
  case True
  with assms obtain l r where lr: "rendezvous_ports optarg (o_rzv_rport opts) = Inr (l, r)"
      "opts' = opts\<lparr>o_rendezvous := True, o_rzv_lport := l, o_rzv_rport := r\<rparr>"
    by (auto simp: handle_option_def bindR_eq_Inr)
  then have "l = takeWhile not_colon optarg" "r = l" "l \<noteq> []" "length l \<le> MAX_NAME_SZ"
    by (auto simp: rendezvous_ports_def Let_def split: if_splits)
  moreover from this(1) have "CHR '':'' \<notin> set l"
    by (auto dest: set_takeWhileD simp: not_colon_def)
  ultimately show ?thesis using assms(2) lr by (simp add: options_typed_def)
next
  case False
  with assms show ?thesis
    by (auto simp: handle_option_def options_typed_def bindR_eq_Inr Let_def
        split: if_splits elim: parse_udt_option_typed)
qed

lemma handle_options_typed:
  "handle_options gs opts = Inr opts' \<Longrightarrow> options_typed opts \<Longrightarrow> options_typed opts'"
  by (induction gs opts rule: handle_options.induct)
    (auto simp: bindR_eq_Inr intro: handle_option_typed)

lemma positional_typed: "positional args = Inr n \<Longrightarrow> names_typed n"
  by (auto simp: positional_def names_typed_def scan_peer_def Let_def not_colon_def
      split: if_splits prod.splits dest!: in_set_takeD set_takeWhileD)

lemma set_custom_typed:
  assumes "udt_options_typed u" and "c \<in> set (custom_calls sock order u)"
  shows "\<exists>code v. c = Set_udt sock code v \<and> code \<in> snd ` set UDT_OPTIONS_LIST \<and> i32 v = v"
proof -
  from assms(2) obtain code v where "u code = Some v" "c = Set_udt sock code v"
    by (auto simp: custom_calls_def split: option.splits)
  with assms(1) show ?thesis by (auto simp: udt_options_typed_def)
qed

section \<open>Properties\<close>

text \<open>C24: What an accepted command line means, option by option. The access level is the number
  of \<open>-N\<close> options; the mode is the one asked for by \<open>-C\<close> or \<open>-S\<close>, of which at most one was
  given, and otherwise both directions. Every \<open>-X\<close> has a number from 1 to 10000; the last one
  is the number of bytes that are dumped, and sets the debug level to 3; without one the level
  is the number of \<open>-d\<close>, at most 3, and at level 3 20 bytes are dumped. \<open>-L\<close>, \<open>-D\<close> and \<open>-R\<close> set
  their flags; the local rendezvous port is the text of the last \<open>-R\<close> up to a colon, and, unlike
  the help text says, so is the remote one. The UDT options are those that the \<open>-U\<close> arguments
  set, in their order. Neither \<open>-h\<close> nor an unknown option was given, and the arguments are
  the positional ones.\<close>

theorem command_line_meaning:
  assumes "command_line os getopts args s = Inr (opts, n, s')"
  shows "o_net_access opts = int (count_list (letters getopts) (CHR ''N'')) \<and>
    count_list (letters getopts) (CHR ''C'') + count_list (letters getopts) (CHR ''S'') \<le> 1 \<and>
    o_mode opts = (if CHR ''C'' \<in> set (letters getopts) then CLIENT
                   else if CHR ''S'' \<in> set (letters getopts) then SERVER else DUAL) \<and>
    (\<forall>t \<in> set (args_of (CHR ''X'') getopts). 0 < atoi t \<and> atoi t \<le> 10000) \<and>
    o_debug_level opts = (if args_of (CHR ''X'') getopts \<noteq> [] then 3
                          else min 3 (int (count_list (letters getopts) (CHR ''d'')))) \<and>
    o_dump_message opts = (if args_of (CHR ''X'') getopts \<noteq> [] then atoi (last (args_of (CHR ''X'') getopts))
                           else if 3 \<le> count_list (letters getopts) (CHR ''d'') then 20 else 0) \<and>
    (o_track opts \<longleftrightarrow> CHR ''L'' \<in> set (letters getopts)) \<and>
    (o_demonize opts \<longleftrightarrow> CHR ''D'' \<in> set (letters getopts)) \<and>
    (o_rendezvous opts \<longleftrightarrow> CHR ''R'' \<in> set (letters getopts)) \<and>
    o_rzv_lport opts = (if args_of (CHR ''R'') getopts = [] then ''''
                        else takeWhile not_colon (last (args_of (CHR ''R'') getopts))) \<and>
    o_rzv_rport opts = o_rzv_lport opts \<and>
    udt_args (args_of (CHR ''U'') getopts) Map.empty = Inr (o_udt opts) \<and>
    CHR ''h'' \<notin> set (letters getopts) \<and> CHR ''?'' \<notin> set (letters getopts) \<and>
    positional args = Inr n"
proof -
  from assms obtain o1 where 1: "handle_options getopts initial_options = Inr o1"
      and 2: "opts = settle_debug o1" and n: "positional args = Inr n"
    by (cases "sys_num os Setpgid s")
      (auto simp: command_line_def bindR_eq_Inr Let_def split: if_splits)
  note e = handle_options_effect [OF 1] and m = handle_options_mode [OF 1]
    and v = handle_options_values [OF 1]
  define ls where "ls = letters getopts"
  define cs where "cs = filter (\<lambda>c. c = CHR ''C'' \<or> c = CHR ''S'') ls"
  have c: "CHR ''C'' \<in> set ls \<longleftrightarrow> CHR ''C'' \<in> set cs" "CHR ''S'' \<in> set ls \<longleftrightarrow> CHR ''S'' \<in> set cs"
      "count_list ls (CHR ''C'') + count_list ls (CHR ''S'') = length cs"
    by (simp_all add: cs_def) (induction ls, auto)
  have "cs = (if o_mode o1 = DUAL then [] else if o_mode o1 = CLIENT then ''C'' else ''S'')"
    using m by (simp add: cs_def ls_def initial_options_def)
  with c have mode: "length cs \<le> 1" "o_mode o1 = (if CHR ''C'' \<in> set ls then CLIENT
      else if CHR ''S'' \<in> set ls then SERVER else DUAL)"
    by (cases "o_mode o1"; simp)+
  define xs where "xs = args_of (CHR ''X'') getopts"
  have dump: "o_dump_message o1 = (if xs = [] then 0 else atoi (last xs))"
      "\<forall>t \<in> set xs. 0 < atoi t \<and> atoi t \<le> 10000"
    using v by (simp_all add: xs_def initial_options_def)
  then have pos: "xs \<noteq> [] \<Longrightarrow> 0 < atoi (last xs)" by simp
  have d: "o_debug_level o1 = int (count_list ls (CHR ''d''))"
    using e by (simp add: initial_options_def ls_def)
  have "o_debug_level opts = (if xs \<noteq> [] then 3 else min 3 (int (count_list ls (CHR ''d'')))) \<and>
      o_dump_message opts = (if xs \<noteq> [] then atoi (last xs) else if 3 \<le> count_list ls (CHR ''d'') then 20 else 0)"
  proof (cases "xs = []")
    case True
    then show ?thesis by (simp add: 2 settle_debug_def Let_def dump(1) d)
  next
    case False
    with pos show ?thesis by (simp add: 2 settle_debug_def Let_def dump(1))
  qed
  moreover have "o_net_access opts = o_net_access o1" "o_mode opts = o_mode o1" "o_track opts = o_track o1"
      "o_demonize opts = o_demonize o1" "o_rendezvous opts = o_rendezvous o1"
      "o_rzv_lport opts = o_rzv_lport o1" "o_rzv_rport opts = o_rzv_rport o1" "o_udt opts = o_udt o1"
    by (simp_all add: 2 settle_debug_def Let_def)
  ultimately show ?thesis
    using mode c(3) dump(2) e v n unfolding ls_def [symmetric] xs_def [symmetric]
    by (simp add: initial_options_def)
qed

theorem command_line_meaning_witness:
  "\<exists>opts n s'. command_line script [(CHR ''N'', ''''), (CHR ''C'', ''''), (CHR ''N'', ''''),
       (CHR ''d'', ''''), (CHR ''R'', ''9001:9002'')] [''1081'', ''9000'', ''site2''] (start [Ret 0]) =
       Inr (opts, n, s') \<and> o_net_access opts = 2 \<and> o_mode opts = CLIENT \<and> o_debug_level opts = 1 \<and>
     o_dump_message opts = 0 \<and> o_rzv_lport opts = ''9001'' \<and> o_rzv_rport opts = ''9001''"
proof -
  obtain opts n s' where r: "command_line script [(CHR ''N'', ''''), (CHR ''C'', ''''),
       (CHR ''N'', ''''), (CHR ''d'', ''''), (CHR ''R'', ''9001:9002'')]
       [''1081'', ''9000'', ''site2''] (start [Ret 0]) = Inr (opts, n, s')"
    by (simp add: command_line_def handle_option_def initial_options_def rendezvous_ports_def
        not_colon_def MAX_NAME_SZ_def positional_def scan_peer_def sys_num_def sys_call_def
        answer_def script_def start_def Let_def)
  from command_line_meaning [OF r] r show ?thesis by (simp add: letters_def args_of_def not_colon_def)
qed

text \<open>The remote rendezvous port of \<open>-R <lp>:<rp>\<close> is ignored: the assignment in the
  condition after the scan makes the local port replace it. A name longer than the array
  overruns it.\<close>

theorem rendezvous_remote_port_ignored:
  assumes "l \<noteq> []" and "CHR '':'' \<notin> set l" and "CHR '':'' \<notin> set r"
  shows "(length l \<le> 128 \<and> length r \<le> 128 \<longrightarrow>
      handle_option (CHR ''R'') (l @ '':'' @ r) opts =
        Inr (opts\<lparr>o_rendezvous := True, o_rzv_lport := l, o_rzv_rport := l\<rparr>)) \<and>
    (128 < length l \<longrightarrow>
      handle_option (CHR ''R'') (l @ '':'' @ r) opts = Inl (Fault Out_of_bounds))"
proof -
  have l: "\<forall>c \<in> set l. not_colon c" and r: "\<forall>c \<in> set r. not_colon c"
    using assms(2,3) by (auto simp: not_colon_def)
  have "takeWhile not_colon (l @ '':'' @ r) = l" "dropWhile not_colon (l @ '':'' @ r) = '':'' @ r"
    using l by (simp_all add: not_colon_def takeWhile_append2 dropWhile_append2)
  moreover have tr: "takeWhile not_colon r = r" using r by (rule takeWhile_eq_all_conv [THEN iffD2])
  ultimately show ?thesis using assms(1)
    by (simp add: tr handle_option_def rendezvous_ports_def MAX_NAME_SZ_def Let_def)
qed

theorem rendezvous_remote_port_ignored_witness:
  "handle_option (CHR ''R'') (''9001'' @ '':'' @ ''9002'') initial_options =
     Inr (initial_options\<lparr>o_rendezvous := True, o_rzv_lport := ''9001'', o_rzv_rport := ''9001''\<rparr>)"
  using rendezvous_remote_port_ignored [of "''9001''" "''9002''" initial_options] by simp

text \<open>C17: An accepted command line leaves the variables of \<open>main\<close> well typed: texts that fit
  their arrays, UDT options of the table with 32-bit values only, a host without a colon;
  so every call by which the options reach a UDT socket is one the library documents.\<close>

theorem command_line_typed:
  assumes "command_line os getopts args s = Inr (opts, n, s')"
  shows "options_typed opts \<and> names_typed n \<and>
    (\<exists>cs. map fst (log (set_custom os sock order (o_udt opts) t)) = map fst (log t) @ cs \<and>
       (\<forall>c \<in> set cs. \<exists>code v. c = Set_udt sock code v \<and>
          code \<in> snd ` set UDT_OPTIONS_LIST \<and> i32 v = v))"
proof -
  from assms obtain o1 where o1: "handle_options getopts initial_options = Inr o1"
      "opts = settle_debug o1" "positional args = Inr n"
    by (cases "sys_num os Setpgid s")
      (auto simp: command_line_def bindR_eq_Inr Let_def split: if_splits)
  have "options_typed initial_options"
    by (simp add: options_typed_def initial_options_def udt_options_typed_def)
  with handle_options_typed [OF o1(1)] have "options_typed opts"
    by (auto simp: o1(2) options_typed_def settle_debug_def Let_def)
  moreover from this have "udt_options_typed (o_udt opts)" by (simp add: options_typed_def)
  then have "\<forall>c \<in> set (custom_calls sock order (o_udt opts)). \<exists>code v. c = Set_udt sock code v \<and>
      code \<in> snd ` set UDT_OPTIONS_LIST \<and> i32 v = v"
    by (intro ballI set_custom_typed)
  ultimately show ?thesis
    using positional_typed [OF o1(3)] set_custom_calls [of os sock order "o_udt opts" t]
    by (intro conjI exI [of _ "custom_calls sock order (o_udt opts)"])
qed

theorem command_line_typed_witness:
  "\<exists>opts n s'. command_line script [(CHR ''U'', ''UDP_RCVBUF'' @ ''='' @ dec_nat 4 @ ''M'')]
       [''1081'', ''9000'', ''site2:9001''] (start [Ret 0]) = Inr (opts, n, s') \<and>
     o_udt opts = [UDP_RCVBUF \<mapsto> 4194304] \<and> remote_port n = ''9001'' \<and>
     options_typed opts \<and> names_typed n"
proof -
  have "parse_udt_option (''UDP_RCVBUF'' @ ''='' @ dec_nat 4 @ ''M'') Map.empty =
      Inr [UDP_RCVBUF \<mapsto> 4194304]"
    by (subst parse_named_value [where f = 1048576], simp_all add: is_name_char_def quantifier_def)
      (subst store_option_hit [where name = "''UDP_RCVBUF''" and code = UDP_RCVBUF],
        simp_all add: UDT_OPTIONS_LIST_def caseless_eq_def)
  then obtain opts n s' where r: "command_line script
       [(CHR ''U'', ''UDP_RCVBUF'' @ ''='' @ dec_nat 4 @ ''M'')]
       [''1081'', ''9000'', ''site2:9001''] (start [Ret 0]) = Inr (opts, n, s')"
      "o_udt opts = [UDP_RCVBUF \<mapsto> 4194304]" "remote_port n = ''9001''"
    by (auto simp: command_line_def handle_option_def initial_options_def settle_debug_def
        not_colon_def is_space_def MAX_NAME_SZ_def positional_def scan_peer_def sys_num_def
        sys_call_def answer_def script_def start_def Let_def)
  with command_line_typed [OF r(1)] show ?thesis by blast
qed

text \<open>The third argument is a host, with an optional port after a colon; without one,
  the remote port is the local peer port, the second argument.\<close>

theorem peer_argument_meaning:
  assumes "length host \<le> 128" and "host \<noteq> []" and "CHR '':'' \<notin> set host"
    and "length port \<le> 128" and "\<forall>c \<in> set port. \<not> is_space c" and "length lp \<le> 128"
  shows "positional [sp, lp, host] =
      Inr \<lparr>socks_port = take 128 sp, listen_port = lp, peer_host = host, remote_port = lp\<rparr> \<and>
    (port \<noteq> [] \<longrightarrow> positional [sp, lp, host @ '':'' @ port] =
      Inr \<lparr>socks_port = take 128 sp, listen_port = lp, peer_host = host, remote_port = port\<rparr>)"
proof -
  have h: "\<forall>c \<in> set host. not_colon c" using assms(3) by (auto simp: not_colon_def)
  have 1: "takeWhile not_colon host = host" using h by (rule takeWhile_eq_all_conv [THEN iffD2])
  have 2: "takeWhile not_colon (host @ '':'' @ port) = host"
    using h by (simp add: not_colon_def takeWhile_append2)
  have 3: "dropWhile is_space port = port" using assms(5) by (cases port) auto
  have 4: "takeWhile (\<lambda>c. \<not> is_space c) port = port"
    using assms(5) by (rule takeWhile_eq_all_conv [THEN iffD2])
  have "scan_peer host = (host, '''')"
    using assms(1,2) by (simp add: scan_peer_def 1 MAX_NAME_SZ_def)
  moreover have "scan_peer (host @ '':'' @ port) = (host, port)"
    unfolding scan_peer_def Let_def 2 using assms(1,2,4) by (simp add: 3 4 MAX_NAME_SZ_def)
  ultimately show ?thesis
    using assms(6) by (simp add: positional_def MAX_NAME_SZ_def Let_def)
qed

theorem peer_argument_meaning_witness:
  "positional [''1081'', ''9000'', ''site2'' @ '':'' @ ''9100''] =
     Inr \<lparr>socks_port = take 128 ''1081'', listen_port = ''9000'', peer_host = ''site2'',
          remote_port = ''9100''\<rparr>"
  using peer_argument_meaning [of "''site2''" "''9100''" "''9000''" "''1081''"]
  by (simp add: is_space_def)

definition kills :: "call \<Rightarrow> (int \<times> int) list" where
  "kills c = (case c of Kill p n \<Rightarrow> [(p, n)] | _ \<Rightarrow> [])"

lemma kills_simps [simp]:
  "kills Fork = []" "kills Wait = []" "kills Setpgid = []" "kills (Say p m) = []"
  "kills (Kill pid n) = [(pid, n)]"
  by (simp_all add: kills_def)

lemma wait_loop_kills:
  assumes "wait_loop os s = Some (pid, s')"
  shows "calls_of kills s' = calls_of kills s"
proof -
  have "calls_of kills (snd y) = calls_of kills t" if "wait_loop o1 t = Some y" for o1 :: "'a os" and t y
  proof (rule wait_loop.raw_induct
      [where P = "\<lambda>o1 t y. calls_of kills (snd y) = calls_of kills t", OF _ that])
    fix f and o1 :: "'a os" and t y
    assume IH: "\<And>o1 t y. f o1 t = Some y \<Longrightarrow> calls_of kills (snd y) = calls_of kills t"
      and eq: "(let s1 = sys_do o1 Setpgid t; (pid, s2) = sys_num o1 Wait s1
        in if pid > 0 then Some (pid, s2)
           else if errno s2 = EINTR then f o1 s2 else Some (pid, s2)) = Some y"
    obtain p s2 where w: "sys_num o1 Wait (sys_do o1 Setpgid t) = (p, s2)" by fastforce
    then have k: "calls_of kills s2 = calls_of kills t" using calls_of_num [OF w, of kills] by simp
    from eq w have "y = (p, s2) \<or> f o1 s2 = Some y" by (auto simp: Let_def split: if_splits)
    with IH [of o1 s2 y] k show "calls_of kills (snd y) = calls_of kills t" by auto
  qed
  from this [OF assms] show ?thesis by simp
qed

lemma reap_loop_end:
  assumes "reap_loop os s = Some s'"
  shows "calls_of kills s' = calls_of kills s \<and> (\<exists>l r. log s' = l @ [(Wait, r)] \<and> rv r = -1)"
proof -
  have "calls_of kills y = calls_of kills t \<and> (\<exists>l r. log y = l @ [(Wait, r)] \<and> rv r = -1)"
    if "reap_loop o1 t = Some y" for o1 :: "'a os" and t y
  proof (rule reap_loop.raw_induct
      [where P = "\<lambda>o1 t y. calls_of kills y = calls_of kills t \<and>
        (\<exists>l r. log y = l @ [(Wait, r)] \<and> rv r = -1)", OF _ that])
    fix f and o1 :: "'a os" and t y
    assume IH: "\<And>o1 t y. f o1 t = Some y \<Longrightarrow>
        calls_of kills y = calls_of kills t \<and> (\<exists>l r. log y = l @ [(Wait, r)] \<and> rv r = -1)"
      and eq: "(case sys_num o1 Wait t of (pid, s1) \<Rightarrow> if pid \<noteq> -1 then f o1 s1 else Some s1) = Some y"
    obtain r s1 where w: "sys_call o1 Wait t = (r, s1)" by fastforce
    then have n: "sys_num o1 Wait t = (rv r, s1)" by (simp add: sys_num_def)
    from calls_of_num [OF n, of kills] have "calls_of kills s1 = calls_of kills t" by simp
    with eq n IH [of o1 s1 y] sys_call_log [OF w]
    show "calls_of kills y = calls_of kills t \<and> (\<exists>l r. log y = l @ [(Wait, r)] \<and> rv r = -1)"
      by (auto split: if_splits)
  qed
  from this [OF assms] show ?thesis .
qed

text \<open>How \<open>exit_handler\<close> and the supervisor end, and what \<open>fork_servers\<close> can result in.\<close>

lemma exit_handler_ending:
  assumes "exit_handler os t = Some (Ends n t')"
  shows "n = 1 \<and> calls_of kills t' = calls_of kills t @ [(0, SIGTERM)] \<and>
    (\<exists>l q e. log t' = l @ [(Wait, q), (Say LOG_ERR '''', e)] \<and> rv q = -1)"
proof -
  from assms obtain u where u: "reap_loop os (sys_do os (Kill 0 SIGTERM) t) = Some u"
      and t': "t' = sys_do os (Say LOG_ERR '''') u" "n = 1"
    by (auto simp: exit_handler_def split: option.splits)
  from reap_loop_end [OF u] obtain l q where "log u = l @ [(Wait, q)]" "rv q = -1" by auto
  moreover obtain e where "log t' = log u @ [(Say LOG_ERR '''', e)]"
    using sys_do_log t'(1) by blast
  ultimately show ?thesis using reap_loop_end [OF u] t' by auto
qed

lemma supervise_ending:
  assumes "supervise os sp cp t = Some r"
  shows "\<exists>t'. r = Ends 1 t' \<and> calls_of kills t' = calls_of kills t @ [(0, SIGTERM)] \<and>
    (\<exists>l q e. log t' = l @ [(Wait, q), (Say LOG_ERR '''', e)] \<and> rv q = -1)"
proof -
  from assms obtain pid t1 t2 where w: "wait_loop os t = Some (pid, t1)"
      and e: "exit_handler os t2 = Some r" and k: "calls_of kills t2 = calls_of kills t1"
    by (auto simp: supervise_def Let_def split: option.splits prod.splits if_splits)
  from e obtain n t' where "r = Ends n t'"
    by (auto simp: exit_handler_def split: option.splits)
  with exit_handler_ending [of os t2 n t'] e k wait_loop_kills [OF w] show ?thesis by auto
qed

lemma fork_servers_cases:
  assumes "fork_servers os mode s = Some r"
  obtains (server) t where "r = Serve SERVER t" "mode = DUAL \<or> mode = SERVER"
      "calls_of kills t = calls_of kills s"
    | (client) t where "r = Serve CLIENT t" "mode = DUAL \<or> mode = CLIENT"
      "calls_of kills t = calls_of kills s"
    | (failed) t where "r = Ends 1 (sys_do os (Say LOG_ERR ''% server fork failed.'') t)"
      "calls_of kills t = calls_of kills s"
    | (parent) sp cp t where "supervise os sp cp t = Some r" "calls_of kills t = calls_of kills s"
proof -
  define f1 where "f1 = (if mode = DUAL \<or> mode = SERVER then sys_num os Fork s else (0, s))"
  obtain sp s1 where 1: "f1 = (sp, s1)" by fastforce
  define f2 where "f2 = (if mode = DUAL \<or> mode = CLIENT then sys_num os Fork s1 else (0, s1))"
  obtain cp s2 where 2: "f2 = (cp, s2)" by fastforce
  have k: "calls_of kills s1 = calls_of kills s" "calls_of kills s2 = calls_of kills s"
    using 1 2 calls_of_num [of os Fork s sp s1 kills] calls_of_num [of os Fork s1 cp s2 kills]
    by (auto simp: f1_def f2_def split: if_splits)
  note fork = assms [unfolded fork_servers_def f1_def [symmetric] 1 Let_def prod.case
      f2_def [symmetric] 2]
  have five: "A \<and> x1 = z \<or> B \<and> x2 = z \<or> C \<and> x3 = z \<or> D \<and> x4 = z \<or> x5 = z"
    if "(if A then x1 else if B then x2 else if C then x3 else if D then x4 else x5) = z"
    for A B C D and x1 x2 x3 x4 x5 z :: "'a role option"
    using that by (auto split: if_split_asm)
  have fork5: "(mode = DUAL \<or> mode = SERVER) \<and> sp = -1 \<and> r = Ends 1 (sys_do os (Say LOG_ERR ''% server fork failed.'') s1) \<or>
      (mode = DUAL \<or> mode = SERVER) \<and> r = Serve SERVER s1 \<or>
      r = Ends 1 (sys_do os (Say LOG_ERR ''% server fork failed.'') s2) \<or>
      (mode = DUAL \<or> mode = CLIENT) \<and> r = Serve CLIENT s2 \<or>
      supervise os sp cp s2 = Some r"
    using five [OF fork] unfolding option.inject by (elim disjE conjE; hypsubst; intro TrueI | blast)
  then show ?thesis using that k by metis
qed

text \<open>After the forks a process either serves exactly one direction, one that the mode
  asks for, or it is the supervisor or failed to fork. The supervisor, if it ends, ends with
  status 1 after it sent one termination signal to its process group and waited until no
  child was left: when one of the two servers dies, the other one is stopped too.\<close>

theorem supervisor_stops_group:
  assumes "fork_servers os mode s = Some r"
  shows "case r of
      Serve m t \<Rightarrow> (m = SERVER \<or> m = CLIENT) \<and> (mode = DUAL \<or> m = mode) \<and>
        calls_of kills t = calls_of kills s
    | Ends n t \<Rightarrow> n = 1 \<and>
        (calls_of kills t = calls_of kills s \<and> fst (last (log t)) = Say LOG_ERR ''% server fork failed.'' \<or>
         calls_of kills t = calls_of kills s @ [(0, SIGTERM)] \<and>
         (\<exists>l q e. log t = l @ [(Wait, q), (Say LOG_ERR '''', e)] \<and> rv q = -1))"
  using assms
proof (cases rule: fork_servers_cases)
  case (failed t)
  then show ?thesis
    using sys_do_log [of os "Say LOG_ERR ''% server fork failed.''" t] by auto
next
  case (parent sp cp t)
  with supervise_ending [OF parent(1)] show ?thesis by auto
qed auto

theorem supervisor_stops_group_witness:
  "\<exists>t. fork_servers script DUAL (start [Ret 17, Ret 18, Ret 0, Ret 17, Ret 0, Ret 18, Fail 10]) =
      Some (Ends 1 t) \<and> calls_of kills t = [(0, SIGTERM)]"
proof -
  obtain t where r: "fork_servers script DUAL
      (start [Ret 17, Ret 18, Ret 0, Ret 17, Ret 0, Ret 18, Fail 10]) = Some (Ends 1 t)"
    by (simp add: fork_servers_def supervise_def exit_handler_def wait_loop.simps reap_loop.simps
        sys_num_def sys_do_def sys_call_def answer_def script_def start_def of_udt_def)
  have "fst (last (log t)) \<noteq> Say LOG_ERR ''% server fork failed.''"
    using supervisor_stops_group [OF r] r
    by (auto simp: fork_servers_def supervise_def exit_handler_def wait_loop.simps reap_loop.simps
        sys_num_def sys_do_def sys_call_def answer_def script_def start_def of_udt_def)
  with supervisor_stops_group [OF r] r show ?thesis
    by (auto simp: calls_of_def start_def)
qed

end
