(* ===== verification/Getopt.thy ===== *)
theory Getopt
  imports Startup
begin

text \<open>
  The words of the command line of \<^verbatim>\<open>src/relay/udtrelay.cpp\<close>: the option string of \<open>main\<close> and
  what \<open>getopt\<close> of the C library makes of the words with it, so that \<open>Startup\<close>, which takes
  the options one by one, can be applied to \<open>argv\<close>. \<open>Usage\<close> relates this to the help text.
\<close>


section \<open>The option string\<close>

definition optstring :: string where
  "optstring = ''hdDNLCSP:R:B:c:U:X:A:''"

datatype opt_kind = Flag | With_arg | Unknown_opt

fun letter_kind :: "string \<Rightarrow> char \<Rightarrow> opt_kind" where
  "letter_kind [] c = Unknown_opt"
| "letter_kind (x # xs) c =
     (if x = c \<and> c \<noteq> CHR '':'' then
        (if xs \<noteq> [] \<and> hd xs = CHR '':'' then With_arg else Flag)
      else letter_kind xs c)"


section \<open>Reading the words\<close>

text \<open>
  The letters of one word, without its dash: an option with an argument takes the rest of
  the word, or the next word if there is no rest. An unknown letter and a missing argument
  are reported as a question mark.
\<close>

fun word_options :: "string \<Rightarrow> string \<Rightarrow> string list \<Rightarrow> (char \<times> string) list \<times> string list" where
  "word_options ostr [] ws = ([], ws)"
| "word_options ostr (c # cs) ws =
     (case letter_kind ostr c of
        Unknown_opt \<Rightarrow> (let (opts, rest) = word_options ostr cs ws in ((CHR ''?'', '''') # opts, rest))
      | Flag \<Rightarrow> (let (opts, rest) = word_options ostr cs ws in ((c, '''') # opts, rest))
      | With_arg \<Rightarrow>
          (if cs \<noteq> [] then ([(c, cs)], ws)
           else case ws of
                  [] \<Rightarrow> ([(CHR ''?'', '''')], [])
                | w # rest \<Rightarrow> ([(c, w)], rest)))"

definition is_option_word :: "string \<Rightarrow> bool" where
  "is_option_word w \<longleftrightarrow> w \<noteq> [] \<and> hd w = CHR ''-'' \<and> tl w \<noteq> []"

lemma word_options_shorter:
  "word_options ostr w ws = (opts, rest) \<Longrightarrow> length rest \<le> length ws"
  by (induction ostr w ws arbitrary: opts rule: word_options.induct)
    (auto split: opt_kind.splits prod.splits if_splits list.splits)

text \<open>
  All words, up to \<open>--\<close>. The C library of Linux goes on after a word that is not an option
  (\<open>permute\<close>), others stop there.
\<close>

function getopt_words ::
  "bool \<Rightarrow> string \<Rightarrow> string list \<Rightarrow> (char \<times> string) list \<times> string list" where
  "getopt_words permute ostr [] = ([], [])"
| "getopt_words permute ostr (w # ws) =
     (if w = ''--'' then ([], ws)
      else if is_option_word w then
        (let (opts, ws1) = word_options ostr (tl w) ws;
             (opts', rest) = getopt_words permute ostr ws1
         in (opts @ opts', rest))
      else if permute then
        (let (opts, rest) = getopt_words permute ostr ws in (opts, w # rest))
      else ([], w # ws))"
  by pat_completeness auto
termination
  by (relation "measure (\<lambda>(permute, ostr, ws). length ws)")
    (auto dest: word_options_shorter [OF sym] simp: less_Suc_eq_le)

text \<open>\<open>main\<close> from its words to the positional arguments.\<close>

definition command_words ::
  "'w os \<Rightarrow> bool \<Rightarrow> string list \<Rightarrow> 'w sys \<Rightarrow> (options \<times> names \<times> 'w sys) result" where
  "command_words os permute argv s =
     (let (opts, args) = getopt_words permute optstring argv in command_line os opts args s)"


section \<open>Lemmas\<close>

lemma dash_unknown [simp]: "letter_kind optstring (CHR ''-'') = Unknown_opt"
  by (simp add: optstring_def)

lemma getopt_operands:
  "\<forall>w \<in> set args. \<not> is_option_word w \<and> w \<noteq> ''--'' \<Longrightarrow>
    getopt_words permute ostr args = ([], args)"
  by (induction args) auto

text \<open>Letters in one word, and an argument in the word of its letter.\<close>

lemma getopt_cluster:
  "getopt_words permute optstring (''-dNX40'' # ws) =
    ([(CHR ''d'', ''''), (CHR ''N'', ''''), (CHR ''X'', ''40'')] @ fst (getopt_words permute optstring ws),
     snd (getopt_words permute optstring ws))"
  by (simp add: is_option_word_def optstring_def split: prod.split)

end
