(* ===== verification/Build_Options.thy ===== *)
theory Build_Options
  imports Startup Utils
begin

text \<open>
  The options of \<^verbatim>\<open>src/relay/udtrelay.cpp\<close> that are compiled in only under a macro:
  \<open>-A\<close> (\<open>UDT_ACL_OPTION\<close>), \<open>-P\<close> (\<open>UDP_BASEPORT_OPTION\<close>) and \<open>-c\<close> (\<open>UDT_CCC_OPTION\<close>), the
  latter with its part of \<open>setsockopt(UDTSOCKET)\<close>. The theorems say that an accepted option
  text is one that the program can use later, and that a build without the macros behaves
  as \<open>Startup\<close> says.
\<close>


section \<open>Congestion control\<close>

definition cc_lib :: "string list" where
  "cc_lib = [''UDT'', ''Vegas'', ''TCP'', ''ScalableTCP'', ''HSTCP'', ''BiCTCP'', ''Westwood'', ''FAST'']"

text \<open>The loop over \<open>cc_lib\<close> that sets \<open>ccc_ok\<close>.\<close>

fun ccc_ok :: "string list \<Rightarrow> string \<Rightarrow> bool" where
  "ccc_ok [] ccc = False"
| "ccc_ok (l # ls) ccc = (if caseless_eq l ccc then True else ccc_ok ls ccc)"

definition ccc_option :: "string \<Rightarrow> string result" where
  "ccc_option optarg = (if \<not> ccc_ok cc_lib optarg then Inl (Exited 1) else Inr optarg)"

datatype cc_class = CUDTCC | CVegas | CTCP | CScalableTCP | CHSTCP | CBiCTCP | CWestwood | CFAST

text \<open>The chain in \<open>setsockopt\<close>: the class whose factory is set, if any.\<close>

definition set_cc :: "string \<Rightarrow> cc_class option result" where
  "set_cc ccc =
     (if caseless_eq ccc '''' then Inr None
      else if caseless_eq ccc ''UDT'' then Inr (Some CUDTCC)
      else if caseless_eq ccc ''Vegas'' then Inr (Some CVegas)
      else if caseless_eq ccc ''TCP'' then Inr (Some CTCP)
      else if caseless_eq ccc ''ScalableTCP'' then Inr (Some CScalableTCP)
      else if caseless_eq ccc ''HSTCP'' then Inr (Some CHSTCP)
      else if caseless_eq ccc ''BiCTCP'' then Inr (Some CBiCTCP)
      else if caseless_eq ccc ''Westwood'' then Inr (Some CWestwood)
      else if caseless_eq ccc ''FAST'' then Inr (Some CFAST)
      else Inl (Exited (-1)))"


section \<open>Port range and access list\<close>

text \<open>\<open>sscanf(optarg, "%d:%d", ...) != 2\<close>, then the range checks.\<close>

definition port_range :: "string \<Rightarrow> (int \<times> int) option" where
  "port_range optarg =
     (case scan_int optarg of
        None \<Rightarrow> None
      | Some (from, rest) \<Rightarrow>
          (if rest \<noteq> [] \<and> hd rest = CHR '':''
           then map_option (\<lambda>(to, _). (from, to)) (scan_int (tl rest)) else None))"

definition baseport_option :: "string \<Rightarrow> (int \<times> int) result" where
  "baseport_option optarg =
     (case port_range optarg of
        None \<Rightarrow> Inl (Exited 1)
      | Some (baseport, maxport) \<Rightarrow>
          if baseport < 1024 \<or> baseport > 0xFFFE \<or> maxport < 1024 \<or> maxport > 0xFFFE \<or>
             maxport \<le> baseport
          then Inl (Exited 1) else Inr (baseport, maxport))"

text \<open>
  The loop over the entries: each is printed and handed to \<open>acl_table::add\<close>, whose body is
  not in the repository. The result is what was printed and the exit status.
\<close>

fun acl_loop :: "('t \<Rightarrow> string \<Rightarrow> bool \<times> 't) \<Rightarrow> string list \<Rightarrow> 't \<Rightarrow> string list \<Rightarrow> string list \<times> int"
  where
  "acl_loop add [] table out = (out, 0)"
| "acl_loop add (entry # rest) table out =
     (case add table entry of
        (ok, table) \<Rightarrow>
          if \<not> ok then (out @ [entry], 1) else acl_loop add rest table (out @ [entry]))"

definition acl_option ::
  "('t \<Rightarrow> string \<Rightarrow> bool \<times> 't) \<Rightarrow> 't \<Rightarrow> string \<Rightarrow> (string list \<times> int) option" where
  "acl_option add table optarg =
     map_option (\<lambda>entries. acl_loop add entries table []) (split_str optarg ''+'')"


section \<open>The option loop of a build\<close>

record build =
  UDT_ACL_OPTION :: bool
  UDP_BASEPORT_OPTION :: bool
  UDT_CCC_OPTION :: bool

record built_options =
  b_options :: options
  b_ccc :: string
  b_ports :: "int \<times> int"

definition initial_built :: built_options where
  "initial_built = \<lparr>b_options = initial_options, b_ccc = '''', b_ports = (0, 0)\<rparr>"

definition handle_option_built ::
  "('t \<Rightarrow> string \<Rightarrow> bool \<times> 't) \<Rightarrow> 't \<Rightarrow> build \<Rightarrow> char \<Rightarrow> string \<Rightarrow> built_options \<Rightarrow>
     built_options result option" where
  "handle_option_built add table bld c optarg st =
     (if UDT_ACL_OPTION bld \<and> c = CHR ''A'' then
        map_option (\<lambda>(out, code). Inl (Exited code)) (acl_option add table optarg)
      else if UDP_BASEPORT_OPTION bld \<and> c = CHR ''P'' then
        Some (bindR (baseport_option optarg) (\<lambda>p. Inr (st\<lparr>b_ports := p\<rparr>)))
      else if UDT_CCC_OPTION bld \<and> c = CHR ''c'' then
        Some (bindR (ccc_option optarg) (\<lambda>t. Inr (st\<lparr>b_ccc := t\<rparr>)))
      else Some (bindR (handle_option c optarg (b_options st)) (\<lambda>opts. Inr (st\<lparr>b_options := opts\<rparr>))))"

fun handle_options_built ::
  "('t \<Rightarrow> string \<Rightarrow> bool \<times> 't) \<Rightarrow> 't \<Rightarrow> build \<Rightarrow> (char \<times> string) list \<Rightarrow> built_options \<Rightarrow>
     built_options result option" where
  "handle_options_built add table bld [] st = Some (Inr st)"
| "handle_options_built add table bld ((c, optarg) # rest) st =
     bindO (handle_option_built add table bld c optarg st) (handle_options_built add table bld rest)"


section \<open>Lemmas\<close>

lemma caseless_sym: "caseless_eq a b \<longleftrightarrow> caseless_eq b a"
  by (auto simp: caseless_eq_def)

lemma ccc_ok_member: "ccc_ok ls ccc \<longleftrightarrow> (\<exists>l \<in> set ls. caseless_eq l ccc)"
  by (induction ls) auto

text \<open>The table of the option and the chain of \<open>setsockopt\<close> name the same classes.\<close>

lemma set_cc_accepts: "ccc_ok cc_lib ccc \<or> ccc = '''' \<longleftrightarrow> (\<exists>k. set_cc ccc = Inr k)"
proof -
  have "caseless_eq ccc '''' \<longleftrightarrow> ccc = ''''" by (simp add: caseless_eq_def)
  moreover have "ccc_ok cc_lib ccc \<longleftrightarrow> (\<exists>l \<in> set cc_lib. caseless_eq ccc l)"
    by (simp add: ccc_ok_member caseless_sym [of ccc])
  ultimately show ?thesis by (simp add: set_cc_def cc_lib_def)
qed

definition built_ok :: "built_options \<Rightarrow> bool" where
  "built_ok st \<longleftrightarrow>
     (\<exists>k. set_cc (b_ccc st) = Inr k) \<and>
     (case b_ports st of (base, high) \<Rightarrow>
        base = 0 \<and> high = 0 \<or> 1024 \<le> base \<and> base < high \<and> high \<le> 0xFFFE)"

lemma handle_option_built_ok:
  assumes "handle_option_built add table bld c optarg st = Some (Inr st')" and "built_ok st"
  shows "built_ok st'"
  using assms
  by (auto simp: handle_option_built_def built_ok_def bindR_eq_Inr ccc_option_def
      baseport_option_def set_cc_accepts [symmetric] split: if_splits option.splits)

lemma handle_options_built_ok:
  "handle_options_built add table bld opts x = Some (Inr st) \<Longrightarrow> built_ok x \<Longrightarrow> built_ok st"
proof (induction opts arbitrary: x)
  case (Cons g opts)
  then obtain y where "handle_option_built add table bld (fst g) (snd g) x = Some (Inr y)"
      "handle_options_built add table bld opts y = Some (Inr st)"
    by (cases g) (auto simp: bindO_eq_Inr)
  with Cons show ?case by (metis handle_option_built_ok)
qed simp

lemma initial_built_ok: "built_ok initial_built"
  by (simp add: built_ok_def initial_built_def set_cc_def caseless_eq_def)

lemma acl_option_stops:
  "\<exists>out code. acl_option add table optarg = Some (out, code) \<and> (code = 0 \<or> code = 1)"
proof -
  have "snd (acl_loop add es table out) \<in> {0, 1}" for es :: "string list" and table out
    by (induction add es table out rule: acl_loop.induct) (auto split: prod.splits)
  moreover obtain es where "split_str optarg ''+'' = Some es"
    using split_loop_join [of "''+''" 0 optarg "[]"] by (auto simp: split_str_def sublist_def)
  ultimately show ?thesis by (cases "acl_loop add es table []") (auto simp: acl_option_def, metis snd_conv)
qed


section \<open>Properties\<close>

text \<open>C37: Whatever macros a build sets, an accepted sequence of options leaves a congestion
  control class that \<open>setsockopt\<close> knows, so that it never ends the process there, and
  either no port range or a proper one of unprivileged ports.\<close>

theorem built_options_usable:
  assumes "handle_options_built add table bld opts initial_built = Some (Inr st)"
  shows "(\<exists>k. set_cc (b_ccc st) = Inr k) \<and>
    (b_ports st = (0, 0) \<or>
     1024 \<le> fst (b_ports st) \<and> fst (b_ports st) < snd (b_ports st) \<and> snd (b_ports st) \<le> 0xFFFE)"
  using handle_options_built_ok [OF assms initial_built_ok]
  by (cases "b_ports st") (auto simp: built_ok_def)

theorem built_options_usable_witness:
  "\<exists>st. handle_options_built (\<lambda>t e. (True, t)) () \<lparr>UDT_ACL_OPTION = False,
       UDP_BASEPORT_OPTION = True, UDT_CCC_OPTION = True\<rparr>
       [(CHR ''c'', ''vegas''), (CHR ''P'', dec_nat 9000 @ '':'' @ dec_nat 9100)] initial_built =
       Some (Inr st) \<and> b_ports st = (9000, 9100) \<and> (\<exists>k. set_cc (b_ccc st) = Inr k)"
proof -
  have "ccc_ok cc_lib ''vegas''" by code_simp
  moreover have "baseport_option (dec_nat 9000 @ '':'' @ dec_nat 9100) = Inr (9000, 9100)"
    using scan_int_dec_nat [of "'':'' @ dec_nat 9100" 9000] scan_int_dec_nat [of "[]" 9100]
    by (simp add: baseport_option_def port_range_def is_digit_def)
  ultimately obtain st where "handle_options_built (\<lambda>t e. (True, t)) () \<lparr>UDT_ACL_OPTION = False,
       UDP_BASEPORT_OPTION = True, UDT_CCC_OPTION = True\<rparr>
       [(CHR ''c'', ''vegas''), (CHR ''P'', dec_nat 9000 @ '':'' @ dec_nat 9100)] initial_built =
       Some (Inr st)" "b_ports st = (9000, 9100)"
    by (simp add: handle_option_built_def ccc_option_def initial_built_def)
  with built_options_usable [OF this(1)] show ?thesis by blast
qed

text \<open>A build without the macros has the option loop of \<open>Startup\<close>, and \<open>-A\<close> never lets the
  program run: it ends with the outcome of the last entry.\<close>

lemma plain_build:
  "handle_options_built add table \<lparr>UDT_ACL_OPTION = False, UDP_BASEPORT_OPTION = False,
     UDT_CCC_OPTION = False\<rparr> opts st =
   Some (bindR (handle_options opts (b_options st)) (\<lambda>o1. Inr (st\<lparr>b_options := o1\<rparr>)))"
proof (induction opts arbitrary: st)
  case (Cons g opts)
  then show ?case
    by (cases g; cases "handle_option (fst g) (snd g) (b_options st)")
      (simp_all add: handle_option_built_def)
qed simp

lemma acl_build_stops:
  assumes "UDT_ACL_OPTION bld"
  shows "\<exists>code. handle_options_built add table bld ((CHR ''A'', optarg) # opts) st =
    Some (Inl (Exited code)) \<and> (code = 0 \<or> code = 1)"
  using assms acl_option_stops [of add table optarg]
  by (auto simp: handle_option_built_def)

end
