(* ===== verification/Accept_Loop.thy ===== *)
theory Accept_Loop
  imports Startup
begin

text \<open>
  The accept loop of \<open>main\<close> in \<^verbatim>\<open>src/relay/udtrelay.cpp\<close>. One iteration waits for a connection
  and decides what becomes of it (\<open>server_iteration\<close>, \<open>client_iteration\<close>). An accepted
  connection is handed to a new thread by the address of a local variable of the loop: the
  step relation \<open>loop_step\<close> has the loop and the threads that read that variable as
  independent steps.
\<close>


section \<open>One iteration\<close>

text \<open>\<open>main\<close> returns, the connection was rejected, or a thread was started for it.\<close>

datatype arrival = Stopped int | Rejected int | Accepted int

text \<open>The rendezvous loop \<open>while ((rc = UDT::connect(...)) < 0)\<close>; a failed call returns -1,
  which is smaller than 5000.\<close>

datatype 'w connected = Connected "'w sys" | Fatal "'w sys"

partial_function (option) connect_loop ::
  "'w os \<Rightarrow> int \<Rightarrow> sockaddr \<Rightarrow> 'w sys \<Rightarrow> 'w connected option" where
  "connect_loop os fd addr s =
     (case sys_num os (Connect (Udt fd) addr) s of (rc, s1) \<Rightarrow>
        if rc < 0 then
          if rc < 5000 then connect_loop os fd addr s1
          else Some (Fatal (sys_do os (Say LOG_ERR ''peer connection fatal error: %s'') s1))
        else Some (Connected s1))"

text \<open>The address part of an answer; without one the variable keeps what it held.\<close>

definition addr_of :: "resp \<Rightarrow> sockaddr \<Rightarrow> sockaddr" where
  "addr_of r old = (case r of Addr n a \<Rightarrow> a | _ \<Rightarrow> old)"

text \<open>The connection of the peer relay, accepted, or made in rendezvous mode; \<open>None\<close> for
  the socket when \<open>main\<close> returns 0.\<close>

definition next_peer ::
  "'w os \<Rightarrow> config \<Rightarrow> addresses \<Rightarrow> int \<Rightarrow> sockaddr \<Rightarrow> udp_statics \<Rightarrow> 'w sys \<Rightarrow>
     (int option \<times> sockaddr \<times> udp_statics \<times> 'w sys) result option" where
  "next_peer os cfg addrs ludtsock old_addr st s =
     (if \<not> is_rendezvous cfg then
        let (r, s1) = sys_call os (Accept (Udt ludtsock)) s
        in if rv r = -1
           then Some (Inr (None, old_addr, st, sys_do os (Say LOG_ERR ''accept: %s'') s1))
           else Some (Inr (Some (rv r), addr_of r old_addr, st, s1))
      else
        let (fd, s1) = sys_num os (Socket Udt_kind) s
        in bindO (Some (relay_setsockopt os fd (opt_order cfg) (udt_opts cfg) True st s1))
             (\<lambda>(st1, s2).
                let (rb, s3) = sys_num os (Bind (Udt fd) (serv_addr addrs)) s2
                in if rb = -1
                   then Some (Inr (None, old_addr, st1, sys_do os (Say LOG_ERR ''udt bind: %s'') s3))
                   else case connect_loop os fd (a_rzv_remote addrs) s3 of
                          None \<Rightarrow> None
                        | Some (Fatal s4) \<Rightarrow> Some (Inr (None, old_addr, st1, s4))
                        | Some (Connected s4) \<Rightarrow>
                            let (r, s5) = sys_call os (Getpeername (Udt fd)) s4
                            in Some (Inr (Some fd, addr_of r old_addr, st1, s5))))"

definition server_iteration ::
  "'w os \<Rightarrow> config \<Rightarrow> addresses \<Rightarrow> bool \<Rightarrow> int \<Rightarrow> sockaddr \<Rightarrow> udp_statics \<Rightarrow> 'w sys \<Rightarrow>
     (arrival \<times> sockaddr \<times> udp_statics \<times> 'w sys) result option" where
  "server_iteration os cfg addrs noisy ludtsock old_addr st s =
     bindO (next_peer os cfg addrs ludtsock old_addr st s)
       (\<lambda>(sock, clientaddr, st1, s1).
          case sock of
            None \<Rightarrow> Some (Inr (Stopped 0, clientaddr, st1, s1))
          | Some audtsock \<Rightarrow>
              bindO (Some (sockaddr_match clientaddr (peer_addr cfg) False))
                (\<lambda>match.
                   if \<not> match then
                     Some (Inr (Rejected audtsock, clientaddr, st1,
                       sys_do os (Say LOG_NOTICE ''rejected peer connection: %s:%s'')
                         (sys_do os (Close (Tcp audtsock)) s1)))
                   else
                     let s2 = (if noisy
                               then sys_do os (Say LOG_NOTICE ''accepted peer connection: %s:%s'') s1
                               else s1)
                     in bindO (Some (relay_setsockopt os audtsock (opt_order cfg) (udt_opts cfg)
                                       (is_rendezvous cfg) st1 s2))
                          (\<lambda>(st2, s3). Some (Inr (Accepted audtsock, clientaddr, st2, s3)))))"

definition client_iteration ::
  "'w os \<Rightarrow> config \<Rightarrow> bool \<Rightarrow> int \<Rightarrow> sockaddr \<Rightarrow> 'w sys \<Rightarrow> (arrival \<times> sockaddr \<times> 'w sys) result" where
  "client_iteration os cfg noisy ltcpsock old_addr s =
     (let (r, s1) = sys_call os (Accept (Tcp ltcpsock)) s
      in if rv r = -1
         then Inr (Stopped 0, old_addr, sys_do os (Say LOG_ERR ''accept: error: %s'') s1)
         else
           let atcpsock = rv r; clientaddr = addr_of r old_addr
           in bindR (check_access os (net_access cfg) clientaddr s1)
                (\<lambda>(ok, s2).
                   if \<not> ok then
                     Inr (Rejected atcpsock, clientaddr,
                       sys_do os (Say LOG_NOTICE ''rejected socks connection: %s:%s'')
                         (sys_do os (Close (Tcp atcpsock)) s2))
                   else
                     Inr (Accepted atcpsock, clientaddr,
                       if noisy
                       then sys_do os (Say LOG_NOTICE ''accepted socks connection: %s:%s'') s2
                       else s2)))"

section \<open>The variable that the threads read\<close>

text \<open>
  \<open>slot\<close> is the variable \<open>audtsock\<close> (or \<open>atcpsock\<close>) of the loop. A thread is the connection
  it was started for, with what it read through its pointer, once it did. When the loop stops,
  \<open>main\<close> returns, and the value that the variable then has no longer matters.
\<close>

record loop_state =
  slot :: int
  threads :: "(int \<times> int option) list"

fun arrives :: "arrival \<Rightarrow> loop_state \<Rightarrow> loop_state" where
  "arrives (Accepted fd) x = x\<lparr>slot := fd, threads := threads x @ [(fd, None)]\<rparr>"
| "arrives (Rejected fd) x = x\<lparr>slot := fd\<rparr>"
| "arrives (Stopped n) x = x\<lparr>slot := -1\<rparr>"

definition reads :: "nat \<Rightarrow> loop_state \<Rightarrow> loop_state" where
  "reads i x = x\<lparr>threads := (threads x)[i := (fst (threads x ! i), Some (slot x))]\<rparr>"

text \<open>The loop does not wait for a thread to read its argument.\<close>

inductive loop_step :: "loop_state \<Rightarrow> loop_state \<Rightarrow> bool" where
  arrive: "loop_step x (arrives a x)"
| thread_reads: "i < length (threads x) \<Longrightarrow> snd (threads x ! i) = None \<Longrightarrow> loop_step x (reads i x)"

definition loop_init :: "loop_state \<Rightarrow> bool" where
  "loop_init x \<longleftrightarrow> threads x = []"

text \<open>Runs of the loop, step by step.\<close>

abbreviation no_threads :: loop_state where
  "no_threads \<equiv> \<lparr>slot = 0, threads = []\<rparr>"

lemma reach_no_threads: "reach loop_init loop_step no_threads"
  by (rule reach_init) (simp add: loop_init_def)

lemma reach_arrives: "reach loop_init loop_step x \<Longrightarrow> reach loop_init loop_step (arrives a x)"
  by (rule reach_step) (auto intro: loop_step.arrive)

lemma reach_reads:
  "reach loop_init loop_step x \<Longrightarrow> i < length (threads x) \<Longrightarrow> snd (threads x ! i) = None \<Longrightarrow>
    reach loop_init loop_step (reads i x)"
  by (rule reach_step) (auto intro: loop_step.thread_reads)

lemmas runs = reach_no_threads reach_arrives reach_reads


section \<open>Properties\<close>

text \<open>C29: Two threads can end up serving the same connection while the other one is served by
  nobody; and a thread started for an accepted connection can end up serving one that the
  access check has rejected.\<close>

theorem threads_share_slot:
  "(\<exists>x. reach loop_init loop_step x \<and> threads x = [(fd1, Some fd2), (fd2, Some fd2)]) \<and>
   (\<exists>x. reach loop_init loop_step x \<and>
      x = reads 0 (arrives (Rejected fd2) (arrives (Accepted fd1) no_threads)) \<and>
      threads x = [(fd1, Some fd2)])"
proof
  define x where "x = reads 1 (reads 0 (arrives (Accepted fd2) (arrives (Accepted fd1) no_threads)))"
  have "reach loop_init loop_step x"
    unfolding x_def by (intro runs) (simp_all add: reads_def)
  moreover have "threads x = [(fd1, Some fd2), (fd2, Some fd2)]" by (simp add: x_def reads_def)
  ultimately show "\<exists>x. reach loop_init loop_step x \<and>
      threads x = [(fd1, Some fd2), (fd2, Some fd2)]" by blast
  define y where "y = reads 0 (arrives (Rejected fd2) (arrives (Accepted fd1) no_threads))"
  have "reach loop_init loop_step y" unfolding y_def by (intro runs) simp_all
  moreover have "threads y = [(fd1, Some fd2)]" by (simp add: y_def reads_def)
  ultimately show "\<exists>x. reach loop_init loop_step x \<and>
      x = reads 0 (arrives (Rejected fd2) (arrives (Accepted fd1) no_threads)) \<and>
      threads x = [(fd1, Some fd2)]" unfolding y_def by blast
qed

text \<open>Induction along a run of the rendezvous loop that ends with \<open>x\<close>.\<close>

lemma connect_loop_induct [consumes 1, case_names again connected]:
  assumes "connect_loop os fd addr s = Some x"
    and again: "\<And>s rc t. sys_num os (Connect (Udt fd) addr) s = (rc, t) \<Longrightarrow> rc < 0 \<Longrightarrow> P t \<Longrightarrow> P s"
    and connected: "\<And>s rc t. sys_num os (Connect (Udt fd) addr) s = (rc, t) \<Longrightarrow> 0 \<le> rc \<Longrightarrow>
      x = Connected t \<Longrightarrow> P s"
  shows "P s"
proof -
  have "o1 = os \<longrightarrow> f1 = fd \<longrightarrow> a1 = addr \<longrightarrow> y = x \<longrightarrow> P s" if "connect_loop o1 f1 a1 s = Some y"
    for o1 f1 a1 s y
  proof (rule connect_loop.raw_induct [where
      P = "\<lambda>o1 f1 a1 s y. o1 = os \<longrightarrow> f1 = fd \<longrightarrow> a1 = addr \<longrightarrow> y = x \<longrightarrow> P s", OF _ that], intro impI)
    fix f o1 f1 a1 s y
    assume IH: "\<And>o1 f1 a1 s y. f o1 f1 a1 s = Some y \<Longrightarrow>
          o1 = os \<longrightarrow> f1 = fd \<longrightarrow> a1 = addr \<longrightarrow> y = x \<longrightarrow> P s"
      and eq: "(case sys_num o1 (Connect (Udt f1) a1) s of (rc, s1) \<Rightarrow>
        if rc < 0 then
          if rc < 5000 then f o1 f1 a1 s1
          else Some (Fatal (sys_do o1 (Say LOG_ERR ''peer connection fatal error: %s'') s1))
        else Some (Connected s1)) = Some y"
      and same: "o1 = os" "f1 = fd" "a1 = addr" "y = x"
    obtain rc t where c: "sys_num os (Connect (Udt fd) addr) s = (rc, t)" by fastforce
    with eq same IH again [OF c] connected [OF c] show "P s" by (cases "rc < 0") auto
  qed
  with assms(1) show ?thesis by blast
qed

lemma connect_loop_never_fatal: "connect_loop os fd addr s \<noteq> Some (Fatal t)"
proof
  assume "connect_loop os fd addr s = Some (Fatal t)"
  then show False by (induction rule: connect_loop_induct) simp_all
qed

text \<open>The rendezvous loop retries for ever: the branch for fatal errors is never taken,
  whatever UDT answers, because a result that is negative is also smaller than 5000.\<close>

theorem rendezvous_never_gives_up:
  "connect_loop os fd addr s = None \<or> (\<exists>t. connect_loop os fd addr s = Some (Connected t))"
  using connect_loop_never_fatal [of os fd addr s]
  by (cases "connect_loop os fd addr s"; cases "the (connect_loop os fd addr s)") auto

lemma next_peer_closes:
  assumes "next_peer os cfg addrs l old st s = Some (Inr (sock, addr, st', s'))"
    and "\<not> is_rendezvous cfg"
  shows "calls_of closes s' = calls_of closes s"
  using assms
  by (cases "sys_call os (Accept (Udt l)) s")
    (auto simp: next_peer_def closes_def split: if_splits
      dest!: calls_of_call [of _ _ _ _ _ closes])

text \<open>C9: The server starts a thread only for a connection whose IPv4 address is that of the
  configured peer. A connection from any other address gets no thread; the rejection is
  always logged; but the descriptor that is closed is the kernel's of that number, and the
  UDT socket is left open.\<close>

theorem server_admits_only_peer:
  assumes "server_iteration os cfg addrs noisy l old st s = Some (Inr (a, addr, st', s'))"
    and "inet_sockaddr addr" and "inet_sockaddr (peer_addr cfg)"
  shows "case a of
      Accepted fd \<Rightarrow> ip4 addr = ip4 (peer_addr cfg)
    | Rejected fd \<Rightarrow> ip4 addr \<noteq> ip4 (peer_addr cfg) \<and>
        (\<exists>l q p. log s' = l @ [(Close (Tcp fd), q),
           (Say LOG_NOTICE ''rejected peer connection: %s:%s'', p)]) \<and>
        (\<not> is_rendezvous cfg \<longrightarrow> calls_of closes s' = calls_of closes s @ [Tcp fd])
    | Stopped n \<Rightarrow> n = 0"
proof -
  from assms(1) obtain sock addr1 st1 s1 where
    n: "next_peer os cfg addrs l old st s = Some (Inr (sock, addr1, st1, s1))"
    by (auto simp: server_iteration_def bindO_eq_Inr)
  show ?thesis
  proof (cases sock)
    case None
    with assms(1) n show ?thesis by (auto simp: server_iteration_def)
  next
    case (Some fd)
    note run = assms(1) [unfolded server_iteration_def n bindO_simps prod.case Some option.case]
    then obtain match where m: "sockaddr_match addr1 (peer_addr cfg) False = Inr match"
      by (auto simp: bindO_eq_Inr)
    note run = run [unfolded m bindO_simps]
    have "addr = addr1" using run
      by (auto simp: bindO_eq_Inr Let_def split: if_splits)
    with sockaddr_match_inet [OF assms(2,3), of False] m
    have match: "match \<longleftrightarrow> ip4 addr = ip4 (peer_addr cfg)" by simp
    show ?thesis
    proof (cases match)
      case True
      with run match show ?thesis by (auto simp: bindO_eq_Inr Let_def)
    next
      case False
      define t where "t = sys_do os (Close (Tcp fd)) s1"
      from False run have r: "a = Rejected fd"
          "s' = sys_do os (Say LOG_NOTICE ''rejected peer connection: %s:%s'') t"
        by (auto simp: t_def)
      obtain q p where "log t = log s1 @ [(Close (Tcp fd), q)]"
          "log s' = log t @ [(Say LOG_NOTICE ''rejected peer connection: %s:%s'', p)]"
        unfolding r(2) t_def using sys_do_log by blast
      with False match r next_peer_closes [OF n] show ?thesis by (simp add: t_def)
    qed
  qed
qed

definition peer_at :: "byte \<Rightarrow> sockaddr" where
  "peer_at h = \<lparr>sa_family = 2, sa_data = [35, 40, 10, 0, 0, h] @ replicate 8 0\<rparr>"

theorem server_admits_only_peer_witness:
  "\<exists>s'. server_iteration script (sample_config\<lparr>peer_addr := peer_at 1\<rparr>)
        \<lparr>serv_addr = inaddr_any, a_peer = peer_at 1, a_rzv_local = inaddr_any,
         a_rzv_remote = inaddr_any\<rparr> True 3 inaddr_any fresh_statics
      (start [Addr 21 (peer_at 2), Ret 0]) = Some (Inr (Rejected 21, peer_at 2, fresh_statics, s')) \<and>
    calls_of closes s' = [Tcp 21]"
proof -
  obtain s' where r: "server_iteration script (sample_config\<lparr>peer_addr := peer_at 1\<rparr>)
        \<lparr>serv_addr = inaddr_any, a_peer = peer_at 1, a_rzv_local = inaddr_any,
         a_rzv_remote = inaddr_any\<rparr> True 3 inaddr_any fresh_statics
      (start [Addr 21 (peer_at 2), Ret 0]) = Some (Inr (Rejected 21, peer_at 2, fresh_statics, s'))"
    by (simp add: server_iteration_def next_peer_def sample_config_def run_simps addr_of_def
        sockaddr_match_def members_equal_def sa_field_def peer_at_def Let_def)
  have "inet_sockaddr (peer_at h)" for h by (simp add: inet_sockaddr_def peer_at_def)
  with server_admits_only_peer [OF r] r show ?thesis
    by (auto simp: sample_config_def calls_of_def start_def)
qed

lemma log_grows: "set (log s) \<subseteq> set (log (sys_do os c s))"
  using sys_do_log [of os c s] by auto

text \<open>C10: The client starts a thread only for an application whose address passed the access
  check, on the interfaces that \<open>getifaddrs\<close> reported; any other connection is closed, and
  the rejection is always logged.\<close>

theorem client_admits_allowed:
  assumes "client_iteration os cfg noisy l old s = Inr (a, addr, s')"
  shows "case a of
      Accepted fd \<Rightarrow> net_access cfg < 2 \<longrightarrow> (\<exists>r. (Getifaddrs, r) \<in> set (log s') \<and>
        access_allowed (net_access cfg) addr (interfaces_of r) = Inr True)
    | Rejected fd \<Rightarrow> net_access cfg < 2 \<and> (\<exists>r. (Getifaddrs, r) \<in> set (log s') \<and>
        access_allowed (net_access cfg) addr (interfaces_of r) = Inr False) \<and>
        (\<exists>l q p. log s' = l @ [(Close (Tcp fd), q),
           (Say LOG_NOTICE ''rejected socks connection: %s:%s'', p)])
    | Stopped n \<Rightarrow> n = 0"
proof -
  obtain r s1 where r: "sys_call os (Accept (Tcp l)) s = (r, s1)" by fastforce
  show ?thesis
  proof (cases "rv r = -1")
    case True
    with assms r show ?thesis by (auto simp: client_iteration_def)
  next
    case False
    with assms r obtain ok s2 where c: "check_access os (net_access cfg) (addr_of r old) s1 = Inr (ok, s2)"
      by (auto simp: client_iteration_def bindR_eq_Inr Let_def)
    note run = assms [unfolded client_iteration_def r Let_def prod.case c bindR_Inr]
    show ?thesis
    proof (cases ok)
      case True
      define t where "t = (if noisy
        then sys_do os (Say LOG_NOTICE ''accepted socks connection: %s:%s'') s2 else s2)"
      have "set (log s2) \<subseteq> set (log t)"
        unfolding t_def by (cases noisy) (simp_all add: log_grows)
      moreover from run False True have "a = Accepted (rv r)" "addr = addr_of r old" "s' = t"
        by (auto simp: t_def)
      ultimately show ?thesis using check_access_result [OF c] True by auto
    next
      case rejected: False
      define t where "t = sys_do os (Close (Tcp (rv r))) s2"
      from rejected False run have e: "a = Rejected (rv r)" "addr = addr_of r old"
          "s' = sys_do os (Say LOG_NOTICE ''rejected socks connection: %s:%s'') t"
        by (auto simp: t_def)
      obtain q where q: "log t = log s2 @ [(Close (Tcp (rv r)), q)]"
        unfolding t_def using sys_do_log by blast
      obtain p where "log s' = log t @ [(Say LOG_NOTICE ''rejected socks connection: %s:%s'', p)]"
        unfolding e(3) using sys_do_log by blast
      with q have l: "log s' = log s2 @ [(Close (Tcp (rv r)), q),
          (Say LOG_NOTICE ''rejected socks connection: %s:%s'', p)]" by simp
      have "net_access cfg < 2" using check_access_result [OF c] rejected by (cases "net_access cfg < 2") auto
      moreover from this check_access_result [OF c] rejected obtain g where
        "(Getifaddrs, g) \<in> set (log s2)"
        "access_allowed (net_access cfg) (addr_of r old) (interfaces_of g) = Inr False" by auto
      ultimately show ?thesis using e l by auto
    qed
  qed
qed

theorem client_admits_allowed_witness:
  "\<exists>s'. client_iteration script (sample_config\<lparr>net_access := 0\<rparr>) True 3 inaddr_any
      (start [Addr 21 (peer_at 2), Ifs [], Ret 0]) = Inr (Rejected 21, peer_at 2, s') \<and>
    (\<exists>l q p. log s' = l @ [(Close (Tcp 21), q),
           (Say LOG_NOTICE ''rejected socks connection: %s:%s'', p)])"
proof -
  obtain s' where r: "client_iteration script (sample_config\<lparr>net_access := 0\<rparr>) True 3 inaddr_any
      (start [Addr 21 (peer_at 2), Ifs [], Ret 0]) = Inr (Rejected 21, peer_at 2, s')"
    by (simp add: client_iteration_def sample_config_def run_simps addr_of_def check_access_def
        interfaces_of_def access_allowed_def check_source_def Let_def)
  from client_admits_allowed [OF r] r show ?thesis by simp
qed

end
