(* ===== verification/Relay_Main.thy ===== *)
theory Relay_Main
  imports Accept_Loop
begin

text \<open>
  \<open>main\<close> of \<^verbatim>\<open>src/relay/udtrelay.cpp\<close> up to the accept loop, put together from its parts:
  the command line, the daemon, the server processes, the addresses and the listening socket.
  The result is what the accept loop of the process works with. \<open>order\<close> is the order in which
  the map of UDT options is iterated.
\<close>


section \<open>The program\<close>

definition server_config :: "udt_opt list \<Rightarrow> options \<Rightarrow> addresses \<Rightarrow> config" where
  "server_config order opts addrs =
     \<lparr>net_access = o_net_access opts, is_rendezvous = o_rendezvous opts, udt_opts = o_udt opts,
      opt_order = order, peer_addr = a_peer addrs, rzv_local = a_rzv_local addrs\<rparr>"

record ready =
  r_mode :: mode
  r_cfg :: config
  r_addrs :: addresses
  r_noisy :: bool
  r_fd :: int

definition start_server ::
  "'w os \<Rightarrow> udt_opt list \<Rightarrow> (string option \<Rightarrow> string \<Rightarrow> sockaddr option) \<Rightarrow> mode \<Rightarrow> options \<Rightarrow>
     names \<Rightarrow> udp_statics \<Rightarrow> 'w sys \<Rightarrow> (ready \<times> udp_statics \<times> 'w sys) result" where
  "start_server os order getaddrinfo mode opts n st s =
     bindR (resolve getaddrinfo mode opts n) (\<lambda>addrs.
       let cfg = server_config order opts addrs
       in bindR (open_listener os mode cfg (serv_addr addrs) st s) (\<lambda>(fd, st1, s1).
            Inr (\<lparr>r_mode = mode, r_cfg = cfg, r_addrs = addrs,
                  r_noisy = (o_debug_level opts \<noteq> 0 \<or> o_track opts), r_fd = fd\<rparr>, st1, s1)))"

definition relay_main ::
  "'w os \<Rightarrow> udt_opt list \<Rightarrow> (string option \<Rightarrow> string \<Rightarrow> sockaddr option) \<Rightarrow> (char \<times> string) list \<Rightarrow>
     string list \<Rightarrow> udp_statics \<Rightarrow> 'w sys \<Rightarrow> (ready \<times> udp_statics \<times> 'w sys) result option" where
  "relay_main os order getaddrinfo getopts args st s =
     bindO (Some (command_line os getopts args s)) (\<lambda>(opts, n, s1).
       case demonize os opts s1 of
         Ends c s2 \<Rightarrow> Some (Inl (Exited c))
       | Serve m s2 \<Rightarrow>
           (case fork_servers os m (sys_do os (Say LOG_INFO ''Starting %s (%s).'')
                   (sys_do os (Say LOG_INFO '''') s2)) of
              None \<Rightarrow> None
            | Some (Ends c s3) \<Rightarrow> Some (Inl (Exited c))
            | Some (Serve md s3) \<Rightarrow> Some (start_server os order getaddrinfo md opts n st s3)))"


section \<open>Lemmas\<close>


lemma exit_handler_ends: "exit_handler os s \<noteq> Some (Serve m s')"
  by (simp add: exit_handler_def split: option.split)

lemma supervise_ends: "supervise os a b s \<noteq> Some (Serve m s')"
  by (auto simp: supervise_def exit_handler_ends Let_def split: option.split prod.split)

lemma fork_servers_mode:
  assumes "fork_servers os mode s = Some (Serve md s')"
  shows "md \<noteq> DUAL \<and> (mode = DUAL \<or> mode = md)"
  using assms
  by (auto simp: fork_servers_def Let_def supervise_ends split: if_splits prod.splits)





lemma settle_debug_keeps [simp]:
  "o_net_access (settle_debug opts) = o_net_access opts"
  "o_mode (settle_debug opts) = o_mode opts"
  "o_rendezvous (settle_debug opts) = o_rendezvous opts"
  "o_rzv_lport (settle_debug opts) = o_rzv_lport opts"
  "o_rzv_rport (settle_debug opts) = o_rzv_rport opts"
  by (simp_all add: settle_debug_def Let_def)



text \<open>The stages of a start that succeeds.\<close>

lemma relay_main_parts:
  assumes "relay_main os order gai getopts args st s = Some (Inr (r, st', s'))"
  obtains opts n s1 m s2 md s3 where "command_line os getopts args s = Inr (opts, n, s1)"
    and "demonize os opts s1 = Serve m s2"
    and "fork_servers os m (sys_do os (Say LOG_INFO ''Starting %s (%s).'')
            (sys_do os (Say LOG_INFO '''') s2)) = Some (Serve md s3)"
    and "start_server os order gai md opts n st s3 = Inr (r, st', s')"
proof -
  from assms obtain opts n s1 where 1: "command_line os getopts args s = Inr (opts, n, s1)"
    by (cases "command_line os getopts args s") (auto simp: relay_main_def)
  from assms 1 obtain m s2 where 2: "demonize os opts s1 = Serve m s2"
    by (cases "demonize os opts s1") (auto simp: relay_main_def)
  define t where "t = sys_do os (Say LOG_INFO ''Starting %s (%s).'')
    (sys_do os (Say LOG_INFO '''') s2)"
  from assms 1 2 have f: "(case fork_servers os m t of
      None \<Rightarrow> None
    | Some (Ends c s3) \<Rightarrow> Some (Inl (Exited c))
    | Some (Serve md s3) \<Rightarrow> Some (start_server os order gai md opts n st s3)) =
      Some (Inr (r, st', s'))"
    by (simp add: relay_main_def t_def)
  then obtain role where "fork_servers os m t = Some role" by (cases "fork_servers os m t") auto
  with f obtain md s3 where "fork_servers os m t = Some (Serve md s3)" by (cases role) auto
  with f that [OF 1 2] show ?thesis by (auto simp: t_def)
qed


lemma main_mode: "relay_main os order gai getopts args st s = Some (Inr (r, st', s')) \<Longrightarrow> r_mode r \<noteq> DUAL"
  by (erule relay_main_parts)
    (auto dest!: fork_servers_mode simp: start_server_def bindR_eq_Inr Let_def)


section \<open>Properties\<close>



end
