(* ===== verification/Relay_Process.thy ===== *)
theory Relay_Process
  imports Relay_Main
begin

text \<open>
  A server process of \<^verbatim>\<open>src/relay/udtrelay.cpp\<close> as a whole: \<open>main\<close> up to the accept loop, then
  iterations of the loop, threads that read the variable they were given, and threads that
  serve their connection. A step is one iteration or the life of one child (which is itself
  an interleaving of two threads); the steps come in any order. The theorem says where the
  process connects to in its whole life.
\<close>

section \<open>The process\<close>

text \<open>\<open>p_addr\<close> is the variable \<open>clientaddr\<close> of the loop, \<open>p_loop\<close> its socket variable and the
  threads that were started, \<open>p_running\<close> that \<open>main\<close> has not returned.\<close>

record 'w process =
  p_sys :: "'w sys"
  p_statics :: udp_statics
  p_addr :: sockaddr
  p_loop :: loop_state
  p_running :: bool

definition process_start :: "ready \<Rightarrow> udp_statics \<Rightarrow> 'w sys \<Rightarrow> 'w process \<Rightarrow> bool" where
  "process_start r st s p \<longleftrightarrow>
     p_sys p = s \<and> p_statics p = st \<and> threads (p_loop p) = [] \<and> p_running p"

text \<open>One iteration of the loop, of either direction.\<close>

definition iteration ::
  "'w os \<Rightarrow> ready \<Rightarrow> sockaddr \<Rightarrow> udp_statics \<Rightarrow> 'w sys \<Rightarrow>
     (arrival \<times> sockaddr \<times> udp_statics \<times> 'w sys) result option" where
  "iteration os r addr st s =
     (if r_mode r = SERVER
      then server_iteration os (r_cfg r) (r_addrs r) (r_noisy r) (r_fd r) addr st s
      else bindO (Some (client_iteration os (r_cfg r) (r_noisy r) (r_fd r) addr s))
             (\<lambda>(a, addr', s'). Some (Inr (a, addr', st, s'))))"

definition drop_thread :: "nat \<Rightarrow> loop_state \<Rightarrow> loop_state" where
  "drop_thread i x = x\<lparr>threads := take i (threads x) @ drop (Suc i) (threads x)\<rparr>"

inductive process_step :: "'w os \<Rightarrow> int \<Rightarrow> ready \<Rightarrow> 'w process \<Rightarrow> 'w process \<Rightarrow> bool"
  for os :: "'w os" and dm :: int and r :: ready where
  accept: "p_running p \<Longrightarrow>
    iteration os r (p_addr p) (p_statics p) (p_sys p) = Some (Inr (a, addr, st, s)) \<Longrightarrow>
    process_step os dm r p
      \<lparr>p_sys = s, p_statics = st, p_addr = addr, p_loop = arrives a (p_loop p),
       p_running = (\<forall>n. a \<noteq> Stopped n)\<rparr>"
| argument: "p_running p \<Longrightarrow> i < length (threads (p_loop p)) \<Longrightarrow>
    snd (threads (p_loop p) ! i) = None \<Longrightarrow>
    process_step os dm r p (p\<lparr>p_loop := reads i (p_loop p)\<rparr>)"
| child: "p_running p \<Longrightarrow> i < length (threads (p_loop p)) \<Longrightarrow>
    snd (threads (p_loop p) ! i) = Some fd \<Longrightarrow> length junk = 8 \<Longrightarrow>
    start_child os (r_cfg r) dm (r_noisy r) (r_mode r) fd junk jc sched (p_statics p) (p_sys p) =
      Some (Inr (st, s)) \<Longrightarrow>
    process_step os dm r p (p\<lparr>p_sys := s, p_statics := st, p_loop := drop_thread i (p_loop p)\<rparr>)"

inductive_cases process_stepE: "process_step os dm r p q"

section \<open>Calls of the parts\<close>

text \<open>The calls that are not a \<open>connect\<close>; most parts of the program make no other ones.\<close>

definition no_connect :: "call \<Rightarrow> bool" where
  "no_connect c \<longleftrightarrow> connects c = []"

lemma no_connect_simps [simp]:
  "no_connect (Socket k)" "no_connect (Bind ep a)" "no_connect (Listen ep n)" "no_connect (Accept ep)"
  "no_connect (Getpeername ep)" "no_connect (Send ep bs f)" "no_connect (Recv ep n f)"
  "no_connect (Write fd bs)" "no_connect (Read fd n)" "no_connect (Close ep)"
  "no_connect (Set_so fd so v l)" "no_connect (Set_udt u opt v)" "no_connect (Get_udt u opt)"
  "no_connect (Poll fd t)" "no_connect Getifaddrs" "no_connect Fork" "no_connect Setpgid"
  "no_connect Setsid" "no_connect (Say p m)"
  by (simp_all add: no_connect_def connects_def)

abbreviation quiet :: "'w sys \<Rightarrow> 'w sys \<Rightarrow> bool" where
  "quiet \<equiv> only_calls no_connect"

lemma quiet_connects: "quiet s s' \<Longrightarrow> calls_of connects s' = calls_of connects s"
  by (erule calls_of_only) (simp add: no_connect_def)

lemma quiet_num: "sys_num os c t = (n, t') \<Longrightarrow> quiet s t \<Longrightarrow> no_connect c \<Longrightarrow> quiet s t'"
  by (rule only_calls_then_num)

lemma quiet_then_do: "quiet s t \<Longrightarrow> no_connect c \<Longrightarrow> quiet s (sys_do os c t)"
  by (rule only_calls_then_do)

lemma quiet_after: "quiet (sys_do os c s) s' \<Longrightarrow> no_connect c \<Longrightarrow> quiet s s'"
  using only_calls_trans [OF only_calls_sys_do] .

lemmas quiet_intros = only_calls_refl only_calls_sys_num [of _ _ _ _ _ no_connect]
  only_calls_sys_call [of _ _ _ _ _ no_connect]

lemma quiet_setsockopt: "relay_setsockopt os sock order opts rdv st s = Inr (st', s') \<Longrightarrow> quiet s s'"
  by (drule relay_setsockopt_only, erule only_calls_weaken)
    (auto simp: opt_call_def buffer_call_def no_connect_def connects_def split: call.splits)

lemma quiet_check: "check_access os na addr s = Inr (ok, s') \<Longrightarrow> quiet s s'"
  by (drule check_access_result) (auto elim: only_calls_weaken)

lemma quiet_open_listener:
  assumes "open_listener os mode cfg serv st s = Inr (fd, st', s')"
  shows "quiet s s'"
proof -
  obtain k s0 where s0: "sys_num os (Socket (if mode = SERVER then Udt_kind else Tcp_kind)) s = (k, s0)"
    by fastforce
  have 0: "quiet s s0" by (rule only_calls_sys_num [OF s0]) simp
  show ?thesis
  proof (cases "mode = SERVER")
    case True
    show ?thesis
    proof (cases "is_rendezvous cfg")
      case False
      with True assms s0 obtain st2 s2 where
        s2: "relay_setsockopt os k (opt_order cfg) (udt_opts cfg) False st s0 = Inr (st2, s2)"
        by (auto simp: open_listener_def bindR_eq_Inr)
      obtain rb s3 where s3: "sys_num os (Bind (Udt k) serv) s2 = (rb, s3)" by fastforce
      obtain rl s4 where s4: "sys_num os (Listen (Udt k) 10) s3 = (rl, s4)" by fastforce
      from 0 quiet_setsockopt [OF s2] have "quiet s s2" by (rule only_calls_trans)
      with s3 have "quiet s s3" by (rule quiet_num) simp
      with s4 have "quiet s s4" by (rule quiet_num) simp
      with True False assms s0 s2 s3 s4 show ?thesis
        by (auto simp: open_listener_def intro!: quiet_then_do intro: quiet_intros split: if_splits)
    qed (use True assms in \<open>simp add: open_listener_def\<close>)
  next
    case False
    obtain ro s2 where s2: "sys_num os (Set_so k SO_REUSEADDR 1 4) s0 = (ro, s2)" by fastforce
    obtain rb s3 where s3: "sys_num os (Bind (Tcp k) serv) s2 = (rb, s3)" by fastforce
    obtain rl s4 where s4: "sys_num os (Listen (Tcp k) 10) s3 = (rl, s4)" by fastforce
    from s2 0 have "quiet s s2" by (rule quiet_num) simp
    with s3 have "quiet s s3" by (rule quiet_num) simp
    with s4 have "quiet s s4" by (rule quiet_num) simp
    with False assms s0 s2 s3 s4 show ?thesis
      by (auto simp: open_listener_def intro!: quiet_then_do intro: quiet_intros split: if_splits)
  qed
qed

lemma quiet_main:
  assumes "relay_main os order gai getopts args st s = Some (Inr (r, st', s'))"
  shows "quiet s s'"
proof -
  from assms obtain opts n s1 m s2 md s3 where
      1: "command_line os getopts args s = Inr (opts, n, s1)" and
      2: "demonize os opts s1 = Serve m s2" and
      3: "fork_servers os m (sys_do os (Say LOG_INFO ''Starting %s (%s).'')
            (sys_do os (Say LOG_INFO '''') s2)) = Some (Serve md s3)" and
      4: "start_server os order gai md opts n st s3 = Inr (r, st', s')"
    by (rule relay_main_parts)
  have a: "quiet s s1"
    using 1 by (cases "sys_num os Setpgid s")
      (auto simp: command_line_def bindR_eq_Inr intro!: quiet_then_do intro: quiet_intros split: if_splits)
  have b: "quiet s1 s2"
    using 2 by (cases "sys_num os Fork s1")
      (auto simp: demonize_def intro!: quiet_then_do intro: quiet_intros split: if_splits)
  define t where "t = sys_do os (Say LOG_INFO ''Starting %s (%s).'') (sys_do os (Say LOG_INFO '''') s2)"
  have c: "quiet s2 t" unfolding t_def by (intro quiet_then_do quiet_intros) simp_all
  have f: "sys_num os Fork u = (k, v) \<Longrightarrow> quiet t u \<Longrightarrow> quiet t v" for u k v
    by (erule quiet_num) simp_all
  have d: "quiet t s3"
    using 3 unfolding t_def [symmetric]
    by (auto simp: fork_servers_def Let_def supervise_ends split: if_splits prod.splits
        intro: f [OF _ only_calls_refl] f [OF _ f [OF _ only_calls_refl]])
  from 4 have e: "quiet s3 s'"
    by (auto simp: start_server_def bindR_eq_Inr Let_def dest: quiet_open_listener)
  from a b c d e show ?thesis by (blast intro: only_calls_trans)
qed

text \<open>The relay threads.\<close>

lemma quiet_write: "sapi_write os sd bs s = (n, s') \<Longrightarrow> quiet s s'"
  by (auto simp: sapi_write_def intro!: quiet_then_do intro: quiet_intros split: if_splits)

lemma quiet_as_thread [simp]:
  "only_calls P (as_thread e s) s' \<longleftrightarrow> only_calls P s s'"
  by (simp add: only_calls_def)

lemma quiet_threads:
  "quiet (env x) (env (s2p_step os dm args x))" "quiet (env x) (env (p2s_step os dm args x))"
proof -
  define s where "s = as_thread (serr x) (env x)"
  obtain n1 t1 where p: "sys_num os (Poll (tcpsock args) 10) s = (n1, t1)" by fastforce
  obtain n2 t2 where r: "sys_call os (Recv (Tcp (tcpsock args)) rcvbuffer 0) s = (n2, t2)" by fastforce
  obtain n3 t3 where w: "sapi_write os (embedsockfd (udtsock args) UDT)
      (case spc x of S_write d rest \<Rightarrow> rest | _ \<Rightarrow> []) s = (n3, t3)" by fastforce
  have "quiet s t1" "quiet s t2" "quiet s t3"
    using p r quiet_write [OF w] by (auto intro!: quiet_then_do intro: quiet_intros)
  then show "quiet (env x) (env (s2p_step os dm args x))"
    using p r w by (auto simp: s2p_step_def s_def Let_def intro!: quiet_then_do intro: quiet_intros
        split: s2p.splits option.splits)
next
  define s where "s = as_thread (perr x) (env x)"
  obtain n2 t2 where r: "sys_call os (Recv (Udt (udtsock args)) rcvbuffer 0) s = (n2, t2)" by fastforce
  obtain n3 t3 where w: "sapi_write os (embedsockfd (tcpsock args) TCP)
      (case ppc x of P_write d rest \<Rightarrow> rest | _ \<Rightarrow> []) s = (n3, t3)" by fastforce
  have o: "quiet s (sys_do os c s)" if "no_connect c" for c using that by (rule only_calls_sys_do)
  have "quiet s t2" "quiet s t3" using r quiet_write [OF w] by (auto intro!: quiet_then_do intro: quiet_intros)
  with o r w show "quiet (env x) (env (p2s_step os dm args x))"
    by (auto simp: p2s_step_def s_def Let_def split: p2s.splits option.splits)
qed

lemma quiet_schedule: "quiet (env x) (env (run_schedule os dm args sched x))"
  unfolding run_schedule_def
proof (induction sched arbitrary: x)
  case (Cons b sched)
  show ?case
    using only_calls_trans [OF quiet_threads(1) Cons.IH]
      only_calls_trans [OF quiet_threads(2) Cons.IH] by (cases b) simp_all
qed simp

section \<open>Where a process connects to\<close>

type_synonym event = "call \<times> resp"

text \<open>Among some events, the access check said yes to an address.\<close>

definition allowed_by :: "config \<Rightarrow> event list \<Rightarrow> sockaddr \<Rightarrow> bool" where
  "allowed_by cfg l a \<longleftrightarrow>
     (net_access cfg < 2 \<longrightarrow> (\<exists>q. (Getifaddrs, q) \<in> set l \<and>
        access_allowed (net_access cfg) a (interfaces_of q) = Inr True))"

text \<open>A server connects over TCP to destinations that were allowed before, and in rendezvous
  mode over UDT to the port that the peer opens; a client connects over UDT to the configured
  peer.\<close>

definition connect_ok :: "ready \<Rightarrow> event list \<Rightarrow> endpoint \<times> sockaddr \<Rightarrow> bool" where
  "connect_ok r l c \<longleftrightarrow>
     (if r_mode r = SERVER
      then (\<not> is_udt (fst c) \<and> allowed_by (r_cfg r) l (snd c)) \<or>
           (is_rendezvous (r_cfg r) \<and> is_udt (fst c) \<and> snd c = a_rzv_remote (r_addrs r))
      else is_udt (fst c) \<and> snd c = peer_addr (r_cfg r))"

definition connects_checked :: "ready \<Rightarrow> event list \<Rightarrow> bool" where
  "connects_checked r l \<longleftrightarrow>
     (\<forall>l1 ep a q l2. l = l1 @ (Connect ep a, q) # l2 \<longrightarrow> connect_ok r l1 (ep, a))"

definition connects_well :: "ready \<Rightarrow> 'w sys \<Rightarrow> 'w sys \<Rightarrow> bool" where
  "connects_well r s s' \<longleftrightarrow> (\<exists>l. log s' = log s @ l \<and> connects_checked r l)"

lemma connect_ok_later: "connect_ok r l c \<Longrightarrow> set l \<subseteq> set l' \<Longrightarrow> connect_ok r l' c"
  unfolding connect_ok_def allowed_by_def by (auto split: if_splits)

lemma connects_checked_append:
  assumes "connects_checked r l" and "connects_checked r m"
  shows "connects_checked r (l @ m)"
  unfolding connects_checked_def
proof (intro allI impI)
  fix l1 ep a q l2
  assume "l @ m = l1 @ (Connect ep a, q) # l2"
  then have "(\<exists>us. l1 = l @ us \<and> m = us @ (Connect ep a, q) # l2) \<or>
      (\<exists>us. l = l1 @ (Connect ep a, q) # us)"
    by (auto simp: append_eq_append_conv2 append_eq_Cons_conv)
  then show "connect_ok r l1 (ep, a)"
  proof (elim disjE exE conjE)
    fix us
    assume "l1 = l @ us" and "m = us @ (Connect ep a, q) # l2"
    moreover from this assms(2) have "connect_ok r us (ep, a)" by (auto simp: connects_checked_def)
    ultimately show ?thesis by (auto intro: connect_ok_later)
  qed (use assms(1) in \<open>auto simp: connects_checked_def\<close>)
qed

lemma connects_well_trans [trans]:
  assumes "connects_well r s t" and "connects_well r t u"
  shows "connects_well r s u"
proof -
  from assms obtain l m where "log t = log s @ l" "log u = log t @ m"
      "connects_checked r l" "connects_checked r m" by (auto simp: connects_well_def)
  then show ?thesis
    unfolding connects_well_def by (intro exI [of _ "l @ m"]) (simp add: connects_checked_append)
qed

text \<open>Where all connects are to addresses that are never refused.\<close>

lemma connects_well_only:
  assumes "extends s s'" and "calls_of connects s' = calls_of connects s @ cs"
    and "\<forall>c \<in> set cs. connect_ok r [] c"
  shows "connects_well r s s'"
proof -
  from assms(1) obtain l where l: "log s' = log s @ l" by (auto simp: only_calls_def)
  with assms(2) have cs: "cs = concat (map (\<lambda>e. connects (fst e)) l)" by (simp add: calls_of_def)
  have "connect_ok r l1 (ep, a)" if "l = l1 @ (Connect ep a, q) # l2" for l1 ep a q l2
  proof -
    from that cs have "(ep, a) \<in> set cs" by (simp add: connects_def)
    with assms(3) have "connect_ok r [] (ep, a)" by blast
    then show ?thesis by (rule connect_ok_later) simp
  qed
  with l show ?thesis by (auto simp: connects_well_def connects_checked_def)
qed

lemma quiet_connects_well: "quiet s s' \<Longrightarrow> connects_well r s s'"
  by (rule connects_well_only [of _ _ "[]"]) (simp_all add: quiet_connects only_calls_weaken)

lemma connects_well_refl [simp]: "connects_well r s s"
  by (rule quiet_connects_well) simp

text \<open>A single connect, after events that allow it.\<close>

lemma connects_well_connect:
  assumes "log t = log s @ l" and "quiet s t" and "sys_num os (Connect ep a) t = (rc, u)"
    and "connect_ok r l (ep, a)"
  shows "connects_well r s u"
proof -
  from assms(3) obtain q where u: "log u = log s @ l @ [(Connect ep a, q)]"
    using assms(1) by (auto simp: sys_num_def sys_call_log split: prod.splits)
  have l: "\<not> (\<exists>ep a q. (Connect ep a, q) \<in> set l)"
    using assms(1,2) by (fastforce simp: only_calls_def no_connect_def connects_def)
  have "connects_checked r (l @ [(Connect ep a, q)])"
    unfolding connects_checked_def
  proof (intro allI impI)
    fix l1 ep' a' q' l2
    assume e: "l @ [(Connect ep a, q)] = l1 @ (Connect ep' a', q') # l2"
    have "l2 = []"
    proof (rule ccontr)
      assume "l2 \<noteq> []"
      with e have "l = l1 @ (Connect ep' a', q') # butlast l2"
        by (metis butlast_append butlast_snoc butlast.simps(2) list.discI)
      with l show False by auto
    qed
    with e assms(4) show "connect_ok r l1 (ep', a')" by simp
  qed
  with u show ?thesis unfolding connects_well_def by blast
qed

lemma check_access_events:
  assumes "check_access os (net_access cfg) a s = Inr (True, s')"
  shows "\<exists>l. log s' = log s @ l \<and> allowed_by cfg l a"
  using assms
  by (auto simp: check_access_def bindR_eq_Inr sys_call_log allowed_by_def Let_def
      split: if_splits prod.splits)

lemma connect_loop_connects:
  assumes "connect_loop os fd a s = Some c"
  shows "\<exists>n t. c = Connected t \<and> extends s t \<and>
    calls_of connects t = calls_of connects s @ replicate n (Udt fd, a)"
  using assms
proof (induction rule: connect_loop_induct)
  case (again s rc t)
  then obtain n t' where "c = Connected t'" "extends t t'"
      "calls_of connects t' = calls_of connects t @ replicate n (Udt fd, a)" by blast
  with only_calls_sys_num [OF again(1), of "\<lambda>c. True"] calls_of_num [OF again(1), of connects]
  show ?case by (intro exI [of _ "Suc n"] exI [of _ t']) (auto intro: only_calls_trans)
next
  case (connected s rc t)
  with only_calls_sys_num [OF connected(1), of "\<lambda>c. True"] calls_of_num [OF connected(1), of connects]
  show ?case by (intro exI [of _ 1]) auto
qed

lemma next_peer_connects:
  assumes "next_peer os (r_cfg r) (r_addrs r) l old st s = Some (Inr (sock, addr, st', s'))"
    and "r_mode r = SERVER"
  shows "connects_well r s s'"
proof (cases "is_rendezvous (r_cfg r)")
  case False
  with assms(1) show ?thesis
    by (cases "sys_call os (Accept (Udt l)) s")
      (auto simp: next_peer_def intro!: quiet_connects_well quiet_then_do intro: quiet_intros
        split: if_splits)
next
  case True
  obtain fd s1 where 1: "sys_num os (Socket Udt_kind) s = (fd, s1)" by fastforce
  with True assms(1) obtain st1 s2 where
    2: "relay_setsockopt os fd (opt_order (r_cfg r)) (udt_opts (r_cfg r)) True st s1 = Inr (st1, s2)"
    by (auto simp: next_peer_def bindO_eq_Inr)
  obtain rb s3 where 3: "sys_num os (Bind (Udt fd) (serv_addr (r_addrs r))) s2 = (rb, s3)" by fastforce
  have "quiet s s1" using 1 by (rule quiet_num) simp_all
  with quiet_setsockopt [OF 2] have "quiet s s2" by (blast intro: only_calls_trans)
  with 3 have q3: "quiet s s3" by (rule quiet_num) simp
  note run = assms(1) [unfolded next_peer_def Let_def 1 prod.case 2 bindO_simps 3]
  show ?thesis
  proof (cases "rb = -1")
    case rb: True
    with True run have "s' = sys_do os (Say LOG_ERR ''udt bind: %s'') s3" by simp
    with q3 show ?thesis by (auto intro!: quiet_connects_well quiet_then_do)
  next
    case False
    with True run obtain c where c: "connect_loop os fd (a_rzv_remote (r_addrs r)) s3 = Some c"
      by (cases "connect_loop os fd (a_rzv_remote (r_addrs r)) s3") auto
    from connect_loop_connects [OF c] obtain n t where t: "c = Connected t" "extends s3 t"
        "calls_of connects t = calls_of connects s3 @ replicate n (Udt fd, a_rzv_remote (r_addrs r))"
      by blast
    obtain q s5 where 5: "sys_call os (Getpeername (Udt fd)) t = (q, s5)" by fastforce
    from t True assms(2) have "connects_well r s3 t"
      by (intro connects_well_only) (auto simp: connect_ok_def)
    moreover have "connects_well r t s5"
      by (intro quiet_connects_well only_calls_sys_call [OF 5]) simp
    moreover have "s' = s5" using True False run c t(1) 5 by simp
    ultimately show ?thesis using quiet_connects_well [OF q3] by (blast intro: connects_well_trans)
  qed
qed

lemma iteration_connects:
  assumes "iteration os r addr st s = Some (Inr (a, addr', st', s'))" and "r_mode r \<noteq> DUAL"
  shows "connects_well r s s'"
proof (cases "r_mode r = SERVER")
  case True
  with assms(1) have run: "server_iteration os (r_cfg r) (r_addrs r) (r_noisy r) (r_fd r) addr st s =
      Some (Inr (a, addr', st', s'))" by (simp add: iteration_def)
  then obtain sock addr1 st1 s1 where
    n: "next_peer os (r_cfg r) (r_addrs r) (r_fd r) addr st s = Some (Inr (sock, addr1, st1, s1))"
    by (auto simp: server_iteration_def bindO_eq_Inr)
  have "quiet s1 s'"
    using run [unfolded server_iteration_def n bindO_simps prod.case]
    by (auto simp: bindO_eq_Inr Let_def split: option.splits if_splits dest!: quiet_setsockopt
        intro!: quiet_then_do intro: quiet_intros quiet_after)
  with next_peer_connects [OF n True] show ?thesis
    by (blast intro: connects_well_trans quiet_connects_well)
next
  case False
  obtain q s1 where c: "sys_call os (Accept (Tcp (r_fd r))) s = (q, s1)" by fastforce
  have q1: "quiet s s1" using c by (rule only_calls_sys_call) simp
  from False assms(1) c have "quiet s1 s'"
    by (auto simp: iteration_def client_iteration_def bindO_eq_Inr bindR_eq_Inr Let_def
        split: if_splits dest!: quiet_check intro!: quiet_then_do intro: quiet_intros)
  with q1 show ?thesis by (blast intro: quiet_connects_well only_calls_trans)
qed

lemma quiet_recvs: "only_calls (recv_call ep) s s' \<Longrightarrow> quiet s s'"
  by (erule only_calls_weaken) (auto simp: recv_call_def)

lemma quiet_reply: "quiet s t \<Longrightarrow> quiet s (send_reply os ep code spkt t)"
  unfolding send_reply_def by (rule quiet_then_do) simp_all

lemma server_handshake_connects:
  assumes "server_handshake os (r_cfg r) u junk jc s = Some (Inr (e, s'))" and "length junk = 8"
    and "r_mode r = SERVER"
  shows "connects_well r s s'"
proof -
  have a: "quiet s s2" if "sys_num os (Socket Tcp_kind) s = (peer, s1)"
      and "recv_pkt os u 0 junk s1 = Some (Inr (spkt, s2))" for peer s1 spkt s2
    using quiet_num [OF that(1) only_calls_refl] server_request_read [OF that assms(2)]
    by (auto dest: quiet_recvs intro: only_calls_trans)
  have b: "quiet s2 s4" if "skip_userid os (Udt u) jc s2 = Some (Inr s3)"
      and "check_access os na addr s3 = Inr (ok, s4)" for s2 s3 s4 na addr ok
    using skip_userid_result [OF that(1)] quiet_check [OF that(2)]
    by (auto dest!: quiet_recvs intro: only_calls_trans)
  from assms(1) show ?thesis
  proof (cases rule: server_cases)
    case 1
    with a [OF 1(1,2)] have "quiet s s'" by (auto intro!: quiet_reply quiet_then_do)
    then show ?thesis by (rule quiet_connects_well)
  next
    case (2 s1 s2 s3 s4 spkt peer)
    from only_calls_trans [OF a [OF 2(1,2)] b [OF 2(5,6)]] 2(8) have "quiet s s'"
      by (auto intro!: quiet_reply quiet_then_do)
    then show ?thesis by (rule quiet_connects_well)
  next
    case (3 s1 s2 s3 s4 s5 spkt peer rc)
    have "quiet s s3"
      using a [OF 3(1,2)] skip_userid_result [OF 3(5)] by (auto dest!: quiet_recvs intro: only_calls_trans)
    moreover from check_access_events [OF 3(6)] obtain l where
      "log s4 = log s3 @ l" "allowed_by (r_cfg r) l (dest_addr (pkt_of spkt))" by blast
    then have "connects_well r s3 s5"
      using quiet_check [OF 3(6)] 3(7) assms(3)
      by (intro connects_well_connect) (auto simp: connect_ok_def)
    moreover have "quiet s5 s'" using 3(8) by (auto intro!: quiet_reply quiet_then_do)
    ultimately show ?thesis by (blast intro: quiet_connects_well connects_well_trans)
  qed
qed

lemma client_handshake_connects:
  assumes "client_handshake os (r_cfg r) fd junk jc st s = Some (Inr (e, st', s'))"
    and "length junk = 8" and "r_mode r = CLIENT"
  shows "connects_well r s s'"
proof -
  have a: "quiet s s2" if "sys_num os (Socket Udt_kind) s = (peer, s1)"
      and "sys_call os (Recv (Tcp fd) 8 MSG_WAITALL) s1 = (q, s2)" for peer s1 q s2
    using quiet_num [OF that(1) only_calls_refl] only_calls_sys_call [OF that(2), of no_connect]
    by (auto intro: only_calls_trans)
  from assms(1) show ?thesis
  proof (cases rule: client_cases)
    case (1 s1 s2 spkt peer q m code)
    with a [OF 1(1,2)] have "quiet s s'" by (auto intro!: quiet_reply quiet_then_do)
    then show ?thesis by (rule quiet_connects_well)
  next
    case (2 s1 s2 s3 s4 s5 s6 spkt peer q rb rc baddr)
    note p = client_prefix [OF 2(1,2) assms(2)] and su = client_setup [OF 2(6-9)]
    from a [OF 2(1,2)] have "connects_well r s s2" by (rule quiet_connects_well)
    moreover have "connects_well r s2 s6"
      using su assms(3) by (intro connects_well_only [of s2 s6 "[(Udt peer, peer_addr (r_cfg r))]"])
        (auto simp: connect_ok_def)
    moreover have "quiet s6 s'"
    proof (cases "rc = -1")
      case True
      with 2(10) show ?thesis by (auto intro!: quiet_reply quiet_then_do)
    next
      case False
      with 2(10) obtain spkt' s9 where
        w: "wait_reply os peer spkt
            (sys_do os (Send (Udt peer) [0] 0) (sys_do os (Send (Udt peer) spkt 0) s6)) =
            Some (Inr (spkt', s9))" and
        e: "s' = sys_do os (Send (Tcp fd) spkt' 0) s9 \<or> s' = sys_do os
            (Say LOG_ERR ''remote peer socks error'') (sys_do os (Send (Tcp fd) spkt' 0) s9)"
        by auto
      have "length spkt = 8" using p by (simp add: 2(3))
      from wait_reply_result [OF w this] have
        "quiet (sys_do os (Send (Udt peer) [0] 0) (sys_do os (Send (Udt peer) spkt 0) s6)) s9"
        by (auto intro: quiet_recvs)
      then have "quiet s6 s9" by (auto dest!: quiet_after)
      with e show ?thesis by (auto intro!: quiet_then_do)
    qed
    ultimately show ?thesis by (blast intro: connects_well_trans quiet_connects_well)
  qed
qed

lemma quiet_finish: "quiet s t \<Longrightarrow> quiet s (finish_child os noisy args t)"
  by (auto simp: finish_child_def close_both_def Let_def intro!: quiet_then_do)

lemma child_connects:
  assumes "start_child os (r_cfg r) dm noisy (r_mode r) fd junk jc sched st s = Some (Inr (st', s'))"
    and "length junk = 8" and "r_mode r \<noteq> DUAL"
  shows "connects_well r s s'"
proof -
  obtain e st1 t where t: "connects_well r s t" and
      rest: "(case e of
          Returned \<Rightarrow> Some (Inr (st1, t))
        | Broken args \<Rightarrow> Some (Inr (st1, finish_child os noisy args t))
        | Relay args \<Rightarrow>
            bindO (run_threads os dm args sched t)
              (\<lambda>s''. Some (Inr (st1, finish_child os noisy args s'')))) = Some (Inr (st', s'))"
  proof (cases "r_mode r = SERVER")
    case True
    define g where "g = sys_do os (Getpeername (Udt fd)) s"
    have "connects_well r s g"
      unfolding g_def by (intro quiet_connects_well quiet_then_do only_calls_refl) simp
    moreover from True assms(1) obtain e t where
      h: "server_handshake os (r_cfg r) fd junk jc g = Some (Inr (e, t))"
      by (auto simp: start_child_def bindO_eq_Inr g_def)
    ultimately have "connects_well r s t"
      using server_handshake_connects [OF h assms(2) True] by (blast intro: connects_well_trans)
    with True assms(1) h show ?thesis by (intro that [of t st e]) (simp_all add: start_child_def g_def)
  next
    case False
    define g where "g = sys_do os (Getpeername (Tcp fd)) s"
    have "connects_well r s g"
      unfolding g_def by (intro quiet_connects_well quiet_then_do only_calls_refl) simp
    moreover from False assms(1) obtain e st1 t where
      h: "client_handshake os (r_cfg r) fd junk jc st g = Some (Inr (e, st1, t))"
      by (auto simp: start_child_def bindO_eq_Inr g_def)
    moreover from False assms(3) have "r_mode r = CLIENT" by (cases "r_mode r") auto
    ultimately have "connects_well r s t"
      using client_handshake_connects [OF h assms(2)] by (blast intro: connects_well_trans)
    with False assms(1) h show ?thesis by (intro that [of t st1 e]) (simp_all add: start_child_def g_def)
  qed
  have "quiet t s'"
  proof (cases e)
    case (Relay args)
    with rest obtain t' where "run_threads os dm args sched t = Some (Inr t')"
        and "s' = finish_child os noisy args t'" by (auto simp: bindO_eq_Inr)
    with run_threads_joined [of os dm args sched t t']
      quiet_schedule [of "relay_start args t" os dm args sched]
    show ?thesis by (auto simp: relay_start_def intro: quiet_finish)
  qed (use rest in \<open>auto intro: quiet_finish\<close>)
  with t show ?thesis by (blast intro: connects_well_trans quiet_connects_well)
qed

section \<open>The property\<close>

definition process_inv :: "ready \<Rightarrow> 'w sys \<Rightarrow> 'w process \<Rightarrow> bool" where
  "process_inv r s0 p \<longleftrightarrow> (r_mode r \<noteq> DUAL \<longrightarrow> connects_well r s0 (p_sys p))"

interpretation process: inductive_invariant "process_start r st s0" "process_step os dm r" "process_inv r s0"
  for os :: "'w os" and dm r st s0
proof unfold_locales
  fix p :: "'w process"
  assume "process_start r st s0 p"
  then show "process_inv r s0 p" by (simp add: process_start_def process_inv_def)
next
  fix p q :: "'w process"
  assume "process_step os dm r p q" and "process_inv r s0 p"
  then show "process_inv r s0 q"
    by (elim process_stepE)
      (auto simp: process_inv_def dest: iteration_connects child_connects intro: connects_well_trans)
qed

text \<open>In its whole life, whatever the order of its iterations and children and whatever the
  network answers, a process that serves socks connections connects only over UDT, and only to
  the configured peer. A process that serves peer connections connects over TCP only to
  addresses for which the access check has said yes before (or access is unlimited), and over
  UDT only in rendezvous mode, to the port that the peer opens.\<close>

theorem process_connects_where_allowed:
  assumes "relay_main os order gai getopts args st0 s = Some (Inr (r, st, s0))"
    and "reach (process_start r st s0) (process_step os dm r) p"
  shows "\<exists>l. log (p_sys p) = log s @ l \<and>
    (\<forall>l1 ep a q l2. l = l1 @ (Connect ep a, q) # l2 \<longrightarrow>
      (r_mode r = CLIENT \<longrightarrow> is_udt ep \<and> a = peer_addr (r_cfg r)) \<and>
      (r_mode r = SERVER \<longrightarrow> \<not> is_udt ep \<and> allowed_by (r_cfg r) l1 a \<or>
        is_rendezvous (r_cfg r) \<and> is_udt ep \<and> a = a_rzv_remote (r_addrs r)))"
proof -
  have "r_mode r \<noteq> DUAL" using assms(1) by (rule main_mode)
  with process.reach_inv [OF assms(2)] have "connects_well r s0 (p_sys p)"
    by (simp add: process_inv_def)
  with quiet_connects_well [OF quiet_main [OF assms(1)]] have "connects_well r s (p_sys p)"
    by (rule connects_well_trans)
  then show ?thesis
    unfolding connects_well_def connects_checked_def connect_ok_def by (auto split: if_splits) blast+
qed

lemma connect_in_log:
  assumes "(ep, a) \<in> set (calls_of connects s)"
  shows "\<exists>l1 q l2. log s = l1 @ (Connect ep a, q) # l2"
proof -
  from assms obtain c q where "(c, q) \<in> set (log s)" "(ep, a) \<in> set (connects c)"
    by (auto simp: calls_of_def)
  moreover from this(2) have "c = Connect ep a" by (auto simp: connects_def split: call.splits)
  ultimately show ?thesis by (metis split_list)
qed

text \<open>A client with unlimited access that accepts one application, whose request it cannot
  forward.\<close>

definition sample_ready :: ready where
  "sample_ready =
     \<lparr>r_mode = CLIENT,
      r_cfg = \<lparr>net_access = 2, is_rendezvous = False, udt_opts = Map.empty, opt_order = [],
        peer_addr = peer_at 7, rzv_local = inaddr_any\<rparr>,
      r_addrs = \<lparr>serv_addr = peer_at 7, a_peer = peer_at 7, a_rzv_local = inaddr_any,
        a_rzv_remote = inaddr_any\<rparr>,
      r_noisy = False, r_fd = 3\<rparr>"

definition sample_child :: "resp list" where
  "sample_child = [Ret 0, Ret 9, Data [4, 1, 0, 80, 10, 0, 0, 1], Data [0],
     Ret 8192, Ret 3, Ret 0, Ret 0, Ret 0, Ret 8192, Ret 3, Ret 0, Ret 0, Ret 0,
     Ret 0, Fail 2001]"

lemma sample_main:
  "\<exists>s0. relay_main script [] (\<lambda>h p. Some (peer_at 7))
      [(CHR ''C'', ''''), (CHR ''N'', ''''), (CHR ''N'', '''')]
      [''1081'', ''9000'', ''site2''] fresh_statics
      (start ([Ret 0, Ret 0, Ret 3, Ret 0, Ret 0, Ret 0, Addr 5 inaddr_any] @ sample_child)) =
      Some (Inr (sample_ready, fresh_statics, s0)) \<and>
    world s0 = Addr 5 inaddr_any # sample_child \<and> calls_of connects s0 = []"
  by (simp add: relay_main_def command_line_def handle_option_def initial_options_def
      not_colon_def MAX_NAME_SZ_def positional_def scan_peer_def demonize_def settle_debug_def
      fork_servers_def start_server_def resolve_def lookup_addr_def open_listener_def
      server_config_def sample_ready_def connects_def
      sys_num_def sys_do_def sys_call_def answer_def script_def start_def of_udt_def Let_def
      calls_of_def)

lemma sample_accept:
  "world s0 = Addr 5 inaddr_any # sample_child \<Longrightarrow>
    \<exists>s1. iteration script sample_ready inaddr_any fresh_statics s0 =
      Some (Inr (Accepted 5, inaddr_any, fresh_statics, s1)) \<and>
      world s1 = sample_child \<and> calls_of connects s1 = calls_of connects s0"
  by (simp add: iteration_def sample_ready_def client_iteration_def check_access_def addr_of_def
      sys_call_def answer_def script_def Let_def calls_of_def connects_def)

lemma sample_serve:
  "world s1 = sample_child \<Longrightarrow>
    \<exists>st2 s2. start_child script (r_cfg sample_ready) 0 False CLIENT 5 (replicate 8 0) 0 []
      fresh_statics s1 = Some (Inr (st2, s2)) \<and>
      calls_of connects s2 = calls_of connects s1 @ [(Udt 9, peer_at 7)]"
  by (simp add: start_child_def client_handshake_def run_simps sample_ready_def sample_child_def
      relay_setsockopt_def check_udp_buffer_def fresh_statics_def fresh_stat_def
      stat_of_def set_stat_def requested_size_def probe_if_new_def probe_udp.simps u32_def
      is_custom_value_def finish_child_def close_both_def Let_def calls_of_def connects_def)

theorem process_connects_where_allowed_witness:
  "\<exists>(p :: resp list process) l1 l2 q. log (p_sys p) = l1 @ (Connect (Udt 9) (peer_at 7), q) # l2 \<and>
    (\<forall>l1 ep a q l2. log (p_sys p) = l1 @ (Connect ep a, q) # l2 \<longrightarrow> is_udt ep \<and> a = peer_at 7)"
proof -
  obtain s0 where m: "relay_main script [] (\<lambda>h p. Some (peer_at 7))
      [(CHR ''C'', ''''), (CHR ''N'', ''''), (CHR ''N'', '''')]
      [''1081'', ''9000'', ''site2''] fresh_statics
      (start ([Ret 0, Ret 0, Ret 3, Ret 0, Ret 0, Ret 0, Addr 5 inaddr_any] @ sample_child)) =
      Some (Inr (sample_ready, fresh_statics, s0))"
    and w0: "world s0 = Addr 5 inaddr_any # sample_child" and c0: "calls_of connects s0 = []"
    using sample_main by blast
  from sample_accept [OF w0] obtain s1 where
    it: "iteration script sample_ready inaddr_any fresh_statics s0 =
      Some (Inr (Accepted 5, inaddr_any, fresh_statics, s1))" and w1: "world s1 = sample_child"
    and c1: "calls_of connects s1 = []" using c0 by auto
  from sample_serve [OF w1] obtain st2 s2 where
    ch: "start_child script (r_cfg sample_ready) 0 False CLIENT 5 (replicate 8 0) 0 []
      fresh_statics s1 = Some (Inr (st2, s2))" and
    c2: "calls_of connects s2 = [(Udt 9, peer_at 7)]" using c1 by auto
  define p0 where "p0 = \<lparr>p_sys = s0, p_statics = fresh_statics, p_addr = inaddr_any,
    p_loop = no_threads, p_running = True\<rparr>"
  define p1 where "p1 = \<lparr>p_sys = s1, p_statics = fresh_statics, p_addr = inaddr_any,
    p_loop = arrives (Accepted 5) no_threads, p_running = True\<rparr>"
  define p2 where "p2 = p1\<lparr>p_loop := reads 0 (p_loop p1)\<rparr>"
  define p3 where "p3 = p2\<lparr>p_sys := s2, p_statics := st2, p_loop := drop_thread 0 (p_loop p2)\<rparr>"
  let ?reach = "reach (process_start sample_ready fresh_statics s0) (process_step script 0 sample_ready)"
  have "?reach p0" by (rule reach_init) (simp add: p0_def process_start_def)
  moreover have "process_step script 0 sample_ready p0 p1"
    using process_step.accept [of p0 script sample_ready "Accepted 5" inaddr_any fresh_statics s1 0] it
    by (simp add: p0_def p1_def)
  moreover have "process_step script 0 sample_ready p1 p2"
    unfolding p2_def by (rule process_step.argument) (simp_all add: p1_def)
  moreover have "process_step script 0 sample_ready p2 p3"
    unfolding p3_def
    by (rule process_step.child [where fd = 5 and junk = "replicate 8 0" and jc = 0 and sched = "[]"])
      (use ch in \<open>simp_all add: p2_def p1_def reads_def sample_ready_def\<close>)
  ultimately have "?reach p3" by (blast intro: reach_step)
  from process_connects_where_allowed [OF m this] have
      "\<forall>l1 ep a q l2. log (p_sys p3) = l1 @ (Connect ep a, q) # l2 \<longrightarrow> is_udt ep \<and> a = peer_at 7"
    by (simp add: sample_ready_def start_def)
  moreover obtain l1 q l2 where "log (p_sys p3) = l1 @ (Connect (Udt 9) (peer_at 7), q) # l2"
    using connect_in_log [of "Udt 9" "peer_at 7" s2] c2 by (auto simp: p3_def)
  ultimately show ?thesis by blast
qed

end
