(* ===== verification/Worker.thy ===== *)
theory Worker
  imports Sock_Select Loopbuffer
begin

text \<open>
  \<open>utl::worker\<close> of \<^verbatim>\<open>src/lib/worker.cpp\<close>: one thread that moves data between \<open>fd_in\<close>/\<open>fd_out\<close>
  and \<open>sd\<close> through two ring buffers, driven by \<open>SOCK_API::select\<close>. One definition per block
  of its loop, composed in the order of the code. \<open>None\<close> is a call that does not return.
  Debug messages are left out, except for the \<open>dump_str\<close> calls in their arguments.
\<close>


section \<open>State\<close>

abbreviation R_ACTIVE :: int where "R_ACTIVE \<equiv> 1"
abbreviation W_ACTIVE :: int where "W_ACTIVE \<equiv> 2"
abbreviation R_FWD_SHUT :: int where "R_FWD_SHUT \<equiv> 4"
abbreviation W_FWD_SHUT :: int where "W_FWD_SHUT \<equiv> 8"
abbreviation R_REV_SHUT :: int where "R_REV_SHUT \<equiv> 16"
abbreviation W_REV_SHUT :: int where "W_REV_SHUT \<equiv> 32"

record worker =
  status :: int
  fwd_buf :: loopbuffer
  rev_buf :: loopbuffer

definition has :: "int \<Rightarrow> worker \<Rightarrow> bool" where
  "has b k \<longleftrightarrow> status k AND b \<noteq> 0"

definition raise_bits :: "int \<Rightarrow> worker \<Rightarrow> worker" where
  "raise_bits b k = k\<lparr>status := status k OR b\<rparr>"

definition clear_bits :: "int \<Rightarrow> worker \<Rightarrow> worker" where
  "clear_bits b k = k\<lparr>status := status k AND NOT b\<rparr>"

definition blsize :: int where "blsize = 32 * 1024"
definition bfsize :: int where "bfsize = 32 * blsize"

text \<open>\<open>dump_str(str, p, n, sz, dump_message)\<close> into the array \<open>str\<close>, with the memory from \<open>p\<close>.\<close>

definition worker_dump :: "int \<Rightarrow> byte list \<Rightarrow> int \<Rightarrow> int \<Rightarrow> unit result" where
  "worker_dump dm mem n sz =
     bindR (dump_str mem n sz dm)
       (\<lambda>str. if c_size str \<le> dump_buffer_size dm then Inr () else Inl (Fault Out_of_bounds))"


section \<open>The blocks of the loop\<close>

text \<open>\<open>fd_in -> sd\<close>, reading.\<close>

definition fwd_read ::
  "'w os \<Rightarrow> int \<Rightarrow> int \<Rightarrow> bool \<Rightarrow> worker \<Rightarrow> 'w sys \<Rightarrow> (worker \<times> 'w sys) result" where
  "fwd_read os dm fd_in ready k s =
     (if ready \<and> \<not> lb_isful (fwd_buf k) \<and> \<not> has R_FWD_SHUT k then
        let n = lb_getWriteSpace (fwd_buf k);
            ((sz, data), s1) = sapi_read os fd_in n s
        in if sz > 0 then
             bindR (lb_poke data (fwd_buf k)) (\<lambda>b1.
             bindR (lb_writen sz b1) (\<lambda>b2.
             bindR (worker_dump dm (drop (nat (lb_read_p b2)) (lb_buf b2)) n sz)
               (\<lambda>u. Inr (k\<lparr>fwd_buf := b2\<rparr>, s1))))
           else if sz = 0 then Inr (k, s1)
           else Inr (raise_bits (R_FWD_SHUT OR W_FWD_SHUT) k, s1)
      else Inr (k, s))"

text \<open>\<open>fd_in -> sd\<close>, writing.\<close>

definition fwd_write ::
  "'w os \<Rightarrow> int \<Rightarrow> int \<Rightarrow> bool \<Rightarrow> worker \<Rightarrow> 'w sys \<Rightarrow> (worker \<times> 'w sys) result" where
  "fwd_write os dm sd ready k s =
     (if ready \<and> \<not> lb_isempty (fwd_buf k) \<and> \<not> has W_FWD_SHUT k then
        bindR (lb_peek (lb_getReadSpace (fwd_buf k)) (fwd_buf k)) (\<lambda>bs.
          let (sz, s1) = sapi_write os sd bs s
          in if sz > 0 then
               bindR (worker_dump dm (drop (nat (lb_read_p (fwd_buf k))) (lb_buf (fwd_buf k)))
                       (lb_getReadSpace (fwd_buf k)) sz) (\<lambda>u.
               bindR (lb_readn sz (fwd_buf k)) (\<lambda>b. Inr (k\<lparr>fwd_buf := b\<rparr>, s1)))
             else Inr (raise_bits (W_FWD_SHUT OR R_FWD_SHUT) k, s1))
      else Inr (k, s))"

text \<open>The other direction: the code reads \<open>fd_in\<close> when \<open>sd\<close> is ready, and writes to \<open>sd\<close>
  when \<open>fd_out\<close> is ready.\<close>

definition rev_read ::
  "'w os \<Rightarrow> int \<Rightarrow> int \<Rightarrow> bool \<Rightarrow> worker \<Rightarrow> 'w sys \<Rightarrow> (worker \<times> 'w sys) result" where
  "rev_read os dm fd_in ready k s =
     (if ready \<and> \<not> lb_isful (rev_buf k) \<and> \<not> has R_REV_SHUT k then
        let n = lb_getWriteSpace (rev_buf k);
            ((sz, data), s1) = sapi_read os fd_in n s
        in if sz > 0 then
             bindR (lb_poke data (rev_buf k)) (\<lambda>b1.
             bindR (worker_dump dm (drop (nat (lb_writ_p b1)) (lb_buf b1)) n sz) (\<lambda>u.
             bindR (lb_writen sz b1) (\<lambda>b2. Inr (k\<lparr>rev_buf := b2\<rparr>, s1))))
           else if sz = 0 then Inr (raise_bits R_REV_SHUT k, s1)
           else Inr (raise_bits (R_REV_SHUT OR W_REV_SHUT) k, s1)
      else Inr (k, s))"

definition rev_write ::
  "'w os \<Rightarrow> int \<Rightarrow> int \<Rightarrow> bool \<Rightarrow> worker \<Rightarrow> 'w sys \<Rightarrow> (worker \<times> 'w sys) result" where
  "rev_write os dm sd ready k s =
     (if ready \<and> \<not> lb_isempty (rev_buf k) \<and> \<not> has W_REV_SHUT k then
        let n = lb_getReadSpace (rev_buf k)
        in bindR (lb_peek n (rev_buf k)) (\<lambda>bs.
             let (sz, s1) = sapi_write os sd bs s
             in if sz > 0 then
                  bindR (worker_dump dm (drop (nat (lb_read_p (rev_buf k))) (lb_buf (rev_buf k))) n sz)
                    (\<lambda>u. bindR (lb_readn sz (rev_buf k)) (\<lambda>b. Inr (k\<lparr>rev_buf := b\<rparr>, s1)))
                else Inr (raise_bits (W_REV_SHUT OR R_REV_SHUT) k, s1))
      else Inr (k, s))"

text \<open>The sets of one round.\<close>

definition read_sets :: "int \<Rightarrow> int \<Rightarrow> int \<Rightarrow> (fdset \<times> fdset) result" where
  "read_sets fd_in fd_out sd =
     bindR (FDSET_SET fd_in FDSET_ZERO) (\<lambda>r1.
     bindR (FDSET_SET sd r1) (\<lambda>rset.
     bindR (FDSET_SET fd_in FDSET_ZERO) (\<lambda>e1.
     bindR (FDSET_SET fd_out e1) (\<lambda>e2.
     bindR (FDSET_SET sd e2) (\<lambda>eset. Inr (rset, eset))))))"

definition write_sets :: "int \<Rightarrow> int \<Rightarrow> int \<Rightarrow> fdset \<Rightarrow> fdset \<Rightarrow> (bool \<times> bool \<times> fdset \<times> fdset) result" where
  "write_sets fd_in fd_out sd rset eset =
     bindR (FDSET_ISSET fd_in rset) (\<lambda>in_ready.
     bindR (if in_ready then FDSET_SET sd FDSET_ZERO else Inr FDSET_ZERO) (\<lambda>w1.
     bindR (FDSET_ISSET sd rset) (\<lambda>sd_ready.
     bindR (if sd_ready then FDSET_SET fd_out w1 else Inr w1) (\<lambda>wset.
     bindR (FDSET_SET fd_in eset) (\<lambda>e1.
     bindR (FDSET_SET fd_out e1) (\<lambda>e2.
     bindR (FDSET_SET sd e2) (\<lambda>eset'. Inr (in_ready, sd_ready, wset, eset'))))))))"

text \<open>The transfers of one round, with what is ready for reading and writing.\<close>

definition transfers ::
  "'w os \<Rightarrow> int \<Rightarrow> int \<Rightarrow> int \<Rightarrow> bool \<Rightarrow> bool \<Rightarrow> bool \<Rightarrow> bool \<Rightarrow> worker \<Rightarrow> 'w sys \<Rightarrow>
     (worker \<times> 'w sys) result" where
  "transfers os dm fd_in sd in_ready sd_ready sd_writable out_writable k s =
     bindR (fwd_read os dm fd_in in_ready k s) (\<lambda>(k1, s1).
     bindR (fwd_write os dm sd sd_writable k1 s1) (\<lambda>(k2, s2).
       let k3 = (if lb_isempty (fwd_buf k2) \<and> has R_FWD_SHUT k2 then raise_bits W_FWD_SHUT k2 else k2)
       in bindR (rev_read os dm fd_in sd_ready k3 s2) (\<lambda>(k4, s4).
          bindR (rev_write os dm sd out_writable k4 s4) (\<lambda>(k5, s5).
            let k6 = (if lb_isempty (rev_buf k5) \<and> has R_REV_SHUT k5 then raise_bits W_REV_SHUT k5
                      else k5)
            in Inr (k6, s5)))))"

text \<open>One round of the loop.\<close>

definition interval :: "bool \<Rightarrow> timeval option" where
  "interval active = Some (if active then \<lparr>tv_sec = 0, tv_usec = 0\<rparr> else \<lparr>tv_sec = 0, tv_usec = 10\<rparr>)"

definition worker_round ::
  "'w os \<Rightarrow> (int \<Rightarrow> int) \<Rightarrow> int \<Rightarrow> int \<Rightarrow> int \<Rightarrow> int \<Rightarrow> int \<Rightarrow> worker \<Rightarrow> 'w sys \<Rightarrow>
     (worker \<times> 'w sys) result option" where
  "worker_round os left dm nfds fd_in fd_out sd k s =
     (let s1 = sys_do os (Pause 500000) s
      in bindO (Some (read_sets fd_in fd_out sd)) (\<lambda>(rset, eset).
         case sapi_select os left nfds (Some rset) None (Some eset) (interval (has R_ACTIVE k)) s1 of
           None \<Rightarrow> None
         | Some (n1, (rset', w', eset'), s2) \<Rightarrow>
             let k1 = (if n1 > 0 then raise_bits R_ACTIVE k else clear_bits R_ACTIVE k)
             in bindO (Some (write_sets fd_in fd_out sd rset' eset'))
                  (\<lambda>(in_ready, sd_ready, wset, eset2).
                case sapi_select os left nfds None (Some wset) (Some eset2)
                       (interval (has W_ACTIVE k1)) s2 of
                  None \<Rightarrow> None
                | Some (n2, (r2, wset', e2), s3) \<Rightarrow>
                    let k2 = (if n2 > 0 then raise_bits W_ACTIVE k1 else clear_bits W_ACTIVE k1);
                        k3 = clear_bits (R_ACTIVE OR W_ACTIVE) k2
                    in bindO (Some (FDSET_ISSET sd wset')) (\<lambda>sd_writable.
                       bindO (Some (FDSET_ISSET fd_out wset')) (\<lambda>out_writable.
                         Some (transfers os dm fd_in sd in_ready sd_ready sd_writable out_writable
                                 k3 s3))))))"

definition worker_start :: "byte list \<Rightarrow> byte list \<Rightarrow> worker" where
  "worker_start mem1 mem2 =
     \<lparr>status = R_ACTIVE OR W_ACTIVE, fwd_buf = lb_new mem1 blsize, rev_buf = lb_new mem2 blsize\<rparr>"

text \<open>\<open>timeout\<close> is the number of seconds, \<open>None\<close> for the null pointer; \<open>stamp\<close> the time at
  the start.\<close>

partial_function (option) worker_loop ::
  "'w os \<Rightarrow> (int \<Rightarrow> int) \<Rightarrow> int \<Rightarrow> int \<Rightarrow> int \<Rightarrow> int \<Rightarrow> int \<Rightarrow> int \<Rightarrow> int option \<Rightarrow> worker \<Rightarrow> 'w sys \<Rightarrow>
     (worker \<times> 'w sys) result option" where
  "worker_loop os left dm nfds fd_in fd_out sd stamp timeout k s =
     (if has W_FWD_SHUT k \<and> has W_REV_SHUT k then Some (Inr (k, s))
      else
        case (case timeout of
                None \<Rightarrow> (True, s)
              | Some limit \<Rightarrow> (case sys_num os Time s of (now, s1) \<Rightarrow> (now - stamp < limit, s1))) of
          (go, s1) \<Rightarrow>
            if \<not> go then Some (Inr (k, s1))
            else case worker_round os left dm nfds fd_in fd_out sd k s1 of
                   None \<Rightarrow> None
                 | Some (Inl e) \<Rightarrow> Some (Inl e)
                 | Some (Inr (k', s')) \<Rightarrow>
                     worker_loop os left dm nfds fd_in fd_out sd stamp timeout k' s')"

text \<open>\<open>log_die\<close> ends the process when a socket cannot be made non-blocking.\<close>

definition unblock :: "'w os \<Rightarrow> int \<Rightarrow> 'w sys \<Rightarrow> 'w sys result" where
  "unblock os fd s =
     (let (rc, s1) = sapi_setsockopt os fd 0 UDT_SNDSYN 0 s
      in if rc \<noteq> 0 then Inl (Exited 1) else Inr s1)"

definition utl_worker ::
  "'w os \<Rightarrow> (int \<Rightarrow> int) \<Rightarrow> int \<Rightarrow> byte list \<Rightarrow> byte list \<Rightarrow> int \<Rightarrow> int \<Rightarrow> int \<Rightarrow> int option \<Rightarrow>
     'w sys \<Rightarrow> (int \<times> 'w sys) result option" where
  "utl_worker os left dm mem1 mem2 fd_in fd_out sd timeout s =
     bindO (Some (unblock os fd_in s)) (\<lambda>s1.
     bindO (Some (unblock os fd_out s1)) (\<lambda>s2.
     bindO (Some (unblock os sd s2)) (\<lambda>s3.
       let (stamp, s4) = sys_num os Time s3
       in bindO (worker_loop os left dm (maxfdn fd_out sd) fd_in fd_out sd stamp timeout
                   (worker_start mem1 mem2) s4) (\<lambda>(k, s5).
            let s6 = snd (sapi_close os fd_in s5);
                s7 = (if fd_in \<noteq> fd_out then snd (sapi_close os fd_out s6) else s6);
                s8 = snd (sapi_close os sd s7)
            in Some (Inr (0, s8))))))"

text \<open>The overload with two sockets drops its timeout.\<close>

definition utl_worker2 ::
  "'w os \<Rightarrow> (int \<Rightarrow> int) \<Rightarrow> int \<Rightarrow> byte list \<Rightarrow> byte list \<Rightarrow> int \<Rightarrow> int \<Rightarrow> int option \<Rightarrow>
     'w sys \<Rightarrow> (int \<times> 'w sys) result option" where
  "utl_worker2 os left dm mem1 mem2 sd1 sd2 to_arg s =
     utl_worker os left dm mem1 mem2 sd1 sd1 sd2 None s"

section \<open>Status bits\<close>

lemma has_raise: "has b (raise_bits c k) \<longleftrightarrow> has b k \<or> c AND b \<noteq> 0"
  by (auto simp: has_def raise_bits_def bit.conj_disj_distrib2 or_eq_0_iff)

lemma has_clear: "(NOT c) AND b = b \<Longrightarrow> has b (clear_bits c k) \<longleftrightarrow> has b k"
  by (simp add: has_def clear_bits_def and.assoc)

lemma bits_bufs [simp]:
  "fwd_buf (raise_bits c k) = fwd_buf k" "rev_buf (raise_bits c k) = rev_buf k"
  "fwd_buf (clear_bits c k) = fwd_buf k" "rev_buf (clear_bits c k) = rev_buf k"
  by (simp_all add: raise_bits_def clear_bits_def)


section \<open>Buffers from the constructor\<close>

definition stuck :: "loopbuffer \<Rightarrow> bool" where
  "stuck b \<longleftrightarrow> lb_atom b = 0 \<and> lb_size b = 0 \<and> lb_read_p b = 0 \<and> lb_writ_p b = 0 \<and> 0 < lb_len b"

lemma stuck_new: "mem \<noteq> [] \<Longrightarrow> stuck (lb_new mem at)"
  by (simp add: stuck_def lb_new_def Let_def)

lemma stuck_offers: "stuck b \<Longrightarrow> lb_getWriteSpace b = 0 \<and> lb_isempty b \<and> \<not> lb_isful b"
  by (simp add: stuck_def lb_getWriteSpace_def lb_isempty_def lb_isful_def)

definition same_streams :: "'w sys \<Rightarrow> 'w sys \<Rightarrow> bool" where
  "same_streams s s' \<longleftrightarrow> (\<forall>ep. received ep s' = received ep s \<and> sent ep s' = sent ep s)"

lemma same_streams_refl [simp]: "same_streams s s"
  by (simp add: same_streams_def)

lemma same_streams_trans [trans]: "same_streams s t \<Longrightarrow> same_streams t u \<Longrightarrow> same_streams s u"
  by (simp add: same_streams_def)

lemma same_streams_call:
  "sys_call os c s = (r, s') \<Longrightarrow> (\<And>ep. in_bytes ep (c, r) = [] \<and> out_bytes ep (c, r) = []) \<Longrightarrow>
    same_streams s s'"
  by (simp add: same_streams_def received_call sent_call)

lemma same_streams_do:
  "(\<And>ep r. in_bytes ep (c, r) = [] \<and> out_bytes ep (c, r) = []) \<Longrightarrow> same_streams s (sys_do os c s)"
  unfolding sys_do_def by (metis same_streams_call prod.collapse)

lemma same_streams_num:
  "sys_num os c s = (n, s') \<Longrightarrow> (\<And>ep r. in_bytes ep (c, r) = [] \<and> out_bytes ep (c, r) = []) \<Longrightarrow>
    same_streams s s'"
  by (auto simp: sys_num_def split: prod.splits intro: same_streams_call)

text \<open>Reading no bytes.\<close>

lemma read_nothing:
  assumes "sapi_read os sd 0 s = ((sz, data), s')"
  shows "\<not> 0 < sz \<and> same_streams s s'"
proof -
  have "data = []" using sapi_read_streams [OF assms, of "Tcp 0"] by auto
  with sapi_read_streams [OF assms] show ?thesis by (auto simp: same_streams_def)
qed

lemma fwd_read_stuck:
  assumes "stuck (fwd_buf k)"
  shows "\<exists>k' s'. fwd_read os dm fd ready k s = Inr (k', s') \<and> fwd_buf k' = fwd_buf k \<and>
    rev_buf k' = rev_buf k \<and> same_streams s s' \<and>
    ((\<forall>n s. 0 \<le> fst (fst (sapi_read os fd n s))) \<longrightarrow> k' = k)"
proof -
  obtain sz data s1 where r: "sapi_read os fd 0 s = ((sz, data), s1)" by (metis prod.collapse)
  moreover have "(\<forall>n s. 0 \<le> fst (fst (sapi_read os fd n s))) \<Longrightarrow> 0 \<le> sz"
    by (metis r fst_conv)
  ultimately show ?thesis
    using stuck_offers [OF assms] read_nothing [OF r] by (auto simp: fwd_read_def Let_def)
qed

lemma rev_read_stuck:
  assumes "stuck (rev_buf k)"
  shows "\<exists>k' s'. rev_read os dm fd ready k s = Inr (k', s') \<and> fwd_buf k' = fwd_buf k \<and>
    rev_buf k' = rev_buf k \<and> same_streams s s' \<and>
    (has R_FWD_SHUT k' \<longleftrightarrow> has R_FWD_SHUT k) \<and> (has W_FWD_SHUT k' \<longleftrightarrow> has W_FWD_SHUT k)"
proof -
  obtain sz data s1 where r: "sapi_read os fd 0 s = ((sz, data), s1)" by (metis prod.collapse)
  with stuck_offers [OF assms] read_nothing [OF r] show ?thesis
    by (auto simp: rev_read_def Let_def has_raise)
qed

lemma transfers_stuck:
  assumes "stuck (fwd_buf k)" and "stuck (rev_buf k)"
  shows "\<exists>k' s'. transfers os dm fd_in sd a b c d k s = Inr (k', s') \<and> fwd_buf k' = fwd_buf k \<and>
    rev_buf k' = rev_buf k \<and> same_streams s s' \<and>
    ((\<forall>n s. 0 \<le> fst (fst (sapi_read os fd_in n s))) \<and> \<not> has R_FWD_SHUT k \<longrightarrow>
      \<not> has R_FWD_SHUT k' \<and> (has W_FWD_SHUT k' \<longleftrightarrow> has W_FWD_SHUT k))"
proof -
  obtain k1 s1 where 1: "fwd_read os dm fd_in a k s = Inr (k1, s1)" "fwd_buf k1 = fwd_buf k"
      "rev_buf k1 = rev_buf k" "same_streams s s1"
      "(\<forall>n s. 0 \<le> fst (fst (sapi_read os fd_in n s))) \<longrightarrow> k1 = k"
    using fwd_read_stuck [OF assms(1)] by metis
  have 2: "fwd_write os dm sd c k1 s1 = Inr (k1, s1)"
    using stuck_offers [OF assms(1)] by (simp add: fwd_write_def 1)
  define k3 where "k3 = (if lb_isempty (fwd_buf k1) \<and> has R_FWD_SHUT k1 then raise_bits W_FWD_SHUT k1
    else k1)"
  have b3: "fwd_buf k3 = fwd_buf k" "rev_buf k3 = rev_buf k" by (simp_all add: k3_def 1)
  then obtain k4 s4 where 4: "rev_read os dm fd_in b k3 s1 = Inr (k4, s4)" "fwd_buf k4 = fwd_buf k"
      "rev_buf k4 = rev_buf k" "same_streams s1 s4"
      "has R_FWD_SHUT k4 \<longleftrightarrow> has R_FWD_SHUT k3" "has W_FWD_SHUT k4 \<longleftrightarrow> has W_FWD_SHUT k3"
    using rev_read_stuck [of k3] assms(2) by metis
  have 5: "rev_write os dm sd d k4 s4 = Inr (k4, s4)"
    using stuck_offers [OF assms(2)] by (simp add: rev_write_def 4)
  define k6 where "k6 = (if lb_isempty (rev_buf k4) \<and> has R_REV_SHUT k4 then raise_bits W_REV_SHUT k4
    else k4)"
  have "transfers os dm fd_in sd a b c d k s = Inr (k6, s4)"
    by (simp add: transfers_def 1(1) 2 4(1) 5 k3_def [symmetric] k6_def [symmetric] Let_def)
  moreover have "same_streams s s4" using 1(4) 4(4) by (rule same_streams_trans)
  moreover have "fwd_buf k6 = fwd_buf k" "rev_buf k6 = rev_buf k" by (simp_all add: k6_def 4)
  moreover have "has R_FWD_SHUT k6 \<longleftrightarrow> has R_FWD_SHUT k4" "has W_FWD_SHUT k6 \<longleftrightarrow> has W_FWD_SHUT k4"
    by (simp_all add: k6_def has_raise)
  ultimately show ?thesis using 1(5) 4(5,6) by (auto simp: k3_def)
qed

section \<open>A round and the loop\<close>

lemma select_loop_streams:
  assumes "select_loop os left nfds fds t_min sf t_cur rest s = Some (n, out, s')"
  shows "same_streams s s'"
proof -
  have "same_streams s (snd (snd y))"
    if "select_loop os left nfds fds t_min sf t_cur rest s = Some y"
    for os :: "'a os" and left nfds fds t_min sf t_cur rest s y
  proof (rule select_loop.raw_induct
      [where P = "\<lambda>os left nfds fds t_min sf t_cur rest s y. same_streams s (snd (snd y))", OF _ that])
    fix f and os :: "'a os" and left nfds fds t_min sf t_cur rest s y
    assume IH: "\<And>os left nfds fds t_min sf t_cur rest s y.
          f os left nfds fds t_min sf t_cur rest s = Some y \<Longrightarrow> same_streams s (snd (snd y))"
      and eq: "(let t = t_cur * sf;
          (r1, s1) = sys_call os (select_call nfds fds t) s;
          fds1 = kernel_part r1 fds;
          (r2, s2) = sys_call os (udt_select_call fds1 (left t)) s1;
          fds2 = udt_part r2 fds1;
          res1 = rv r1; res2 = rv r2;
          time_rest' = rest - (t_cur * 2 + 1)
      in if res1 > 0 \<or> res2 > 0
         then Some ((if res1 > 0 then res1 else 0) + (if res2 > 0 then res2 else 0), fds2, s2)
         else if res1 < 0 \<or> res2 < 0 \<or> time_rest' < 0
         then Some (if res1 = 0 \<and> res2 = 0 then 0 else -1, (FDSET_ZERO, FDSET_ZERO, FDSET_ZERO), s2)
         else
           let scale_factor' = scale_mask AND (sf * 2 + 1)
           in f os left nfds fds t_min scale_factor' (t_min * scale_factor') time_rest' s2) = Some y"
    obtain r1 s1 where 1: "sys_call os (select_call nfds fds (t_cur * sf)) s = (r1, s1)" by fastforce
    obtain r2 s2 where 2: "sys_call os (udt_select_call (kernel_part r1 fds) (left (t_cur * sf))) s1 =
        (r2, s2)" by fastforce
    have "same_streams s s1" "same_streams s1 s2"
      using same_streams_call [OF 1] same_streams_call [OF 2]
      by (auto simp: select_call_def udt_select_call_def in_bytes_def out_bytes_def split: prod.splits)
    then have "same_streams s s2" by (rule same_streams_trans)
    moreover have "same_streams s2 (snd (snd y))" if "f os left nfds fds t_min sf' (t_min * sf') r' s2 = Some y" for sf' r'
      using IH that by blast
    ultimately show "same_streams s (snd (snd y))"
      using eq by (auto simp: Let_def 1 2 split: if_splits intro: same_streams_trans)
  qed
  from this [OF assms] show ?thesis by simp
qed

lemma select_streams:
  "sapi_select os left nfds r w e t s = Some (n, out, s') \<Longrightarrow> same_streams s s'"
  unfolding sapi_select_def Let_def by (rule select_loop_streams)

lemma worker_round_stuck:
  assumes "worker_round os left dm nfds fd_in fd_out sd k s = Some (Inr (k', s'))"
    and "stuck (fwd_buf k)" and "stuck (rev_buf k)"
  shows "fwd_buf k' = fwd_buf k \<and> rev_buf k' = rev_buf k \<and> same_streams s s' \<and>
    ((\<forall>n s. 0 \<le> fst (fst (sapi_read os fd_in n s))) \<and> \<not> has R_FWD_SHUT k \<longrightarrow>
      \<not> has R_FWD_SHUT k' \<and> (has W_FWD_SHUT k' \<longleftrightarrow> has W_FWD_SHUT k))"
proof -
  define s1 where "s1 = sys_do os (Pause 500000) s"
  have s1: "same_streams s s1"
    unfolding s1_def by (rule same_streams_do) (simp add: in_bytes_def out_bytes_def)
  note run = assms(1) [unfolded worker_round_def Let_def s1_def [symmetric]]
  from run obtain rset eset where r: "read_sets fd_in fd_out sd = Inr (rset, eset)"
    by (auto simp: bindO_eq_Inr)
  note run = run [unfolded r bindO_simps prod.case]
  from run obtain n1 a w b s2 where 1: "sapi_select os left nfds (Some rset) None (Some eset)
      (interval (has R_ACTIVE k)) s1 = Some (n1, (a, w, b), s2)"
    by (auto split: option.splits)
  define k1 where "k1 = (if n1 > 0 then raise_bits R_ACTIVE k else clear_bits R_ACTIVE k)"
  note run = run [unfolded 1 option.case prod.case k1_def [symmetric]]
  from run obtain i j ws es where w: "write_sets fd_in fd_out sd a b = Inr (i, j, ws, es)"
    by (auto simp: bindO_eq_Inr)
  note run = run [unfolded w bindO_simps prod.case]
  from run obtain n2 r2 ws' e2 s3 where 2: "sapi_select os left nfds None (Some ws) (Some es)
      (interval (has W_ACTIVE k1)) s2 = Some (n2, (r2, ws', e2), s3)"
    by (auto split: option.splits)
  define k3 where "k3 = clear_bits (R_ACTIVE OR W_ACTIVE)
    (if n2 > 0 then raise_bits W_ACTIVE k1 else clear_bits W_ACTIVE k1)"
  note run = run [unfolded 2 option.case prod.case k3_def [symmetric]]
  from run obtain x y where t: "transfers os dm fd_in sd i j x y k3 s3 = Inr (k', s')"
    by (auto simp: bindO_eq_Inr)
  have bufs: "fwd_buf k3 = fwd_buf k" "rev_buf k3 = rev_buf k" by (simp_all add: k3_def k1_def)
  have "has R_FWD_SHUT k3 \<longleftrightarrow> has R_FWD_SHUT k" "has W_FWD_SHUT k3 \<longleftrightarrow> has W_FWD_SHUT k"
    by (simp_all add: k3_def k1_def has_raise has_clear)
  with transfers_stuck [of k3 os dm fd_in sd i j x y s3] assms(2,3) bufs t
  have "fwd_buf k' = fwd_buf k \<and> rev_buf k' = rev_buf k \<and> same_streams s3 s' \<and>
    ((\<forall>n s. 0 \<le> fst (fst (sapi_read os fd_in n s))) \<and> \<not> has R_FWD_SHUT k \<longrightarrow>
      \<not> has R_FWD_SHUT k' \<and> (has W_FWD_SHUT k' \<longleftrightarrow> has W_FWD_SHUT k))" by auto
  moreover have "same_streams s s3"
    using s1 select_streams [OF 1] select_streams [OF 2] by (blast intro: same_streams_trans)
  ultimately show ?thesis by (blast intro: same_streams_trans)
qed

text \<open>Induction along a run of the loop that returns \<open>x\<close>: it ends because both output streams are
  shut, or because the time is over, or it makes a round.\<close>

lemma worker_loop_induct [consumes 1, case_names shut late round]:
  assumes "worker_loop os left dm nfds fd_in fd_out sd stamp timeout k s = Some (Inr x)"
    and shut: "\<And>k s. has W_FWD_SHUT k \<Longrightarrow> has W_REV_SHUT k \<Longrightarrow> x = (k, s) \<Longrightarrow> P k s"
    and late: "\<And>k s now t. timeout \<noteq> None \<Longrightarrow> sys_num os Time s = (now, t) \<Longrightarrow> x = (k, t) \<Longrightarrow> P k s"
    and round: "\<And>k s t k' t'. timeout = None \<and> t = s \<or> (\<exists>now. sys_num os Time s = (now, t)) \<Longrightarrow>
      worker_round os left dm nfds fd_in fd_out sd k t = Some (Inr (k', t')) \<Longrightarrow> P k' t' \<Longrightarrow> P k s"
  shows "P k s"
proof -
  have "o1 = os \<longrightarrow> l = left \<longrightarrow> d = dm \<longrightarrow> n = nfds \<longrightarrow> f1 = fd_in \<longrightarrow> f2 = fd_out \<longrightarrow> s1 = sd \<longrightarrow>
      tm = timeout \<longrightarrow> y = Inr x \<longrightarrow> P k s"
    if "worker_loop o1 l d n f1 f2 s1 st tm k s = Some y" for o1 l d n f1 f2 s1 st tm k s y
  proof (rule worker_loop.raw_induct [where P = "\<lambda>o1 l d n f1 f2 s1 st tm k s y. o1 = os \<longrightarrow>
      l = left \<longrightarrow> d = dm \<longrightarrow> n = nfds \<longrightarrow> f1 = fd_in \<longrightarrow> f2 = fd_out \<longrightarrow> s1 = sd \<longrightarrow> tm = timeout \<longrightarrow>
      y = Inr x \<longrightarrow> P k s", OF _ that], intro impI)
    fix f o1 l d n f1 f2 s1 st tm k s y
    assume IH: "\<And>o1 l d n f1 f2 s1 st tm k s y. f o1 l d n f1 f2 s1 st tm k s = Some y \<Longrightarrow>
          o1 = os \<longrightarrow> l = left \<longrightarrow> d = dm \<longrightarrow> n = nfds \<longrightarrow> f1 = fd_in \<longrightarrow> f2 = fd_out \<longrightarrow> s1 = sd \<longrightarrow>
          tm = timeout \<longrightarrow> y = Inr x \<longrightarrow> P k s"
      and eq: "(if has W_FWD_SHUT k \<and> has W_REV_SHUT k then Some (Inr (k, s))
        else case (case tm of
                None \<Rightarrow> (True, s)
              | Some limit \<Rightarrow> (case sys_num o1 Time s of (now, s1) \<Rightarrow> (now - st < limit, s1))) of
          (go, t) \<Rightarrow>
            if \<not> go then Some (Inr (k, t))
            else case worker_round o1 l d n f1 f2 s1 k t of
                   None \<Rightarrow> None
                 | Some (Inl e) \<Rightarrow> Some (Inl e)
                 | Some (Inr (k', s')) \<Rightarrow> f o1 l d n f1 f2 s1 st tm k' s') = Some y"
      and same: "o1 = os" "l = left" "d = dm" "n = nfds" "f1 = fd_in" "f2 = fd_out" "s1 = sd"
        "tm = timeout" "y = Inr x"
    obtain go t where c: "(case timeout of None \<Rightarrow> (True, s)
        | Some limit \<Rightarrow> (case sys_num os Time s of (now, s1) \<Rightarrow> (now - st < limit, s1))) = (go, t)"
      by fastforce
    then have t: "timeout = None \<and> t = s \<and> go \<or> timeout \<noteq> None \<and> (\<exists>now. sys_num os Time s = (now, t))"
      by (auto split: option.splits prod.splits)
    note eq = eq [unfolded same c prod.case]
    consider "has W_FWD_SHUT k" "has W_REV_SHUT k" "x = (k, s)"
      | now where "timeout \<noteq> None" "sys_num os Time s = (now, t)" "x = (k, t)"
      | k' t' where "worker_round os left dm nfds fd_in fd_out sd k t = Some (Inr (k', t'))"
          "f os left dm nfds fd_in fd_out sd st timeout k' t' = Some (Inr x)"
      using eq t by (auto split: if_splits option.splits sum.splits)
    then show "P k s"
    proof cases
      case 3
      with IH [OF 3(2)] t show ?thesis by (intro round [OF _ 3(1)]) auto
    qed (use shut late in auto)
  qed
  with assms(1) show ?thesis by blast
qed

lemma worker_loop_stuck:
  assumes "worker_loop os left dm nfds fd_in fd_out sd stamp timeout k s = Some (Inr (k', s'))"
    and "stuck (fwd_buf k)" and "stuck (rev_buf k)"
  shows "same_streams s s' \<and>
    \<not> ((\<forall>n s. 0 \<le> fst (fst (sapi_read os fd_in n s))) \<and> timeout = None \<and>
      \<not> has R_FWD_SHUT k \<and> \<not> has W_FWD_SHUT k)"
  using assms
proof (induction rule: worker_loop_induct)
  case (late k s now t)
  with same_streams_num [OF late(2)] show ?case by (simp add: in_bytes_def out_bytes_def)
next
  case (round k s t k1 t')
  have st: "same_streams s t"
    using round(1) same_streams_num [of os Time s _ t] by (auto simp: in_bytes_def out_bytes_def)
  note r = worker_round_stuck [OF round(2) round.prems]
  from r round.IH round.prems have p: "same_streams t' s'" "\<not> ((\<forall>n s. 0 \<le> fst (fst (sapi_read os fd_in n s))) \<and>
      timeout = None \<and> \<not> has R_FWD_SHUT k1 \<and> \<not> has W_FWD_SHUT k1)" by simp_all
  from st r p(1) have "same_streams s s'" by (blast intro: same_streams_trans)
  with r p(2) show ?case by blast
qed simp

text \<open>Closing and unblocking sockets.\<close>

lemma same_streams_unblock: "unblock os fd t = Inr t' \<Longrightarrow> same_streams t t'"
  by (auto simp: unblock_def sapi_setsockopt_def set_blocking_def Let_def in_bytes_def
      out_bytes_def split: if_splits prod.splits
      intro: same_streams_num same_streams_trans [OF same_streams_num same_streams_num])

lemma same_streams_close: "same_streams s t \<Longrightarrow> same_streams s (snd (sapi_close os fd t))"
  by (erule same_streams_trans)
    (auto simp: sapi_close_def in_bytes_def out_bytes_def intro: same_streams_do)

section \<open>Properties\<close>

text \<open>C25: \<open>worker\<close> never transfers a byte: whenever it returns, no endpoint has received or
  sent anything in the meantime, because its buffers never offer any space. And it does not
  return at all when it has no timeout and reading its input does not fail.\<close>

theorem worker_moves_nothing:
  assumes "utl_worker os left dm mem1 mem2 fd_in fd_out sd timeout s = Some (Inr (rc, s'))"
    and "mem1 \<noteq> []" and "mem2 \<noteq> []"
  shows "rc = 0 \<and> received ep s' = received ep s \<and> sent ep s' = sent ep s \<and>
    \<not> (timeout = None \<and> (\<forall>n s. 0 \<le> fst (fst (sapi_read os fd_in n s))))"
proof -
  from assms(1) obtain s1 s2 s3 where
    u: "unblock os fd_in s = Inr s1" "unblock os fd_out s1 = Inr s2" "unblock os sd s2 = Inr s3"
    by (auto simp: utl_worker_def bindO_eq_Inr)
  obtain stamp s4 where t: "sys_num os Time s3 = (stamp, s4)" by fastforce
  from assms(1) obtain k s5 where
    l: "worker_loop os left dm (maxfdn fd_out sd) fd_in fd_out sd stamp timeout
      (worker_start mem1 mem2) s4 = Some (Inr (k, s5))" and
    e: "rc = 0" "s' = snd (sapi_close os sd (if fd_in \<noteq> fd_out
      then snd (sapi_close os fd_out (snd (sapi_close os fd_in s5)))
      else snd (sapi_close os fd_in s5)))"
    by (auto simp: utl_worker_def bindO_eq_Inr u t Let_def)
  have start: "stuck (fwd_buf (worker_start mem1 mem2))" "stuck (rev_buf (worker_start mem1 mem2))"
      "\<not> has R_FWD_SHUT (worker_start mem1 mem2)" "\<not> has W_FWD_SHUT (worker_start mem1 mem2)"
    using assms(2,3) by (simp_all add: worker_start_def stuck_new has_def)
  note w = worker_loop_stuck [OF l start(1,2)]
  have "same_streams s3 s4"
    by (rule same_streams_num [OF t]) (simp add: in_bytes_def out_bytes_def)
  with u [THEN same_streams_unblock] w have "same_streams s s5"
    by (blast intro: same_streams_trans)
  then have "same_streams s s'" by (simp add: e(2) same_streams_close)
  with w start(3,4) e(1) show ?thesis by (auto simp: same_streams_def)
qed

theorem worker_moves_nothing_witness:
  "\<exists>s'. utl_worker (\<lambda>w c. (Ret 0, w)) (\<lambda>t. t) 20 [0] [0] 5 5 7 (Some 0) (start ()) =
      Some (Inr (0, s')) \<and> received (Tcp 5) s' = [] \<and> sent (Tcp 7) s' = []"
proof -
  obtain s' where r: "utl_worker (\<lambda>w c. (Ret 0, w)) (\<lambda>t. t) 20 [0] [0] 5 5 7 (Some 0) (start ()) =
      Some (Inr (0, s'))"
    by (simp add: utl_worker_def unblock_def sapi_setsockopt_def set_blocking_def sys_num_def
        sys_call_def answer_def start_def UDT_FD_BASE_def worker_loop.simps worker_start_def
        has_def Let_def)
  from worker_moves_nothing [OF r, of "Tcp 5"] worker_moves_nothing [OF r, of "Tcp 7"] r
  show ?thesis by (auto simp: received_def sent_def start_def)
qed

end
