(* ===== verification/Minisocks.thy ===== *)
theory Minisocks
  imports Socks
begin

text \<open>
  \<^verbatim>\<open>src/minisocks/minisocks.c\<close>: a library that replaces \<open>connect\<close> in an application, so that
  its connections go through a socks server. The environment variable and the resolver are
  parameters: \<open>env\<close> is the value of \<open>MINISOCKS_SERVER\<close>, \<open>resolve\<close> the answer of \<open>getaddrinfo\<close>
  to a host and a port. The theorems say what an application can conclude from the value
  that \<open>connect\<close> returns.
\<close>


section \<open>The socks server\<close>

datatype status_t = PENDING | DONE | ERROR | ABSENT

record minisocks =
  serv_status :: status_t
  server_sav :: "string option"
  server :: "sockaddr option"     \<comment> \<open>\<open>server->ai_addr\<close>\<close>

definition minisocks_initial :: minisocks where
  "minisocks_initial = \<lparr>serv_status = PENDING, server_sav = None, server = None\<rparr>"

definition default_port :: string where
  "default_port = ''1080''"

text \<open>\<open>sscanf(s, "%[^:]:%[^:]", host, port)\<close>: nothing, a host, or both.\<close>

definition scan_server :: "string \<Rightarrow> (string \<times> string option) option" where
  "scan_server v =
     (let host = takeWhile (\<lambda>c. c \<noteq> CHR '':'') v;
          port = takeWhile (\<lambda>c. c \<noteq> CHR '':'') (drop (Suc (length host)) v)
      in if host = [] then None
         else Some (host, if port = [] then None else Some port))"

definition minisocks_init ::
  "string option \<Rightarrow> (string \<Rightarrow> string \<Rightarrow> sockaddr option) \<Rightarrow> minisocks \<Rightarrow> minisocks" where
  "minisocks_init env resolve m =
     (if serv_status m = PENDING then
        (case env of
           None \<Rightarrow> m\<lparr>serv_status := ABSENT\<rparr>
         | Some v \<Rightarrow>
             (case scan_server v of
                None \<Rightarrow> m
              | Some (host, port) \<Rightarrow>
                  (case resolve host (case port of None \<Rightarrow> default_port | Some p \<Rightarrow> p) of
                     Some a \<Rightarrow> m\<lparr>server := Some a, server_sav := Some v, serv_status := DONE\<rparr>
                   | None \<Rightarrow> m\<lparr>serv_status := ERROR\<rparr>)))
      else m)"

definition getserver ::
  "string option \<Rightarrow> (string \<Rightarrow> string \<Rightarrow> sockaddr option) \<Rightarrow> minisocks \<Rightarrow>
     sockaddr option \<times> minisocks" where
  "getserver env resolve m =
     (let m' = minisocks_init env resolve m
      in (if serv_status m' = DONE then server m' else None, m'))"


section \<open>The replacement of connect\<close>

definition SHUT_RDWR :: int where
  "SHUT_RDWR = 2"

text \<open>\<open>struct sock_pkt_0\<close>: the packet and the end of an empty user name.\<close>

record sock_pkt_0 =
  pkt :: sock_pkt
  null :: byte

definition pkt0_bytes :: "sock_pkt_0 \<Rightarrow> byte list" where
  "pkt0_bytes p = pkt_bytes (pkt p) @ [null p]"

lemma pkt0_bytes_make [simp]: "pkt0_bytes \<lparr>pkt = p, null = z\<rparr> = pkt_bytes p @ [z]"
  by (simp add: pkt0_bytes_def)

definition minisocks_connect ::
  "'w os \<Rightarrow> string option \<Rightarrow> (string \<Rightarrow> string \<Rightarrow> sockaddr option) \<Rightarrow> int \<Rightarrow> sockaddr \<Rightarrow>
     minisocks \<Rightarrow> 'w sys \<Rightarrow> (int \<times> minisocks \<times> 'w sys) result" where
  "minisocks_connect os env resolve sd name m s =
     (if sa_family name = AF_INET then
        bindR (sin_port name) (\<lambda>port. bindR (sin_addr name) (\<lambda>ip.
          let pkt0 = \<lparr>pkt = \<lparr>vn = 4, cd = 1, dstport = port, dstip = ip\<rparr>, null = 0\<rparr>;
              (srv, m') = getserver env resolve m
          in case srv of
               None \<Rightarrow> Inr (-1, m', s\<lparr>errno := EFAULT\<rparr>)
             | Some a \<Rightarrow>
                 let (rc, s1) = sys_num os (Connect (Tcp sd) a) s
                 in if rc \<noteq> 0 then Inr (rc, m', s1)
                    else
                      let (n, s2) = sys_num os (Send (Tcp sd) (pkt0_bytes pkt0) 0) s1
                      in if n \<noteq> 9 then Inr (-1, m', if 0 \<le> n then s2\<lparr>errno := 0\<rparr> else s2)
                         else
                           let (r, s3) = sys_call os (Recv (Tcp sd) 8 0) s2
                           in if rv r \<noteq> 8
                              then Inr (-1, m', if 0 \<le> rv r then s3\<lparr>errno := 0\<rparr> else s3)
                              else if cd (pkt_of (resp_data r)) \<noteq> 90
                              then Inr (-1, m',
                                     (sys_do os (Shutdown sd SHUT_RDWR) s3)\<lparr>errno := ECONNREFUSED\<rparr>)
                              else Inr (0, m', s3)))
      else Inr (-1, m, s\<lparr>errno := EAFNOSUPPORT\<rparr>))"


section \<open>Lemmas\<close>

text \<open>The request for an address: version 4, connect, the address as it is in memory.\<close>

definition request_for :: "sockaddr \<Rightarrow> sock_pkt" where
  "request_for name = \<lparr>vn = 4, cd = 1, dstport = take 2 (sa_data name),
     dstip = take 4 (drop 2 (sa_data name))\<rparr>"

lemma wf_request_for: "6 \<le> length (sa_data name) \<Longrightarrow> wf_pkt (request_for name)"
  by (simp add: wf_pkt_def request_for_def)

lemma calls_of_errno [simp]: "calls_of f (s\<lparr>errno := e\<rparr>) = calls_of f s"
  by (simp add: calls_of_def)

lemma streams_errno [simp]:
  "received ep (s\<lparr>errno := e\<rparr>) = received ep s" "sent ep (s\<lparr>errno := e\<rparr>) = sent ep s"
  by (simp_all add: received_def sent_def)

lemma connect_returns: "sys_num os (Connect ep a) s = (rc, s') \<Longrightarrow> rc = 0 \<or> rc = -1"
  by (auto simp: sys_num_def split: prod.splits dest!: sys_call_ok, rename_tac r, case_tac r) auto

text \<open>The ways in which the replacement ends, for an internet address.\<close>

lemma minisocks_cases:
  assumes run: "minisocks_connect os env resolve sd name m s = Inr (rc, m', s')"
    and inet: "sa_family name = AF_INET" "6 \<le> length (sa_data name)"
  obtains "rc = -1" and "getserver env resolve m = (None, m')" and "s' = s\<lparr>errno := EFAULT\<rparr>"
  | a where "rc = -1" and "getserver env resolve m = (Some a, m')"
      and "sys_num os (Connect (Tcp sd) a) s = (-1, s')"
  | a s1 n s2 where "rc = -1" and "getserver env resolve m = (Some a, m')"
      and "sys_num os (Connect (Tcp sd) a) s = (0, s1)" and "n \<noteq> 9"
      and "sys_num os (Send (Tcp sd) (pkt_bytes (request_for name) @ [0]) 0) s1 = (n, s2)"
      and "s' = (if 0 \<le> n then s2\<lparr>errno := 0\<rparr> else s2)"
  | a s1 s2 r s3 where "rc = -1" and "getserver env resolve m = (Some a, m')"
      and "sys_num os (Connect (Tcp sd) a) s = (0, s1)"
      and "sys_num os (Send (Tcp sd) (pkt_bytes (request_for name) @ [0]) 0) s1 = (9, s2)"
      and "sys_call os (Recv (Tcp sd) 8 0) s2 = (r, s3)" and "rv r \<noteq> 8"
      and "s' = (if 0 \<le> rv r then s3\<lparr>errno := 0\<rparr> else s3)"
  | a s1 s2 r s3 where "rc = -1" and "getserver env resolve m = (Some a, m')"
      and "sys_num os (Connect (Tcp sd) a) s = (0, s1)"
      and "sys_num os (Send (Tcp sd) (pkt_bytes (request_for name) @ [0]) 0) s1 = (9, s2)"
      and "sys_call os (Recv (Tcp sd) 8 0) s2 = (r, s3)" and "rv r = 8"
      and "resp_data r ! 1 \<noteq> 90"
      and "s' = (sys_do os (Shutdown sd SHUT_RDWR) s3)\<lparr>errno := ECONNREFUSED\<rparr>"
  | a s1 s2 r where "rc = 0" and "getserver env resolve m = (Some a, m')"
      and "sys_num os (Connect (Tcp sd) a) s = (0, s1)"
      and "sys_num os (Send (Tcp sd) (pkt_bytes (request_for name) @ [0]) 0) s1 = (9, s2)"
      and "sys_call os (Recv (Tcp sd) 8 0) s2 = (r, s')" and "rv r = 8"
      and "resp_data r ! 1 = 90"
proof -
  obtain srv m1 where g: "getserver env resolve m = (srv, m1)" by fastforce
  show ?thesis
  proof (cases srv)
    case None
    with run inet g that(1) show ?thesis
      by (simp add: minisocks_connect_def sa_field_def Let_def)
  next
    case (Some a)
    obtain c s1 where c: "sys_num os (Connect (Tcp sd) a) s = (c, s1)" by fastforce
    obtain n s2 where n: "sys_num os (Send (Tcp sd) (pkt_bytes (request_for name) @ [0]) 0) s1 = (n, s2)"
      by fastforce
    obtain r s3 where r: "sys_call os (Recv (Tcp sd) 8 0) s2 = (r, s3)" by fastforce
    have run': "(if c \<noteq> 0 then Inr (c, m1, s1)
        else if n \<noteq> 9 then Inr (-1, m1, if 0 \<le> n then s2\<lparr>errno := 0\<rparr> else s2)
        else if rv r \<noteq> 8 then Inr (-1, m1, if 0 \<le> rv r then s3\<lparr>errno := 0\<rparr> else s3)
        else if resp_data r ! 1 \<noteq> 90
        then Inr (-1, m1, (sys_do os (Shutdown sd SHUT_RDWR) s3)\<lparr>errno := ECONNREFUSED\<rparr>)
        else Inr (0, m1, s3)) = (Inr (rc, m', s') :: (int \<times> minisocks \<times> 'a sys) result)"
      unfolding run [symmetric] using inet(2)
      by (simp add: minisocks_connect_def sa_field_def Let_def inet(1) g Some c r
          n [unfolded request_for_def])
    consider "c \<noteq> 0" | "c = 0" "n \<noteq> 9" | "c = 0" "n = 9" "rv r \<noteq> 8"
      | "c = 0" "n = 9" "rv r = 8" "resp_data r ! 1 \<noteq> 90"
      | "c = 0" "n = 9" "rv r = 8" "resp_data r ! 1 = 90" by blast
    then show ?thesis
    proof cases
      case 1
      with run' connect_returns [OF c] g Some c show ?thesis by (intro that(2)) auto
    next
      case 2
      with run' g Some c n show ?thesis by (intro that(3) [of a s1 n s2]) simp_all
    next
      case 3
      with run' g Some c n r show ?thesis by (intro that(4) [of a s1 s2 r s3]) simp_all
    next
      case 4
      with run' g Some c n r show ?thesis by (intro that(5) [of a s1 s2 r s3]) simp_all
    next
      case 5
      with run' g Some c n r show ?thesis by (intro that(6) [of a s1 s2 r]) simp_all
    qed
  qed
qed

lemma minisocks_streams:
  assumes "sys_num os (Connect (Tcp sd) a) s = (0, s1)"
    and "sys_num os (Send (Tcp sd) bs 0) s1 = (int (length bs), s2)"
    and "sys_call os (Recv (Tcp sd) 8 0) s2 = (r, s')" and "rv r = 8"
  shows "sent (Tcp sd) s' = sent (Tcp sd) s @ bs \<and>
    received (Tcp sd) s' = received (Tcp sd) s @ resp_data r \<and> length (resp_data r) = 8 \<and>
    calls_of connects s' = calls_of connects s @ [(Tcp sd, a)] \<and>
    calls_of (sends (Tcp sd)) s' = calls_of (sends (Tcp sd)) s @ [bs]"
proof -
  from assms(1) have c: "sent (Tcp sd) s1 = sent (Tcp sd) s" "received (Tcp sd) s1 = received (Tcp sd) s"
    by (auto simp: sys_num_def trace_simps in_bytes_def out_bytes_def split: prod.splits)
  from assms(2) have w: "sent (Tcp sd) s2 = sent (Tcp sd) s1 @ bs"
      "received (Tcp sd) s2 = received (Tcp sd) s1"
    by (auto simp: sys_num_def trace_simps in_bytes_def out_bytes_def split: prod.splits)
  from sys_call_recv [OF assms(3), of "Tcp sd"] assms(4)
  have "length (resp_data r) = 8" "received (Tcp sd) s' = received (Tcp sd) s2 @ resp_data r" by auto
  moreover have "sent (Tcp sd) s' = sent (Tcp sd) s2"
    by (simp add: sent_call [OF assms(3)] out_bytes_def)
  ultimately show ?thesis
    using c w calls_of_num [OF assms(1), of connects] calls_of_num [OF assms(2), of connects]
      calls_of_call [OF assms(3), of connects] calls_of_num [OF assms(1), of "sends (Tcp sd)"]
      calls_of_num [OF assms(2), of "sends (Tcp sd)"] calls_of_call [OF assms(3), of "sends (Tcp sd)"]
    by simp
qed

lemma minisocks_success:
  assumes "minisocks_connect os env resolve sd name m s = Inr (0, m', s')"
    and "sa_family name = AF_INET" and "6 \<le> length (sa_data name)"
  obtains a reply where "getserver env resolve m = (Some a, m')"
    and "calls_of connects s' = calls_of connects s @ [(Tcp sd, a)]"
    and "calls_of (sends (Tcp sd)) s' =
      calls_of (sends (Tcp sd)) s @ [pkt_bytes (request_for name) @ [0]]"
    and "sent (Tcp sd) s' = sent (Tcp sd) s @ pkt_bytes (request_for name) @ [0]"
    and "received (Tcp sd) s' = received (Tcp sd) s @ pkt_bytes reply"
    and "wf_pkt reply" and "cd reply = 90"
  using assms
proof (cases rule: minisocks_cases)
  case (6 a s1 s2 r)
  have "int (length (pkt_bytes (request_for name) @ [0])) = 9"
    using length_pkt_bytes [OF wf_request_for [OF assms(3)]] by simp
  with 6(4) have "sys_num os (Send (Tcp sd) (pkt_bytes (request_for name) @ [0]) 0) s1 =
      (int (length (pkt_bytes (request_for name) @ [0])), s2)" by (simp only:)
  from minisocks_streams [OF 6(3) this 6(5,6)]
  show ?thesis
    by (intro that [OF 6(2), of "pkt_of (resp_data r)"])
      (auto simp: bytes_pkt_of wf_pkt_of 6(7) [simplified])
qed auto


section \<open>Properties\<close>

text \<open>A \<open>connect\<close> of the application that succeeds has connected the socket to the socks
  server once, has sent it exactly a version 4 connect request for the address the application
  asked for, with an empty user name, and has received exactly one answer, whose code is 90.\<close>

theorem minisocks_connect_succeeds:
  assumes "minisocks_connect os env resolve sd name m s = Inr (0, m', s')"
    and "sa_family name = AF_INET" and "6 \<le> length (sa_data name)"
  shows "\<exists>a pkt reply. getserver env resolve m = (Some a, m') \<and>
    calls_of connects s' = calls_of connects s @ [(Tcp sd, a)] \<and>
    wf_pkt pkt \<and> vn pkt = 4 \<and> cd pkt = 1 \<and>
    sin_port name = Inr (dstport pkt) \<and> sin_addr name = Inr (dstip pkt) \<and>
    sent (Tcp sd) s' = sent (Tcp sd) s @ pkt_bytes pkt @ [0] \<and>
    wf_pkt reply \<and> cd reply = 90 \<and>
    received (Tcp sd) s' = received (Tcp sd) s @ pkt_bytes reply"
proof -
  from assms obtain a reply where "getserver env resolve m = (Some a, m')"
      "calls_of connects s' = calls_of connects s @ [(Tcp sd, a)]"
      "sent (Tcp sd) s' = sent (Tcp sd) s @ pkt_bytes (request_for name) @ [0]"
      "received (Tcp sd) s' = received (Tcp sd) s @ pkt_bytes reply" "wf_pkt reply" "cd reply = 90"
    by (rule minisocks_success)
  then show ?thesis
    using assms(3) wf_request_for [OF assms(3)]
    by (intro exI [of _ a] exI [of _ "request_for name"] exI [of _ reply])
      (simp add: request_for_def sa_field_def)
qed

definition sample_name :: sockaddr where
  "sample_name = \<lparr>sa_family = AF_INET, sa_data = [0, 80, 10, 0, 0, 1] @ replicate 8 0\<rparr>"

definition sample_server :: sockaddr where
  "sample_server = \<lparr>sa_family = AF_INET, sa_data = [4, 56, 127, 0, 0, 1] @ replicate 8 0\<rparr>"

lemma minisocks_sample:
  "\<exists>m' s'. minisocks_connect script (Some ''localhost'') (\<lambda>h p. Some sample_server) 6 sample_name
      minisocks_initial (start [Ret 0, Ret 9, Data [0, 90, 0, 80, 10, 0, 0, 1]]) =
      Inr (0, m', s') \<and>
    received (Tcp 6) s' = [0, 90, 0, 80, 10, 0, 0, 1] \<and>
    calls_of (sends (Tcp 6)) s' = [[4, 1, 0, 80, 10, 0, 0, 1, 0]]"
  by (simp add: minisocks_connect_def sample_name_def sample_server_def sa_field_def
      getserver_def minisocks_init_def minisocks_initial_def scan_server_def pkt_bytes_def
      sys_num_def sys_call_def answer_def script_def start_def of_udt_def Let_def
      received_def in_bytes_def calls_of_def)

theorem minisocks_connect_succeeds_witness:
  "\<exists>m' s' pkt. minisocks_connect script (Some ''localhost'') (\<lambda>h p. Some sample_server) 6 sample_name
      minisocks_initial (start [Ret 0, Ret 9, Data [0, 90, 0, 80, 10, 0, 0, 1]]) =
      Inr (0, m', s') \<and> sent (Tcp 6) s' = pkt_bytes pkt @ [0]"
proof -
  obtain m' s' where r: "minisocks_connect script (Some ''localhost'') (\<lambda>h p. Some sample_server) 6
      sample_name minisocks_initial (start [Ret 0, Ret 9, Data [0, 90, 0, 80, 10, 0, 0, 1]]) =
      Inr (0, m', s')" using minisocks_sample by blast
  from minisocks_connect_succeeds [OF r] r show ?thesis
    by (auto simp: sample_name_def sent_def start_def)
qed

text \<open>The server is looked up once. When that lookup fails, no \<open>connect\<close> to an internet
  address reaches the network any more, whatever the variable and the resolver answer later:
  each returns -1 with \<open>EFAULT\<close>.\<close>

theorem minisocks_failed_lookup_is_final:
  assumes "minisocks_connect os (Some v) resolve sd name minisocks_initial s = Inr (rc, m, s1)"
    and "sa_family name = AF_INET" and "6 \<le> length (sa_data name)"
    and "scan_server v = Some (host, port)"
    and "resolve host (case port of None \<Rightarrow> default_port | Some p \<Rightarrow> p) = None"
  shows "rc = -1 \<and> log s1 = log s \<and>
    (\<forall>env' resolve' sd' name' s2. sa_family name' = AF_INET \<and> 6 \<le> length (sa_data name') \<longrightarrow>
      minisocks_connect os env' resolve' sd' name' m s2 = Inr (-1, m, s2\<lparr>errno := EFAULT\<rparr>))"
proof -
  have m: "getserver (Some v) resolve minisocks_initial =
      (None, minisocks_initial\<lparr>serv_status := ERROR\<rparr>)"
    using assms(4,5) by (simp add: getserver_def minisocks_init_def minisocks_initial_def)
  have "rc = -1 \<and> m = minisocks_initial\<lparr>serv_status := ERROR\<rparr> \<and> log s1 = log s"
    using assms(1-3) by (cases rule: minisocks_cases) (auto simp: m)
  then show ?thesis
    by (auto simp: minisocks_connect_def sa_field_def getserver_def minisocks_init_def
        minisocks_initial_def)
qed

theorem minisocks_failed_lookup_is_final_witness:
  "\<exists>m s1. minisocks_connect script (Some ''nowhere:1'') (\<lambda>h p. None) 6 sample_name
      minisocks_initial (start []) = Inr (-1, m, s1) \<and>
    minisocks_connect script (Some ''localhost'') (\<lambda>h p. Some sample_server) 6 sample_name m
      (start [Ret 0]) = Inr (-1, m, (start [Ret 0])\<lparr>errno := EFAULT\<rparr>)"
proof -
  obtain m s1 where r: "minisocks_connect script (Some ''nowhere:1'') (\<lambda>h p. None) 6 sample_name
      minisocks_initial (start []) = Inr (-1, m, s1)"
    by (simp add: minisocks_connect_def sample_name_def sa_field_def getserver_def
        minisocks_init_def minisocks_initial_def scan_server_def)
  have "scan_server ''nowhere:1'' = Some (''nowhere'', Some ''1'')"
    by (simp add: scan_server_def)
  from minisocks_failed_lookup_is_final [OF r _ _ this] r show ?thesis
    by (auto simp: sample_name_def)
qed

end
