(* ===== verification/End_To_End.thy ===== *)
theory End_To_End
  imports Minisocks
begin

text \<open>
  The three processes of a relayed connection together: an application with the
  \<open>connect\<close> of minisocks, the relay it talks to (client side) and the peer relay (server
  side). The connections between them are assumed to deliver, in order, nothing but what was
  passed to a send on the other side; everything else that the three environments answer is
  arbitrary. What the application concludes from a successful \<open>connect\<close> is then true.
\<close>


section \<open>Channels\<close>

text \<open>What \<open>to\<close> received from \<open>s\<close> to \<open>s'\<close> is a prefix of what was offered for sending on \<open>from\<close>
  from \<open>t\<close> to \<open>t'\<close>.\<close>

definition channel ::
  "endpoint \<Rightarrow> 'v sys \<Rightarrow> 'v sys \<Rightarrow> endpoint \<Rightarrow> 'w sys \<Rightarrow> 'w sys \<Rightarrow> bool" where
  "channel snd_ep t t' rcv_ep s s' \<longleftrightarrow>
     (\<exists>x rest. received rcv_ep s' = received rcv_ep s @ x \<and>
       concat (calls_of (sends snd_ep) t') = concat (calls_of (sends snd_ep) t) @ x @ rest)"

lemma channel_bytes:
  assumes "channel snd_ep t t' rcv_ep s s'"
    and "calls_of (sends snd_ep) t' = calls_of (sends snd_ep) t @ ms"
    and "received rcv_ep s' = received rcv_ep s @ x"
  shows "\<exists>rest. concat ms = x @ rest"
  using assms by (auto simp: channel_def)

lemma received_extends:
  "extends s s' \<Longrightarrow> \<exists>x. received ep s' = received ep s @ x"
  by (auto simp: only_calls_def received_def)

text \<open>Calls that bring no bytes of an endpoint.\<close>

definition mute :: "endpoint \<Rightarrow> call \<Rightarrow> bool" where
  "mute ep c \<longleftrightarrow> (\<forall>r. in_bytes ep (c, r) = [])"

lemma mute_received: "only_calls (mute ep) s s' \<Longrightarrow> received ep s' = received ep s"
  by (erule received_only) (simp add: mute_def)

lemma mute_num: "sys_num os c s = (n, s') \<Longrightarrow> mute ep c \<Longrightarrow> received ep s' = received ep s"
  by (auto simp: mute_def intro: received_num)

lemma mute_do: "mute ep c \<Longrightarrow> received ep (sys_do os c s) = received ep s"
  by (intro mute_received only_calls_sys_do)

lemma mute_calls [simp]:
  "mute ep (Socket k)" "mute ep (Bind e a)" "mute ep (Connect e a)" "mute ep (Send e bs f)"
  "mute ep (Say p m)" "ep \<noteq> e \<Longrightarrow> mute ep (Recv e n f)"
  by (auto simp: mute_def in_bytes_def)

lemma opt_call_mute: "opt_call sock c \<Longrightarrow> mute (Udt v) c"
  by (auto simp: opt_call_def buffer_call_def mute_def in_bytes_def split: call.splits)

lemma recv_call_mute: "recv_call e c \<Longrightarrow> ep \<noteq> e \<Longrightarrow> mute ep c"
  by (auto simp: recv_call_def)


section \<open>The two sides of the relay\<close>

lemma wait_reply_data:
  assumes "wait_reply os u spkt s = Some (Inr (spkt', s'))"
  shows "\<exists>d. spkt' = overwrite 0 d spkt \<and> received (Udt u) s' = received (Udt u) s @ d"
  using assms
proof (induction rule: wait_reply_induct)
  case (again k s r t)
  with sys_call_recv [OF again(1), of "Udt u"] show ?case by auto
next
  case (finish k s r t)
  with sys_call_recv [OF finish(1), of "Udt u"] show ?case by auto
qed

text \<open>What the server side did, in terms of the request it read.\<close>

lemma server_outcome:
  assumes "server_handshake os cfg u junk jc s = Some (Inr (e, s'))"
    and "length junk = 8" and "recvs_ok (Udt u) s s'"
  obtains spkt peer rest where "length spkt = 8"
    and "calls_of (sends (Udt u)) s' = calls_of (sends (Udt u)) s @ [spkt[1 := reply_code e]]"
    and "received (Udt u) s' = received (Udt u) s @ spkt @ rest"
    and "\<forall>args. e = Relay args \<longrightarrow> args = \<lparr>udtsock = u, tcpsock = peer, shutdown = 0\<rparr> \<and>
      calls_of connects s' = calls_of connects s @ [(Tcp peer, dest_addr (pkt_of spkt))]"
  using assms(1)
proof (cases rule: server_cases)
  case (1 s1 s2 spkt peer m)
  have "extends s2 s'" by (simp add: 1(5) extends_intros)
  with server_request_read [OF 1(1,2) assms(2), of "Udt u"]
    server_request_received [OF 1(1,2) assms(2,3)] 1 show ?thesis
    by (intro that [of spkt "[]"]) simp_all
next
  case (2 s1 s2 s3 s4 spkt peer)
  have "extends s4 s'" by (simp add: 2(8) extends_intros)
  with server_request_accepted [OF 2(1,2) assms(2,3) 2(5,6), of "Udt u"] obtain us where
    "length spkt = 8" "calls_of (sends (Udt u)) s4 = calls_of (sends (Udt u)) s"
    "received (Udt u) s4 = received (Udt u) s @ spkt @ us" by auto
  with 2 show ?thesis by (intro that [of spkt us]) simp_all
next
  case (3 s1 s2 s3 s4 s5 spkt peer rc)
  have x: "extends s4 s'"
    using only_calls_sys_num [OF 3(7), of "\<lambda>c. True"] 3(8) by (auto intro: extends_intros)
  with server_request_accepted [OF 3(1,2) assms(2,3) 3(5,6), of "Udt u"] obtain us where
    a: "length spkt = 8" "calls_of (sends (Udt u)) s4 = calls_of (sends (Udt u)) s"
      "received (Udt u) s4 = received (Udt u) s @ spkt @ us" by auto
  have "received (Udt u) s5 = received (Udt u) s4" using 3(7) by (rule mute_num) simp
  moreover have "calls_of connects s4 = calls_of connects s"
    using server_request_read [OF 3(1,2) assms(2)] server_access_checked [OF 3(5,6)] by simp
  ultimately show ?thesis
    using a 3(8) calls_of_num [OF 3(7), of "sends (Udt u)"] calls_of_num [OF 3(7), of connects]
    by (intro that [of spkt us peer]) (elim disjE conjE; simp)+
qed

lemma client_request:
  assumes "sys_num os (Socket Udt_kind) s = (peer, s1)"
    and "sys_call os (Recv (Tcp fd) 8 MSG_WAITALL) s1 = (r, s2)"
    and "spkt = overwrite 0 (resp_data r) junk" and "length junk = 8"
    and "\<forall>r. (Recv (Tcp fd) 8 MSG_WAITALL, r) \<in> set (drop (length (log s)) (log s')) \<longrightarrow>
      length (resp_data r) = 8"
    and "extends s2 s'"
  shows "length spkt = 8 \<and> received (Tcp fd) s2 = received (Tcp fd) s @ spkt \<and>
    (\<exists>rest. received (Tcp fd) s' = received (Tcp fd) s @ spkt @ rest)"
proof -
  from client_prefix [OF assms(1,2,4), of "Tcp fd"] obtain k where
    k: "log s2 = log s @ [(Socket Udt_kind, k), (Recv (Tcp fd) 8 MSG_WAITALL, r)]" by auto
  with assms(6) have "(Recv (Tcp fd) 8 MSG_WAITALL, r) \<in> set (drop (length (log s)) (log s'))"
    by (auto simp: only_calls_def)
  with assms(5) have "length (resp_data r) = 8" by blast
  then have "spkt = resp_data r" using assms(3,4) by (simp add: overwrite_def)
  moreover have "received (Tcp fd) s2 = received (Tcp fd) s @ resp_data r"
    using sys_call_recv [OF assms(2), of "Tcp fd"] mute_num [OF assms(1), of "Tcp fd"] by simp
  ultimately show ?thesis
    using \<open>length (resp_data r) = 8\<close> received_extends [OF assms(6), of "Tcp fd"] by auto
qed

lemma client_udt_mute:
  assumes "sys_num os (Socket Udt_kind) s = (peer, s1)"
    and "sys_call os (Recv (Tcp fd) 8 MSG_WAITALL) s1 = (r, s2)"
    and "skip_userid os (Tcp fd) jc s2 = Some (Inr s3)"
    and "relay_setsockopt os peer order opts rdv st s3 = Inr (st', s4)"
    and "sys_num os (Bind (Udt peer) baddr) s4 = (rb, s5)"
    and "sys_num os (Connect (Udt peer) paddr) s5 = (rc, s6)"
  shows "received (Udt v) s6 = received (Udt v) s"
proof -
  from skip_userid_result [OF assms(3)] have "only_calls (recv_call (Tcp fd)) s2 s3" by auto
  then have "received (Udt v) s3 = received (Udt v) s2"
    by (intro mute_received) (erule only_calls_weaken, simp add: recv_call_mute)
  moreover from relay_setsockopt_only [OF assms(4)] have "received (Udt v) s4 = received (Udt v) s3"
    by (intro mute_received) (erule only_calls_weaken, rule opt_call_mute)
  moreover have "received (Udt v) s2 = received (Udt v) s1"
    using sys_call_recv [OF assms(2), of "Udt v"] by simp
  ultimately show ?thesis
    using mute_num [OF assms(1), of "Udt v"] mute_num [OF assms(5), of "Udt v"]
      mute_num [OF assms(6), of "Udt v"] by simp
qed

text \<open>What the client side does once the peer relay has accepted its connection: it passes the
  request on and the answer back.\<close>

lemma client_forwards:
  assumes pre: "sys_num os (Socket Udt_kind) s = (peer, s1)"
      "sys_call os (Recv (Tcp fd) 8 MSG_WAITALL) s1 = (r, s2)"
      "skip_userid os (Tcp fd) jc s2 = Some (Inr s3)"
      "relay_setsockopt os peer order opts rdv st s3 = Inr (st', s4)"
      "sys_num os (Bind (Udt peer) baddr) s4 = (rb, s5)"
      "sys_num os (Connect (Udt peer) paddr) s5 = (rc, s6)"
    and spkt: "spkt = overwrite 0 (resp_data r) junk" and junk: "length junk = 8"
    and wait: "wait_reply os peer spkt
        (sys_do os (Send (Udt peer) [0] 0) (sys_do os (Send (Udt peer) spkt 0) s6)) =
        Some (Inr (spkt', s9))"
    and s': "s' = sys_do os (Send (Tcp fd) spkt' 0) s9 \<or>
      s' = sys_do os (Say LOG_ERR ''remote peer socks error'') (sys_do os (Send (Tcp fd) spkt' 0) s9)"
  obtains d where "spkt' = overwrite 0 d spkt" and "extends s2 s'"
    and "received (Udt peer) s' = received (Udt peer) s @ d"
    and "calls_of (sends (Udt peer)) s' = calls_of (sends (Udt peer)) s @ [spkt, [0]]"
    and "calls_of (sends (Tcp fd)) s' = calls_of (sends (Tcp fd)) s @ [spkt']"
proof -
  note p = client_prefix [OF pre(1,2) junk] and su = client_setup [OF pre(3-6)]
  from wait_reply_data [OF wait] obtain d where d: "spkt' = overwrite 0 d spkt"
      "received (Udt peer) s9 = received (Udt peer) s6 @ d" by (auto simp: mute_do)
  have len: "length spkt = 8" using p by (simp add: spkt)
  note dia = client_dialogue [OF wait len]
  have "extends s9 s'" using s' by (auto intro: extends_intros)
  with dia su have "extends s2 s'" by (blast intro: only_calls_trans)
  moreover have "received (Udt peer) s6 = received (Udt peer) s"
    by (rule client_udt_mute [OF pre])
  then have "received (Udt peer) s' = received (Udt peer) s @ d"
    using d(2) s' by (auto simp: mute_do)
  moreover have "calls_of (sends (Udt peer)) s' = calls_of (sends (Udt peer)) s @ [spkt, [0]]"
      "calls_of (sends (Tcp fd)) s' = calls_of (sends (Tcp fd)) s @ [spkt']"
    using s' dia p su by auto
  ultimately show ?thesis using d(1) by (intro that)
qed

text \<open>What the client side did, in terms of the request it read: either it refused, or it passed
  the request on and the answer back.\<close>

lemma client_outcome:
  assumes "client_handshake os cfg fd junk jc st s = Some (Inr (e, st', s'))"
    and "length junk = 8"
    and "\<forall>r. (Recv (Tcp fd) 8 MSG_WAITALL, r) \<in> set (drop (length (log s)) (log s')) \<longrightarrow>
      length (resp_data r) = 8"
  obtains spkt m rest where "length spkt = 8" and "spkt ! 0 \<noteq> 4 \<or> spkt ! 1 \<noteq> 1 \<or> m ! 1 = 92"
    and "received (Tcp fd) s' = received (Tcp fd) s @ spkt @ rest"
    and "calls_of (sends (Tcp fd)) s' = calls_of (sends (Tcp fd)) s @ [m]" and "length m = 8"
    and "\<exists>args. e = Broken args" and "\<forall>v. calls_of (sends (Udt v)) s' = calls_of (sends (Udt v)) s"
  | spkt peer d rest where "length spkt = 8" and "spkt ! 0 = 4" and "spkt ! 1 = 1"
    and "received (Tcp fd) s' = received (Tcp fd) s @ spkt @ rest"
    and "received (Udt peer) s' = received (Udt peer) s @ d"
    and "calls_of (sends (Udt peer)) s' = calls_of (sends (Udt peer)) s @ [spkt, [0]]"
    and "calls_of (sends (Tcp fd)) s' = calls_of (sends (Tcp fd)) s @ [overwrite 0 d spkt]"
    and "e = (if overwrite 0 d spkt ! 1 = 90
      then Relay \<lparr>udtsock = peer, tcpsock = fd, shutdown = 0\<rparr>
      else Broken \<lparr>udtsock = peer, tcpsock = fd, shutdown = 0\<rparr>)"
  using assms(1)
proof (cases rule: client_cases)
  case (1 s1 s2 spkt peer r m code)
  note p = client_prefix [OF 1(1,2) assms(2)]
  have x: "extends s2 s'" by (simp add: 1(6) extends_intros)
  from client_request [OF 1(1-3) assms(2,3) x] p 1(4,5) show ?thesis
    by (auto simp: 1(6) intro!: that(1) [of spkt "spkt[1 := code]"])
next
  case (2 s1 s2 s3 s4 s5 s6 spkt peer r rb rc baddr)
  note p = client_prefix [OF 2(1,2) assms(2)] and su = client_setup [OF 2(6-9)]
  show ?thesis
  proof (cases "rc = -1")
    case True
    with 2(10) have s': "s' = send_reply os (Tcp fd) 92 spkt
        (sys_do os (Say LOG_WARNING ''udt connect: %s'') s6)" and e: "\<exists>args. e = Broken args" by auto
    have "extends s6 s'" by (simp add: s' extends_intros)
    with su have "extends s2 s'" by (blast intro: only_calls_trans)
    from client_request [OF 2(1-3) assms(2,3) this] p su e show ?thesis
      by (auto simp: s' intro!: that(1) [of spkt "spkt[1 := 92]"])
  next
    case False
    with 2(10) obtain spkt' s9 where w: "wait_reply os peer spkt
          (sys_do os (Send (Udt peer) [0] 0) (sys_do os (Send (Udt peer) spkt 0) s6)) =
          Some (Inr (spkt', s9))"
        and e: "e = (if spkt' ! 1 = 90 then Relay \<lparr>udtsock = peer, tcpsock = fd, shutdown = 0\<rparr>
          else Broken \<lparr>udtsock = peer, tcpsock = fd, shutdown = 0\<rparr>)"
        and s': "s' = sys_do os (Send (Tcp fd) spkt' 0) s9 \<or>
          s' = sys_do os (Say LOG_ERR ''remote peer socks error'') (sys_do os (Send (Tcp fd) spkt' 0) s9)"
      by auto
    from client_forwards [OF 2(1,2,6-9,3) assms(2) w s'] obtain d where
      d: "spkt' = overwrite 0 d spkt" and fwd: "extends s2 s'"
        "received (Udt peer) s' = received (Udt peer) s @ d"
        "calls_of (sends (Udt peer)) s' = calls_of (sends (Udt peer)) s @ [spkt, [0]]"
        "calls_of (sends (Tcp fd)) s' = calls_of (sends (Tcp fd)) s @ [spkt']" .
    from client_request [OF 2(1-3) assms(2,3) fwd(1)] fwd 2(4,5) e show ?thesis
      by (auto simp: d intro: that(2))
  qed
qed

lemma dest_addr_request:
  assumes "6 \<le> length (sa_data name)"
  shows "dest_addr (request_for name) =
    \<lparr>sa_family = AF_INET, sa_data = take 6 (sa_data name) @ replicate 8 0\<rparr>"
proof -
  have "take 2 (sa_data name) @ take 4 (drop 2 (sa_data name)) = take 6 (sa_data name)"
    by (simp add: take_add [of 2 4, symmetric, simplified])
  then show ?thesis by (simp add: dest_addr_def request_for_def)
qed

text \<open>An answer that turns the code of a request from 1 to 90 has at least two bytes, of which
  the second is 90.\<close>

lemma reply_grants:
  assumes "overwrite 0 d spkt ! 1 = (90 :: byte)" and "spkt ! 1 = 1" and "length spkt = 8"
  shows "2 \<le> length d \<and> d ! 1 = 90"
proof (rule ccontr)
  assume "\<not> ?thesis"
  then consider "length d < 2" | "2 \<le> length d" "d ! 1 \<noteq> 90" by linarith
  then show False
  proof cases
    case 1
    then obtain b where "d = [] \<or> d = [b]"
      by (cases d) (auto simp: less_Suc_eq_le numeral_2_eq_2)
    with assms show False by (auto simp: overwrite_def nth_append)
  next
    case 2
    with assms(1) show False by (simp add: overwrite_def nth_append)
  qed
qed


text \<open>What arrives over a channel begins with the message that was sent, as far as it goes.\<close>

lemma channel_prefix:
  assumes "channel epA sA sA' epB sB sB'"
    and "calls_of (sends epA) sA' = calls_of (sends epA) sA @ msgs"
    and "received epB sB' = received epB sB @ got @ rest"
  shows "got = take (length got) (concat msgs)"
proof -
  from channel_bytes [OF assms] obtain tail where "concat msgs = (got @ rest) @ tail" by auto
  then show ?thesis by simp
qed

text \<open>A peer relay that was sent the request and whose answer granted it has connected to the
  destination of the request.\<close>

lemma server_granted:
  assumes server: "server_handshake osS cfgS u junkS jS sS = Some (Inr (eS, sS'))"
      "length junkS = 8" "recvs_ok (Udt u) sS sS'"
    and udt: "channel (Udt v) sC sC' (Udt u) sS sS'" "channel (Udt u) sS sS' (Udt v) sC sC'"
    and asked: "calls_of (sends (Udt v)) sC' = calls_of (sends (Udt v)) sC @ [req, [0]]"
      "length req = 8"
    and answer: "received (Udt v) sC' = received (Udt v) sC @ d" "2 \<le> length d" "d ! 1 = 90"
  obtains peer where "eS = Relay \<lparr>udtsock = u, tcpsock = peer, shutdown = 0\<rparr>"
    and "calls_of connects sS' = calls_of connects sS @ [(Tcp peer, dest_addr (pkt_of req))]"
proof -
  from server obtain spktS peer restS where
      s: "length spktS = 8"
        "calls_of (sends (Udt u)) sS' = calls_of (sends (Udt u)) sS @ [spktS[1 := reply_code eS]]"
        "received (Udt u) sS' = received (Udt u) sS @ spktS @ restS"
        "\<forall>args. eS = Relay args \<longrightarrow> args = \<lparr>udtsock = u, tcpsock = peer, shutdown = 0\<rparr> \<and>
          calls_of connects sS' = calls_of connects sS @ [(Tcp peer, dest_addr (pkt_of spktS))]"
    by (rule server_outcome)
  have spktS: "spktS = req"
    using channel_prefix [OF udt(1) asked(1) s(3)] s(1) asked(2) by simp
  from channel_bytes [OF udt(2) s(2) answer(1)] obtain tail where
    "spktS[1 := reply_code eS] = d @ tail" by auto
  with answer(2,3) have "spktS[1 := reply_code eS] ! 1 = 90" by (simp add: nth_append)
  with s(1) have "reply_code eS = 90" by simp
  then obtain args where "eS = Relay args" by (cases eS) auto
  with s(4) spktS that show ?thesis by simp
qed


section \<open>The property\<close>

text \<open>C1: When the \<open>connect\<close> of an application succeeds, the relay it talks to and the peer
  relay have both started their relay threads, and the last thing the peer relay connected to
  is the address and port that the application asked for. This holds for any answers of the
  three environments, as long as the two connections between the processes deliver what was
  sent, in order, the request of eight bytes arrives in the one call that waits for all of it,
  and no receive of the peer relay fails.\<close>

theorem connect_means_connected:
  assumes app: "minisocks_connect osA env resolve sd name m sA = Inr (0, m', sA')"
    and name: "sa_family name = AF_INET" "6 \<le> length (sa_data name)"
    and client: "client_handshake osC cfgC fd junkC jC st sC = Some (Inr (eC, st', sC'))"
    and server: "server_handshake osS cfgS u junkS jS sS = Some (Inr (eS, sS'))"
    and junk: "length junkC = 8" "length junkS = 8"
    and waitall: "\<forall>r. (Recv (Tcp fd) 8 MSG_WAITALL, r) \<in> set (drop (length (log sC)) (log sC')) \<longrightarrow>
      length (resp_data r) = 8"
    and receives: "recvs_ok (Udt u) sS sS'"
    and tcp: "channel (Tcp sd) sA sA' (Tcp fd) sC sC'" "channel (Tcp fd) sC sC' (Tcp sd) sA sA'"
    and udt: "\<forall>args. eC = Relay args \<or> eC = Broken args \<longrightarrow>
      channel (Udt (udtsock args)) sC sC' (Udt u) sS sS' \<and>
      channel (Udt u) sS sS' (Udt (udtsock args)) sC sC'"
  shows "\<exists>args peer. eC = Relay args \<and> tcpsock args = fd \<and>
    eS = Relay \<lparr>udtsock = u, tcpsock = peer, shutdown = 0\<rparr> \<and>
    calls_of connects sS' = calls_of connects sS @
      [(Tcp peer, \<lparr>sa_family = AF_INET, sa_data = take 6 (sa_data name) @ replicate 8 0\<rparr>)]"
proof -
  define req where "req = pkt_bytes (request_for name)"
  have req: "length req = 8" "req ! 0 = 4" "req ! 1 = 1"
    using length_pkt_bytes [OF wf_request_for [OF name(2)]]
    by (simp_all add: req_def pkt_bytes_def request_for_def)
  from app name obtain reply where
      sent: "calls_of (sends (Tcp sd)) sA' = calls_of (sends (Tcp sd)) sA @ [req @ [0]]" and
      reply: "received (Tcp sd) sA' = received (Tcp sd) sA @ pkt_bytes reply"
        "wf_pkt reply" "cd reply = 90"
    unfolding req_def by (rule minisocks_success)
  then have code: "length (pkt_bytes reply) = 8" "pkt_bytes reply ! 1 = 90"
    by (simp_all add: length_pkt_bytes) (simp add: pkt_bytes_def)
  have granted: "msg ! 1 = 90"
    if "calls_of (sends (Tcp fd)) sC' = calls_of (sends (Tcp fd)) sC @ [msg]" for msg
  proof -
    from channel_bytes [OF tcp(2) that reply(1)] obtain rest where "msg = pkt_bytes reply @ rest" by auto
    with code show ?thesis by (simp add: nth_append)
  qed
  have asked: "spkt = req" if "length spkt = 8"
      "received (Tcp fd) sC' = received (Tcp fd) sC @ spkt @ more" for spkt more
    using channel_prefix [OF tcp(1) sent that(2)] that(1) req(1) by simp
  from client junk(1) waitall show ?thesis
  proof (cases rule: client_outcome)
    case (1 spkt msg rest)
    from asked [OF 1(1,3)] granted [OF 1(4)] 1(2) req show ?thesis by simp
  next
    case (2 spkt v d rest)
    from asked [OF 2(1,4)] have spkt: "spkt = req" .
    from granted [OF 2(7)] have ok: "overwrite 0 d spkt ! 1 = 90" .
    then have eC: "eC = Relay \<lparr>udtsock = v, tcpsock = fd, shutdown = 0\<rparr>" using 2(8) by simp
    with udt have udt: "channel (Udt v) sC sC' (Udt u) sS sS'" "channel (Udt u) sS sS' (Udt v) sC sC'"
      by simp_all
    from reply_grants [OF ok 2(3,1)] have d: "2 \<le> length d" "d ! 1 = 90" by auto
    from server_granted [OF server junk(2) receives udt 2(6) [unfolded spkt] req(1) 2(5) d]
    obtain peer where "eS = Relay \<lparr>udtsock = u, tcpsock = peer, shutdown = 0\<rparr>"
        "calls_of connects sS' = calls_of connects sS @ [(Tcp peer, dest_addr (pkt_of req))]" .
    moreover have "dest_addr (pkt_of req) =
        \<lparr>sa_family = AF_INET, sa_data = take 6 (sa_data name) @ replicate 8 0\<rparr>"
      using dest_addr_request [OF name(2)] wf_request_for [OF name(2)] by (simp add: req_def)
    ultimately show ?thesis using eC by simp
  qed
qed

definition relayed_script :: "resp list" where
  "relayed_script = [Ret 9, Data [4, 1, 0, 80, 10, 0, 0, 1], Data [0],
     Ret 8192, Ret 3, Ret 0, Ret 0, Ret 0, Ret 8192, Ret 3, Ret 0, Ret 0, Ret 0,
     Ret 0, Ret 0, Ret 8, Ret 1, Data [4, 90, 0, 80, 10, 0, 0, 1], Ret 8]"

definition destination_script :: "resp list" where
  "destination_script = [Ret 9, Data [4, 1, 0], Data [80, 10, 0, 0, 1], Data [0], Ret 0, Ret 8]"

lemma end_to_end_app:
  "\<exists>m' s'. minisocks_connect script (Some ''localhost'') (\<lambda>h p. Some sample_server) 6 sample_name
      minisocks_initial (start [Ret 0, Ret 9, Data [4, 90, 0, 80, 10, 0, 0, 1]]) =
      Inr (0, m', s') \<and>
    received (Tcp 6) s' = [4, 90, 0, 80, 10, 0, 0, 1] \<and>
    concat (calls_of (sends (Tcp 6)) s') = [4, 1, 0, 80, 10, 0, 0, 1, 0]"
  by (simp add: minisocks_connect_def sample_name_def sample_server_def sa_field_def
      getserver_def minisocks_init_def minisocks_initial_def scan_server_def pkt_bytes_def
      sys_num_def sys_call_def answer_def script_def start_def of_udt_def Let_def
      received_def in_bytes_def calls_of_def)

lemma end_to_end_server:
  "\<exists>s'. server_handshake script sample_config 5 (replicate 8 0) 1 (start destination_script) =
      Some (Inr (Relay \<lparr>udtsock = 5, tcpsock = 9, shutdown = 0\<rparr>, s')) \<and>
    recvs_ok (Udt 5) (start destination_script) s' \<and>
    received (Udt 5) s' = [4, 1, 0, 80, 10, 0, 0, 1, 0] \<and>
    concat (calls_of (sends (Udt 5)) s') = [4, 90, 0, 80, 10, 0, 0, 1]"
  by (simp add: server_handshake_def run_simps sample_config_def destination_script_def
      check_access_def recvs_ok_def recv_call_def Let_def received_def in_bytes_def calls_of_def
      sends_def)

lemma end_to_end_client:
  "\<exists>st' s'. client_handshake script sample_config 5 (replicate 8 0) 1 fresh_statics
       (start relayed_script) =
       Some (Inr (Relay \<lparr>udtsock = 9, tcpsock = 5, shutdown = 0\<rparr>, st', s')) \<and>
     (\<forall>r. (Recv (Tcp 5) 8 MSG_WAITALL, r) \<in> set (log s') \<longrightarrow> length (resp_data r) = 8) \<and>
     received (Tcp 5) s' = [4, 1, 0, 80, 10, 0, 0, 1, 0] \<and>
     received (Udt 9) s' = [4, 90, 0, 80, 10, 0, 0, 1] \<and>
     concat (calls_of (sends (Udt 9)) s') = [4, 1, 0, 80, 10, 0, 0, 1, 0] \<and>
     concat (calls_of (sends (Tcp 5)) s') = [4, 90, 0, 80, 10, 0, 0, 1]"
  by (simp add: client_handshake_def run_simps sample_config_def relayed_script_def
      relay_setsockopt_def check_udp_buffer_def fresh_statics_def fresh_stat_def
      stat_of_def set_stat_def requested_size_def probe_if_new_def probe_udp.simps u32_def
      is_custom_value_def Let_def received_def in_bytes_def calls_of_def MSG_WAITALL_def sends_def)

theorem connect_means_connected_witness:
  "\<exists>s'. server_handshake script sample_config 5 (replicate 8 0) 1 (start destination_script) =
      Some (Inr (Relay \<lparr>udtsock = 5, tcpsock = 9, shutdown = 0\<rparr>, s')) \<and>
    calls_of connects s' = [(Tcp 9, sample_name)]"
proof -
  have [simp]: "received ep (start w) = []" "calls_of f (start w) = []" "log (start w) = []"
    for ep w and f :: "call \<Rightarrow> 'x list" by (simp_all add: received_def calls_of_def start_def)
  obtain m' sA where a: "minisocks_connect script (Some ''localhost'') (\<lambda>h p. Some sample_server) 6
      sample_name minisocks_initial (start [Ret 0, Ret 9, Data [4, 90, 0, 80, 10, 0, 0, 1]]) =
      Inr (0, m', sA)"
    and ra: "received (Tcp 6) sA = [4, 90, 0, 80, 10, 0, 0, 1]"
      "concat (calls_of (sends (Tcp 6)) sA) = [4, 1, 0, 80, 10, 0, 0, 1, 0]"
    using end_to_end_app by blast
  obtain st' sC where c: "client_handshake script sample_config 5 (replicate 8 0) 1 fresh_statics
      (start relayed_script) = Some (Inr (Relay \<lparr>udtsock = 9, tcpsock = 5, shutdown = 0\<rparr>, st', sC))"
    and rc: "\<forall>r. (Recv (Tcp 5) 8 MSG_WAITALL, r) \<in> set (log sC) \<longrightarrow> length (resp_data r) = 8"
      "received (Tcp 5) sC = [4, 1, 0, 80, 10, 0, 0, 1, 0]"
      "received (Udt 9) sC = [4, 90, 0, 80, 10, 0, 0, 1]"
      "concat (calls_of (sends (Udt 9)) sC) = [4, 1, 0, 80, 10, 0, 0, 1, 0]"
      "concat (calls_of (sends (Tcp 5)) sC) = [4, 90, 0, 80, 10, 0, 0, 1]"
    using end_to_end_client by blast
  obtain sS where s: "server_handshake script sample_config 5 (replicate 8 0) 1
      (start destination_script) = Some (Inr (Relay \<lparr>udtsock = 5, tcpsock = 9, shutdown = 0\<rparr>, sS))"
    and rs: "recvs_ok (Udt 5) (start destination_script) sS"
      "received (Udt 5) sS = [4, 1, 0, 80, 10, 0, 0, 1, 0]"
      "concat (calls_of (sends (Udt 5)) sS) = [4, 90, 0, 80, 10, 0, 0, 1]"
    using end_to_end_server by blast
  have n: "sa_family sample_name = 2" "6 \<le> length (sa_data sample_name)"
    by (simp_all add: sample_name_def)
  from connect_means_connected [OF a n c s _ _ _ rs(1)] ra rc rs s show ?thesis
    by (auto simp: channel_def sample_name_def)
qed

end
