(* ===== verification/Data_Path.thy ===== *)
theory Data_Path
  imports End_To_End Relay_Threads
begin

text \<open>
  The bytes of a relayed connection, from the application through both relays to the
  destination and back: the handshakes consume exactly the request and its answer, so that
  the relay threads of both relays start at the first byte of the data. Together with what
  the threads do, the destination receives a prefix of what the application sent after the
  request, and the application a prefix of what the destination sent.
\<close>


section \<open>Delivery\<close>

text \<open>What arrived on one side of a connection is a prefix of what the other side accepted for
  sending.\<close>

definition delivers ::
  "endpoint \<Rightarrow> 'v sys \<Rightarrow> 'v sys \<Rightarrow> endpoint \<Rightarrow> 'w sys \<Rightarrow> 'w sys \<Rightarrow> bool" where
  "delivers snd_ep t t' rcv_ep s s' \<longleftrightarrow>
     (\<exists>x rest. received rcv_ep s' = received rcv_ep s @ x \<and> sent snd_ep t' = sent snd_ep t @ x @ rest)"

text \<open>A blocking send accepts all of its bytes.\<close>

definition sends_full :: "endpoint \<Rightarrow> 'w sys \<Rightarrow> 'w sys \<Rightarrow> bool" where
  "sends_full ep s s' \<longleftrightarrow>
     (\<forall>(c, r) \<in> set (drop (length (log s)) (log s')). \<forall>bs f. c = Send ep bs f \<longrightarrow>
       rv r = int (length bs))"

text \<open>The handshakes send only with \<open>send\<close>.\<close>

definition no_write :: "call \<Rightarrow> bool" where
  "no_write c \<longleftrightarrow> (\<forall>fd bs. c \<noteq> Write fd bs)"

lemma no_write_simps [simp]:
  "no_write (Socket k)" "no_write (Bind ep a)" "no_write (Connect ep a)" "no_write (Send ep bs f)"
  "no_write (Recv ep n f)" "no_write (Say p m)" "no_write Getifaddrs"
  by (simp_all add: no_write_def)

lemma sent_full:
  assumes "only_calls no_write s s'" and "sends_full ep s s'"
    and "calls_of (sends ep) s' = calls_of (sends ep) s @ ms"
  shows "sent ep s' = sent ep s @ concat ms"
proof -
  from assms(1) obtain l where l: "log s' = log s @ l" "\<forall>e \<in> set l. no_write (fst e)"
    by (auto simp: only_calls_def)
  with assms(2) have f: "\<forall>(c, r) \<in> set l. \<forall>bs f. c = Send ep bs f \<longrightarrow> rv r = int (length bs)"
    by (simp add: sends_full_def)
  have "out_bytes ep e = concat (sends ep (fst e))" if "e \<in> set l" for e
    using bspec [OF f that] bspec [OF l(2) that]
    by (auto simp: out_bytes_def sends_def no_write_def split: call.splits prod.splits)
  then have "concat (map (out_bytes ep) l) = concat (concat (map (\<lambda>e. sends ep (fst e)) l))"
    by (induction l) auto
  with l(1) assms(3) show ?thesis by (simp add: sent_def calls_of_def)
qed


section \<open>The handshakes and their streams\<close>

lemma opt_call_mute_any: "opt_call sock c \<Longrightarrow> mute ep c \<and> no_write c"
  by (auto simp: opt_call_def buffer_call_def mute_def no_write_def in_bytes_def split: call.splits)

lemma recv_call_no_write: "recv_call e c \<Longrightarrow> no_write c"
  by (auto simp: recv_call_def)

lemmas no_write_then = only_calls_then_do [of no_write] only_calls_then_num [of no_write]

lemma no_write_reply:
  "only_calls no_write s t \<Longrightarrow> only_calls no_write s (send_reply os ep code spkt t)"
  unfolding send_reply_def by (rule only_calls_then_do) simp_all

text \<open>The handshake of the client side makes no \<open>write\<close>, and reads from the application nothing but
  its request and a user name.\<close>

lemma client_no_write:
  assumes "sys_num os (Socket Udt_kind) s = (peer, s1)"
    and "sys_call os (Recv (Tcp fd) 8 MSG_WAITALL) s1 = (r, s2)"
    and "relay_setsockopt os peer order opts rdv st s3 = Inr (st', s4)"
    and "sys_num os (Bind (Udt peer) baddr) s4 = (rb, s5)"
    and "sys_num os (Connect (Udt peer) paddr) s5 = (rc, s6)"
    and "only_calls (recv_call (Udt peer))
      (sys_do os (Send (Udt peer) [0] 0) (sys_do os (Send (Udt peer) spkt 0) s6)) s9"
  shows "only_calls no_write s s2" and "only_calls no_write s3 (sys_do os (Send (Tcp fd) spkt' 0) s9)"
proof -
  have "only_calls no_write s s1" using assms(1) by (rule only_calls_sys_num) simp
  also have "only_calls no_write s1 s2" using assms(2) by (rule only_calls_sys_call) simp
  finally show "only_calls no_write s s2" .
  have "only_calls no_write s3 s4"
    using relay_setsockopt_only [OF assms(3)] by (rule only_calls_weaken) (simp add: opt_call_mute_any)
  also have "only_calls no_write s4 s5" using assms(4) by (rule only_calls_sys_num) simp
  also have "only_calls no_write s5 s6" using assms(5) by (rule only_calls_sys_num) simp
  also have "only_calls no_write s6
      (sys_do os (Send (Udt peer) [0] 0) (sys_do os (Send (Udt peer) spkt 0) s6))"
    by (intro only_calls_then_do only_calls_refl) simp_all
  also have "only_calls no_write (sys_do os (Send (Udt peer) [0] 0)
      (sys_do os (Send (Udt peer) spkt 0) s6)) s9"
    using assms(6) by (rule only_calls_weaken) (rule recv_call_no_write)
  finally show "only_calls no_write s3 (sys_do os (Send (Tcp fd) spkt' 0) s9)"
    by (rule only_calls_then_do) simp
qed

lemma client_tcp_received:
  assumes "relay_setsockopt os peer order opts rdv st s3 = Inr (st', s4)"
    and "sys_num os (Bind (Udt peer) baddr) s4 = (rb, s5)"
    and "sys_num os (Connect (Udt peer) paddr) s5 = (rc, s6)"
    and "only_calls (recv_call (Udt peer))
      (sys_do os (Send (Udt peer) [0] 0) (sys_do os (Send (Udt peer) spkt 0) s6)) s9"
  shows "received (Tcp fd) (sys_do os (Send (Tcp fd) spkt' 0) s9) = received (Tcp fd) s3"
proof -
  have "received (Tcp fd) s4 = received (Tcp fd) s3"
    using relay_setsockopt_only [OF assms(1)]
    by (intro mute_received) (erule only_calls_weaken, simp add: opt_call_mute_any)
  moreover have "received (Tcp fd) s6 = received (Tcp fd) s4"
    using mute_num [OF assms(2)] mute_num [OF assms(3)] by simp
  moreover have "received (Tcp fd) s9 = received (Tcp fd)
      (sys_do os (Send (Udt peer) [0] 0) (sys_do os (Send (Udt peer) spkt 0) s6))"
    using assms(4) by (intro mute_received) (erule only_calls_weaken, simp add: recv_call_mute)
  ultimately show ?thesis by (simp add: mute_do)
qed

text \<open>What the client side read and wrote when it starts the relay threads.\<close>

lemma client_streams:
  assumes run: "client_handshake os cfg fd junk jc st s = Some (Inr (Relay args, st', s'))"
    and junk: "length junk = 8" and jc: "jc \<noteq> 0 \<or> bytes_read (Tcp fd) s s'"
    and waitall: "\<forall>r. (Recv (Tcp fd) 8 MSG_WAITALL, r) \<in> set (drop (length (log s)) (log s')) \<longrightarrow>
      length (resp_data r) = 8"
    and full: "sends_full (Udt (udtsock args)) s s'" "sends_full (Tcp fd) s s'"
  obtains spkt nm d where "length spkt = 8" and "0 \<notin> set nm" and "tcpsock args = fd"
    and "received (Tcp fd) s' = received (Tcp fd) s @ spkt @ nm @ [0]"
    and "sent (Udt (udtsock args)) s' = sent (Udt (udtsock args)) s @ spkt @ [0]"
    and "received (Udt (udtsock args)) s' = received (Udt (udtsock args)) s @ d"
    and "sent (Tcp fd) s' = sent (Tcp fd) s @ overwrite 0 d spkt"
  using run
proof (cases rule: client_cases)
  case (2 s1 s2 s3 s4 s5 s6 spkt peer r rb rc baddr)
  then obtain spkt' s9 where w: "wait_reply os peer spkt
        (sys_do os (Send (Udt peer) [0] 0) (sys_do os (Send (Udt peer) spkt 0) s6)) =
        Some (Inr (spkt', s9))" and a: "args = \<lparr>udtsock = peer, tcpsock = fd, shutdown = 0\<rparr>"
      and s': "s' = sys_do os (Send (Tcp fd) spkt' 0) s9" by auto
  from client_forwards [OF 2(1,2,6-9,3) junk w disjI1 [OF s']] obtain d where
    d: "spkt' = overwrite 0 d spkt" and udt: "extends s2 s'"
      "received (Udt peer) s' = received (Udt peer) s @ d" and
    calls: "calls_of (sends (Udt peer)) s' = calls_of (sends (Udt peer)) s @ [spkt, [0]]"
      "calls_of (sends (Tcp fd)) s' = calls_of (sends (Tcp fd)) s @ [spkt']" .
  from client_request [OF 2(1-3) junk waitall udt(1)]
  have len: "length spkt = 8" and s2: "received (Tcp fd) s2 = received (Tcp fd) s @ spkt" by simp_all
  from wait_reply_result [OF w len] have oc: "only_calls (recv_call (Udt peer))
      (sys_do os (Send (Udt peer) [0] 0) (sys_do os (Send (Udt peer) spkt 0) s6)) s9" by auto
  have oc3: "only_calls (recv_call (Tcp fd)) s2 s3" using skip_userid_result [OF 2(6)] by auto
  note quiet = client_no_write(1) [OF 2(1,2,7-9) oc]
    client_no_write(2) [OF 2(1,2,7-9) oc, of spkt', folded s']
  have nw: "only_calls no_write s s'"
    using quiet oc3 by (blast intro: only_calls_trans only_calls_weaken recv_call_no_write)
  have "bytes_read (Tcp fd) s2 s3" if "bytes_read (Tcp fd) s s'"
    using quiet oc3 by (intro bytes_read_between [OF that] extends_only)
  with skip_userid_read [OF 2(6)] jc obtain nm where nm:
      "received (Tcp fd) s3 = received (Tcp fd) s2 @ nm @ [0]" "0 \<notin> set nm" by auto
  have tcp: "received (Tcp fd) s' = received (Tcp fd) s @ spkt @ nm @ [0]"
    using client_tcp_received [OF 2(7-9) oc] by (simp add: s' nm(1) s2)
  from sent_full [OF nw _ calls(1)] sent_full [OF nw full(2) calls(2)] full(1)
  have "sent (Udt peer) s' = sent (Udt peer) s @ spkt @ [0]"
      "sent (Tcp fd) s' = sent (Tcp fd) s @ spkt'" by (simp_all add: a)
  then show ?thesis
    using tcp udt len nm(2) d(1) by (intro that [of spkt nm d]) (simp_all add: a)
qed simp

text \<open>The same for the server side.\<close>

lemma server_streams:
  assumes run: "server_handshake os cfg u junk jc s = Some (Inr (Relay args, s'))"
    and junk: "length junk = 8" and jc: "jc \<noteq> 0 \<or> bytes_read (Udt u) s s'"
    and ok: "recvs_ok (Udt u) s s'"
    and full: "sends_full (Udt u) s s'"
  obtains spkt nm where "length spkt = 8" and "0 \<notin> set nm" and "udtsock args = u"
    and "received (Udt u) s' = received (Udt u) s @ spkt @ nm @ [0]"
    and "sent (Udt u) s' = sent (Udt u) s @ spkt[1 := 90]"
  using run
proof (cases rule: server_cases)
  case (3 s1 s2 s3 s4 s5 spkt peer rc)
  then have a: "args = \<lparr>udtsock = u, tcpsock = peer, shutdown = 0\<rparr>"
      and s': "s' = send_reply os (Udt u) 90 spkt s5" by auto
  have "extends s4 s'"
    using only_calls_sys_num [OF 3(7), of "\<lambda>c. True"] by (auto simp: s' intro: extends_intros)
  with server_request_accepted [OF 3(1,2) junk ok 3(5,6), of "Udt u"] jc obtain nm where
    r: "length spkt = 8" "calls_of (sends (Udt u)) s4 = calls_of (sends (Udt u)) s"
      "received (Udt u) s4 = received (Udt u) s @ spkt @ nm @ [0]" "0 \<notin> set nm" by auto
  have "received (Udt u) s' = received (Udt u) s4"
    using mute_num [OF 3(7), of "Udt u"] by (simp add: s')
  moreover have "calls_of (sends (Udt u)) s' = calls_of (sends (Udt u)) s @ [spkt[1 := 90]]"
    using r(2) calls_of_num [OF 3(7), of "sends (Udt u)"] by (simp add: s')
  moreover have "only_calls no_write s s'"
  proof -
    have "only_calls no_write s s1" using 3(1) by (rule only_calls_sys_num) simp
    also have "only_calls no_write s1 s2"
      using server_request_read [OF 3(1,2) junk] by (blast intro: only_calls_weaken recv_call_no_write)
    also have "only_calls no_write s2 s3"
      using skip_userid_result [OF 3(5)] by (blast intro: only_calls_weaken recv_call_no_write)
    also have "only_calls no_write s3 s4"
      using check_access_result [OF 3(6)] by (auto elim: only_calls_weaken)
    also have "only_calls no_write s4 s5" using 3(7) by (rule only_calls_sys_num) simp
    also have "only_calls no_write s5 s'" unfolding s' by (intro no_write_reply only_calls_refl)
    finally show ?thesis .
  qed
  ultimately show ?thesis
    using r full sent_full [of s s' "Udt u" "[spkt[1 := 90]]"]
    by (intro that [of spkt nm]) (simp_all add: a)
qed auto

section \<open>Data\<close>

lemma relay_moved:
  assumes "reach (relay_init args s0) (relay_step os dm args) x" and "relayable args"
  obtains b r c q where
    "received (Tcp (tcpsock args)) (env x) = received (Tcp (tcpsock args)) s0 @ b @ r"
    and "sent (Udt (udtsock args)) (env x) = sent (Udt (udtsock args)) s0 @ b"
    and "received (Udt (udtsock args)) (env x) = received (Udt (udtsock args)) s0 @ c @ q"
    and "sent (Tcp (tcpsock args)) (env x) = sent (Tcp (tcpsock args)) s0 @ c"
  using relay.reach_inv [OF assms(1)] assms(2) by (auto simp: relay_inv_def moved_def)

text \<open>A request and its empty user name, read as a request and a user name.\<close>

lemma same_request:
  assumes "a @ 0 # y = b @ nm @ 0 # z" and "length a = length b" and "0 \<notin> set nm"
  shows "b = a \<and> nm = [] \<and> y = z"
  using assms by (cases nm) auto

text \<open>What the messages of the handshakes say about the bytes that follow them, in each direction.\<close>

lemma forward_path:
  assumes "req @ 0 # payload = spkt @ nm @ 0 # (b @ r)" and "spkt @ 0 # b = spktS @ nmS @ 0 # (g @ h)"
    and "length req = 8" and "length spkt = 8" and "length spktS = 8" and "0 \<notin> set nm" and "0 \<notin> set nmS"
  shows "spkt = req \<and> spktS = req \<and> prefix g payload"
proof -
  from same_request [of req payload spkt nm] assms have "spkt = req" "payload = b @ r" by auto
  moreover from same_request [of spkt b spktS nmS] assms have "spktS = spkt" "b = g @ h" by auto
  ultimately show ?thesis by simp
qed

lemma backward_path:
  assumes "req[1 := 90] @ e = d @ k @ q" and "overwrite 0 d spkt @ k = x @ m"
    and "length req = 8" and "length spkt = 8" and "length d = 8"
  shows "prefix x (req[1 := 90] @ e @ f)"
proof -
  from assms(1,3,5) have "d = req[1 := 90]" "e = k @ q" by (simp_all add: append_eq_append_conv)
  moreover have "overwrite 0 d spkt = d" using assms(4,5) by (simp add: overwrite_def)
  ultimately have "req[1 := 90] @ e @ f = x @ m @ q @ f" using assms(2) by simp
  then show ?thesis by (metis prefixI)
qed

text \<open>C4: The data of a connection arrives in order and unchanged. When both relays have started
  their threads for an application that sent a request, an empty user name and then
  \<open>payload\<close>, what the peer relay has sent to the destination is at every moment a prefix of
  \<open>payload\<close>; and what the application has received is a prefix of the answer to its request
  followed by what the peer relay has received from the destination. The relays may interleave
  in any way. The conditions, on what the code does not check: each of the two connections
  delivers, in both directions, a prefix of what was sent on it; the sends and writes of the
  relays are accepted whole while the handshakes last; the receive of the request with
  \<open>MSG_WAITALL\<close> and the receive of the answer each return eight bytes; no receive of the handshake of the
  peer relay fails; the loops over the user name read it, that is, each of their receives
  delivers its byte, or else the uninitialised variable for it did not happen to be zero; and
  the socket numbers of the relays are in the ranges of their libraries.\<close>

theorem relayed_data_in_order:
  assumes app: "sent (Tcp sd) sA' = sent (Tcp sd) sA @ req @ 0 # payload" "length req = 8"
    and client: "client_handshake osC cfgC fd junkC jC st sC = Some (Inr (Relay aC, st', sC'))"
      "reach (relay_init aC sC') (relay_step osC dmC aC) xC"
    and server: "server_handshake osS cfgS u junkS jS sS = Some (Inr (Relay aS, sS'))"
      "reach (relay_init aS sS') (relay_step osS dmS aS) xS"
    and init: "length junkC = 8" "length junkS = 8" "relayable aC" "relayable aS"
    and names: "jC \<noteq> 0 \<or> bytes_read (Tcp fd) sC sC'" "jS \<noteq> 0 \<or> bytes_read (Udt u) sS sS'"
    and one_recv: "\<forall>r. (Recv (Tcp fd) 8 MSG_WAITALL, r) \<in> set (drop (length (log sC)) (log sC')) \<longrightarrow>
      length (resp_data r) = 8" "length (received_since sC (Udt (udtsock aC)) sC') = 8"
      "recvs_ok (Udt u) sS sS'"
    and full: "sends_full (Udt (udtsock aC)) sC sC'" "sends_full (Tcp fd) sC sC'"
      "sends_full (Udt u) sS sS'"
    and forward: "delivers (Tcp sd) sA sA' (Tcp fd) sC (env xC)"
      "delivers (Udt (udtsock aC)) sC (env xC) (Udt u) sS (env xS)"
    and backward: "delivers (Udt u) sS (env xS) (Udt (udtsock aC)) sC (env xC)"
      "delivers (Tcp fd) sC (env xC) (Tcp sd) sA sA'"
  shows "prefix (sent_since sS' (Tcp (tcpsock aS)) (env xS)) payload \<and>
    prefix (received_since sA (Tcp sd) sA')
      (req[1 := 90] @ received_since sS' (Tcp (tcpsock aS)) (env xS))"
proof -
  from client(1) init(1) names(1) one_recv(1) full(1,2) obtain spkt nm d where c:
      "length spkt = 8" "0 \<notin> set nm" "tcpsock aC = fd"
      "received (Tcp fd) sC' = received (Tcp fd) sC @ spkt @ nm @ [0]"
      "sent (Udt (udtsock aC)) sC' = sent (Udt (udtsock aC)) sC @ spkt @ [0]"
      "received (Udt (udtsock aC)) sC' = received (Udt (udtsock aC)) sC @ d"
      "sent (Tcp fd) sC' = sent (Tcp fd) sC @ overwrite 0 d spkt"
    by (rule client_streams)
  from server(1) init(2) names(2) one_recv(3) full(3) obtain spktS nmS where s:
      "length spktS = 8" "0 \<notin> set nmS" "udtsock aS = u"
      "received (Udt u) sS' = received (Udt u) sS @ spktS @ nmS @ [0]"
      "sent (Udt u) sS' = sent (Udt u) sS @ spktS[1 := 90]"
    by (rule server_streams)
  from client(2) init(3) obtain b r k q where tC:
      "received (Tcp fd) (env xC) = received (Tcp fd) sC' @ b @ r"
      "sent (Udt (udtsock aC)) (env xC) = sent (Udt (udtsock aC)) sC' @ b"
      "received (Udt (udtsock aC)) (env xC) = received (Udt (udtsock aC)) sC' @ k @ q"
      "sent (Tcp fd) (env xC) = sent (Tcp fd) sC' @ k"
    by (rule relay_moved [where args = aC, unfolded c(3)])
  from server(2) init(4) obtain e f g h where tS:
      "received (Tcp (tcpsock aS)) (env xS) = received (Tcp (tcpsock aS)) sS' @ e @ f"
      "sent (Udt u) (env xS) = sent (Udt u) sS' @ e"
      "received (Udt u) (env xS) = received (Udt u) sS' @ g @ h"
      "sent (Tcp (tcpsock aS)) (env xS) = sent (Tcp (tcpsock aS)) sS' @ g"
    by (rule relay_moved [where args = aS, unfolded s(3)])
  from forward(1) app(1) obtain m1 where "req @ 0 # payload = spkt @ nm @ 0 # (b @ r @ m1)"
    by (auto simp: delivers_def tC c)
  moreover from forward(2) obtain m2 where "spkt @ 0 # b = spktS @ nmS @ 0 # (g @ h @ m2)"
    by (auto simp: delivers_def tC tS c s)
  ultimately have 1: "spkt = req" "spktS = req" "prefix g payload"
    using forward_path [of req payload spkt nm b "r @ m1" spktS nmS g "h @ m2"] app(2) c(1,2) s(1,2)
    by simp_all
  from backward(1) obtain m3 where "req[1 := 90] @ e = d @ k @ q @ m3"
    by (auto simp: delivers_def tC tS c s 1(2))
  moreover from backward(2) obtain x m4 where
      x: "received (Tcp sd) sA' = received (Tcp sd) sA @ x" "overwrite 0 d spkt @ k = x @ m4"
    by (auto simp: delivers_def tC c)
  moreover have "length d = 8" using one_recv(2) by (simp add: received_since_def c)
  ultimately have "prefix x (req[1 := 90] @ e @ f)"
    using backward_path [of req e d k "q @ m3" spkt x m4 f] app(2) c(1) by simp
  with x(1) 1(3) show ?thesis by (simp add: received_since_def sent_since_def tS)
qed

text \<open>A run: the application sends two bytes after its request, and they are at the
  destination when its answer is back.\<close>

definition sample_app :: "unit sys" where
  "sample_app = (start ())\<lparr>log :=
     [(Send (Tcp 6) [4, 1, 0, 80, 10, 0, 0, 1, 0, 7, 8] 0, Ret 11),
      (Recv (Tcp 6) 8 0, Data [4, 90, 0, 80, 10, 0, 0, 1])]\<rparr>"

definition client_args :: cargs where
  "client_args = \<lparr>udtsock = 9, tcpsock = 5, shutdown = 0\<rparr>"

definition server_args :: cargs where
  "server_args = \<lparr>udtsock = 5, tcpsock = 9, shutdown = 0\<rparr>"

lemma data_client:
  "\<exists>st' s'. client_handshake script sample_config 5 (replicate 8 0) 1 fresh_statics
       (start (relayed_script @ [Ret 1, Data [7, 8], Ret 2])) =
       Some (Inr (Relay client_args, st', s')) \<and>
     (\<forall>r. (Recv (Tcp 5) 8 MSG_WAITALL, r) \<in> set (log s') \<longrightarrow> length (resp_data r) = 8) \<and>
     sends_full (Udt 9) (start []) s' \<and> sends_full (Tcp 5) (start []) s' \<and>
     world s' = [Ret 1, Data [7, 8], Ret 2] \<and>
     received (Tcp 5) s' = [4, 1, 0, 80, 10, 0, 0, 1, 0] \<and>
     received (Udt 9) s' = [4, 90, 0, 80, 10, 0, 0, 1] \<and>
     sent (Udt 9) s' = [4, 1, 0, 80, 10, 0, 0, 1, 0] \<and>
     sent (Tcp 5) s' = [4, 90, 0, 80, 10, 0, 0, 1]"
  by (simp add: client_handshake_def run_simps sample_config_def relayed_script_def client_args_def
      relay_setsockopt_def check_udp_buffer_def fresh_statics_def fresh_stat_def
      stat_of_def set_stat_def requested_size_def probe_if_new_def probe_udp.simps u32_def
      is_custom_value_def Let_def received_def sent_def in_bytes_def out_bytes_def
      MSG_WAITALL_def sends_full_def)

lemma data_client_relay:
  assumes "world s = [Ret 1, Data [7, 8], Ret 2]"
  shows "\<exists>x. reach (relay_init client_args s) (relay_step script 0 client_args) x \<and>
    received (Tcp 5) (env x) = received (Tcp 5) s @ [7, 8] \<and>
    sent (Udt 9) (env x) = sent (Udt 9) s @ [7, 8] \<and>
    received (Udt 9) (env x) = received (Udt 9) s \<and> sent (Tcp 5) (env x) = sent (Tcp 5) s"
proof (intro exI conjI)
  show "reach (relay_init client_args s) (relay_step script 0 client_args)
      (run_schedule script 0 client_args [True, True, True, True] (relay_start client_args s))"
    by (intro run_schedule_reach reach_init) (simp add: relay_init_def)
qed (use assms in \<open>simp_all add: relay_eval client_args_def received_def sent_def in_bytes_def
      out_bytes_def\<close>)

lemma data_server:
  "\<exists>s'. server_handshake script sample_config 5 (replicate 8 0) 1
      (start (destination_script @ [Ret 0, Data [7, 8], Ret 2])) =
      Some (Inr (Relay server_args, s')) \<and>
    recvs_ok (Udt 5) (start []) s' \<and> sends_full (Udt 5) (start []) s' \<and>
    world s' = [Ret 0, Data [7, 8], Ret 2] \<and>
    received (Udt 5) s' = [4, 1, 0, 80, 10, 0, 0, 1, 0] \<and>
    sent (Udt 5) s' = [4, 90, 0, 80, 10, 0, 0, 1]"
  by (simp add: server_handshake_def run_simps sample_config_def destination_script_def
      server_args_def check_access_def recvs_ok_def recv_call_def Let_def received_def sent_def
      in_bytes_def out_bytes_def sends_full_def)

lemma data_server_relay:
  assumes "world s = [Ret 0, Data [7, 8], Ret 2]"
  shows "\<exists>x. reach (relay_init server_args s) (relay_step script 0 server_args) x \<and>
    received (Udt 5) (env x) = received (Udt 5) s @ [7, 8] \<and>
    sent (Tcp 9) (env x) = sent (Tcp 9) s @ [7, 8] \<and> sent (Udt 5) (env x) = sent (Udt 5) s"
proof (intro exI conjI)
  show "reach (relay_init server_args s) (relay_step script 0 server_args)
      (run_schedule script 0 server_args [False, False, False, False, False]
        (relay_start server_args s))"
    by (intro run_schedule_reach reach_init) (simp add: relay_init_def)
qed (use assms in \<open>simp_all add: relay_eval server_args_def received_def sent_def in_bytes_def
      out_bytes_def\<close>)

theorem relayed_data_in_order_witness:
  "\<exists>s' x. server_handshake script sample_config 5 (replicate 8 0) 1
      (start (destination_script @ [Ret 0, Data [7, 8], Ret 2])) = Some (Inr (Relay server_args, s')) \<and>
    reach (relay_init server_args s') (relay_step script 0 server_args) x \<and>
    sent_since s' (Tcp 9) (env x) = [7, 8] \<and> prefix (sent_since s' (Tcp 9) (env x)) [7, 8]"
proof -
  have [simp]: "received ep (start w) = []" "sent ep (start w) = []" "log (start w) = []" for ep w
    by (simp_all add: received_def sent_def start_def)
  have app: "sent (Tcp 6) sample_app = sent (Tcp 6) (start ()) @ [4, 1, 0, 80, 10, 0, 0, 1] @ 0 # [7, 8]"
      "received (Tcp 6) sample_app = [4, 90, 0, 80, 10, 0, 0, 1]"
      "sent (Tcp 6) sample_app = [4, 1, 0, 80, 10, 0, 0, 1, 0, 7, 8]"
    by (simp_all add: sample_app_def sent_def received_def in_bytes_def out_bytes_def)
  obtain st' sC where c: "client_handshake script sample_config 5 (replicate 8 0) 1 fresh_statics
       (start (relayed_script @ [Ret 1, Data [7, 8], Ret 2])) =
       Some (Inr (Relay client_args, st', sC))"
    and rc: "\<forall>r. (Recv (Tcp 5) 8 MSG_WAITALL, r) \<in> set (log sC) \<longrightarrow> length (resp_data r) = 8"
      "sends_full (Udt 9) (start []) sC" "sends_full (Tcp 5) (start []) sC"
      "world sC = [Ret 1, Data [7, 8], Ret 2]"
      "received (Tcp 5) sC = [4, 1, 0, 80, 10, 0, 0, 1, 0]"
      "received (Udt 9) sC = [4, 90, 0, 80, 10, 0, 0, 1]"
      "sent (Udt 9) sC = [4, 1, 0, 80, 10, 0, 0, 1, 0]"
      "sent (Tcp 5) sC = [4, 90, 0, 80, 10, 0, 0, 1]"
    using data_client by blast
  obtain sS where s: "server_handshake script sample_config 5 (replicate 8 0) 1
      (start (destination_script @ [Ret 0, Data [7, 8], Ret 2])) = Some (Inr (Relay server_args, sS))"
    and rs: "recvs_ok (Udt 5) (start []) sS" "sends_full (Udt 5) (start []) sS"
      "world sS = [Ret 0, Data [7, 8], Ret 2]"
      "received (Udt 5) sS = [4, 1, 0, 80, 10, 0, 0, 1, 0]"
      "sent (Udt 5) sS = [4, 90, 0, 80, 10, 0, 0, 1]"
    using data_server by blast
  from data_client_relay [OF rc(4)] obtain xC where
    xc: "reach (relay_init client_args sC) (relay_step script 0 client_args) xC"
      "received (Tcp 5) (env xC) = received (Tcp 5) sC @ [7, 8]"
      "sent (Udt 9) (env xC) = sent (Udt 9) sC @ [7, 8]"
      "received (Udt 9) (env xC) = received (Udt 9) sC" "sent (Tcp 5) (env xC) = sent (Tcp 5) sC"
    by blast
  from data_server_relay [OF rs(3)] obtain xS where
    xs: "reach (relay_init server_args sS) (relay_step script 0 server_args) xS"
      "received (Udt 5) (env xS) = received (Udt 5) sS @ [7, 8]"
      "sent (Tcp 9) (env xS) = sent (Tcp 9) sS @ [7, 8]" "sent (Udt 5) (env xS) = sent (Udt 5) sS"
    by blast
  have "prefix (sent_since sS (Tcp (tcpsock server_args)) (env xS)) [7, 8]"
    using relayed_data_in_order [OF app(1) _ c xc(1) s xs(1)] rc rs xc xs app(2,3)
    by (auto simp: client_args_def server_args_def relayable_def UDT_FD_BASE_def delivers_def
        received_since_def sends_full_def recvs_ok_def)
  moreover have "sent_since sS (Tcp 9) (env xS) = [7, 8]" by (simp add: sent_since_def xs)
  ultimately show ?thesis using s xs(1) by (auto simp: server_args_def)
qed

end
