(* ===== verification/Getifaddrs.thy ===== *)
theory Getifaddrs
  imports Sockaddr
begin

text \<open>
  \<^verbatim>\<open>src/lib/getifaddrs.cpp\<close>, the replacement of \<open>getifaddrs\<close> and \<open>freeifaddrs\<close> for systems
  without them. The heap is a map from addresses to blocks, \<open>0\<close> is the null pointer; the
  kernel and \<open>malloc\<close> are one parameter, as in \<open>System\<close>. The theorems say that the list
  is well formed and owns its cells, so that freeing it restores the heap, that it shows
  what the kernel answered, and what happens on an error.
\<close>


section \<open>Memory\<close>

text \<open>\<open>struct ifaddrs\<close> of \<^verbatim>\<open>include/getifaddrs.h\<close>, its pointers being addresses.\<close>

record ifnode =
  n_next :: nat
  n_name :: nat
  n_flags :: int
  n_addr :: nat
  n_netmask :: nat
  n_dstaddr :: nat
  n_data :: nat

definition zero_node :: ifnode where
  "zero_node = \<lparr>n_next = 0, n_name = 0, n_flags = 0, n_addr = 0, n_netmask = 0, n_dstaddr = 0,
     n_data = 0\<rparr>"

datatype block = Node ifnode | Bytes "byte list"

type_synonym heap = "nat \<rightharpoonup> block"

definition read_node :: "heap \<Rightarrow> nat \<Rightarrow> ifnode result" where
  "read_node h p =
     (if p = 0 then Inl (Fault Out_of_bounds)
      else (case h p of Some (Node n) \<Rightarrow> Inr n | _ \<Rightarrow> Inl (Fault Out_of_bounds)))"

definition free :: "nat \<Rightarrow> heap \<Rightarrow> heap result" where
  "free p h =
     (if p = 0 then Inr h
      else if h p = None then Inl (Fault Out_of_bounds) else Inr (h(p := None)))"

text \<open>\<open>free(ifp->member)\<close>\<close>

definition free_member :: "(ifnode \<Rightarrow> nat) \<Rightarrow> nat \<Rightarrow> heap \<Rightarrow> heap result" where
  "free_member member ifp h = bindR (read_node h ifp) (\<lambda>n. free (member n) h)"

definition free_members :: "nat \<Rightarrow> heap \<Rightarrow> heap result" where
  "free_members ifp h =
     bindR (free_member n_name ifp h) (\<lambda>h.
     bindR (free_member n_addr ifp h) (\<lambda>h.
     bindR (free_member n_netmask ifp h) (\<lambda>h.
     free_member n_dstaddr ifp h)))"

text \<open>The recursion follows the list, which may be cyclic in a heap that is not well formed.\<close>

partial_function (option) freeifaddrs :: "nat \<Rightarrow> heap \<Rightarrow> heap result option" where
  "freeifaddrs ifp h =
     (if ifp = 0 then Some (Inr h)
      else
        (case free_members ifp h of
           Inl e \<Rightarrow> Some (Inl e)
         | Inr h1 \<Rightarrow>
             (case read_node h1 ifp of
                Inl e \<Rightarrow> Some (Inl e)
              | Inr n \<Rightarrow>
                  Option.bind (freeifaddrs (n_next n) h1) (\<lambda>r. Some (bindR r (free ifp))))))"


section \<open>The kernel\<close>

text \<open>
  The sizes of \<open>struct ifreq\<close> and \<open>struct sockaddr_storage\<close> depend on the system. In an
  \<open>ifreq\<close> the name takes the first \<open>IFNAMSIZ\<close> bytes, then comes the union of the answers.
\<close>

record sizes =
  sizeof_ifreq :: nat
  sizeof_storage :: nat

abbreviation (input) IFNAMSIZ :: nat where "IFNAMSIZ \<equiv> 16"

abbreviation (input) sizeof_buff :: nat where "sizeof_buff \<equiv> 8192"

datatype if_field = SIOCGIFFLAGS | SIOCGIFADDR | SIOCGIFNETMASK

datatype ifcall =
    Inet_socket
  | If_conf nat nat
  | If_req nat if_field "byte list"
  | If_close nat
  | Calloc nat

datatype ifresp =
    Num nat
  | Filled "byte list"
  | Err

record 'k ifsys =
  kern :: 'k
  heap :: heap
  if_log :: "(ifcall \<times> ifresp) list"

type_synonym 'k ifos = "'k \<Rightarrow> ifcall \<Rightarrow> ifresp \<times> 'k"

text \<open>
  The documented answers: \<open>SIOCGIFCONF\<close> stays inside of the buffer it is given, another
  request fills the union of the \<open>ifreq\<close>, an allocation returns a fresh block. Every call
  may fail.
\<close>

definition ifresp_ok :: "heap \<Rightarrow> ifcall \<Rightarrow> ifresp \<Rightarrow> bool" where
  "ifresp_ok h c r \<longleftrightarrow>
     (case (c, r) of
        (_, Err) \<Rightarrow> True
      | (Inet_socket, Num fd) \<Rightarrow> True
      | (If_conf fd n, Filled bs) \<Rightarrow> length bs \<le> n
      | (If_req fd f req, Filled u) \<Rightarrow> IFNAMSIZ + length u = length req
      | (If_close fd, Num x) \<Rightarrow> True
      | (Calloc n, Num p) \<Rightarrow> p \<noteq> 0 \<and> h p = None
      | _ \<Rightarrow> False)"

definition if_call :: "'k ifos \<Rightarrow> ifcall \<Rightarrow> 'k ifsys \<Rightarrow> ifresp \<times> 'k ifsys" where
  "if_call os c s =
     (let (r, k) = os (kern s) c;
          r = (if ifresp_ok (heap s) c r then r else Err)
      in (r, s\<lparr>kern := k, if_log := if_log s @ [(c, r)]\<rparr>))"

definition calloc :: "'k ifos \<Rightarrow> nat \<Rightarrow> block \<Rightarrow> 'k ifsys \<Rightarrow> nat \<times> 'k ifsys" where
  "calloc os n b s =
     (case if_call os (Calloc n) s of
        (Num p, s') \<Rightarrow> (p, s'\<lparr>heap := (heap s')(p \<mapsto> b)\<rparr>)
      | (_, s') \<Rightarrow> (0, s'))"


section \<open>The functions of getifaddrs.cpp\<close>

text \<open>
  \<open>sockaddr_dup\<close> in the variant without \<open>sa_len\<close>: it copies the size of a
  \<open>sockaddr_storage\<close> from the address at an offset of the buffer of \<open>getifaddrs\<close>.
\<close>

definition sockaddr_dup ::
    "'k ifos \<Rightarrow> sizes \<Rightarrow> nat \<Rightarrow> byte list \<Rightarrow> 'k ifsys \<Rightarrow> (nat \<times> 'k ifsys) result" where
  "sockaddr_dup os sz off buff s =
     (let socklen = sizeof_storage sz;
          (ret, s) = calloc os socklen (Bytes (replicate socklen 0)) s
      in if ret = 0 then Inr (0, s)
         else if off + socklen \<le> length buff
         then Inr (ret, s\<lparr>heap := (heap s)(ret \<mapsto> Bytes (take socklen (drop off buff)))\<rparr>)
         else Inl (Fault Out_of_bounds))"

text \<open>\<open>strdup\<close> of the C library, on the string at an offset of the buffer.\<close>

definition strdup :: "'k ifos \<Rightarrow> nat \<Rightarrow> byte list \<Rightarrow> 'k ifsys \<Rightarrow> (nat \<times> 'k ifsys) result" where
  "strdup os off buff s =
     (let str = takeWhile (\<lambda>c. c \<noteq> 0) (drop off buff)
      in if off + length str < length buff
         then Inr (calloc os (length str + 1) (Bytes (str @ [0])) s)
         else Inl (Fault Out_of_bounds))"

text \<open>\<open>ioctl(fd, f, &ifr[i])\<close>, with \<open>ifr[i]\<close> at an offset of the buffer: success, the buffer.\<close>

definition if_request ::
    "'k ifos \<Rightarrow> sizes \<Rightarrow> nat \<Rightarrow> if_field \<Rightarrow> nat \<Rightarrow> byte list \<Rightarrow> 'k ifsys \<Rightarrow>
       bool \<times> byte list \<times> 'k ifsys" where
  "if_request os sz fd f off buff s =
     (case if_call os (If_req fd f (take (sizeof_ifreq sz) (drop off buff))) s of
        (Filled u, s') \<Rightarrow> (True, overwrite (off + IFNAMSIZ) u buff, s')
      | (_, s') \<Rightarrow> (False, buff, s'))"

definition store_node :: "nat \<Rightarrow> (ifnode \<Rightarrow> ifnode) \<Rightarrow> 'k ifsys \<Rightarrow> 'k ifsys result" where
  "store_node p f s =
     bindR (read_node (heap s) p) (\<lambda>n. Inr (s\<lparr>heap := (heap s)(p \<mapsto> Node (f n))\<rparr>))"

text \<open>The member \<open>ifr_flags\<close>, a \<open>short\<close>, converted to \<open>unsigned int\<close>.\<close>

definition flags_value :: "byte list \<Rightarrow> int" where
  "flags_value u = uint (scast (word_rcat [u ! 1, u ! 0] :: 16 word) :: 32 word)"

definition ifr_flags :: "nat \<Rightarrow> byte list \<Rightarrow> int" where
  "ifr_flags off buff = flags_value (drop (off + IFNAMSIZ) buff)"

text \<open>The two blocks for \<open>ifa_addr\<close> and \<open>ifa_netmask\<close> of the loop body.\<close>

definition copy_address ::
    "'k ifos \<Rightarrow> sizes \<Rightarrow> nat \<Rightarrow> if_field \<Rightarrow> (nat \<Rightarrow> ifnode \<Rightarrow> ifnode) \<Rightarrow> nat \<Rightarrow> nat \<Rightarrow> byte list \<Rightarrow>
       'k ifsys \<Rightarrow> (byte list \<times> 'k ifsys) result" where
  "copy_address os sz fd f set_member curif off buff s =
     bindR (store_node curif (set_member 0) s) (\<lambda>s.
       let (ok, buff, s) = if_request os sz fd f off buff s
       in if ok
          then bindR (sockaddr_dup os sz (off + IFNAMSIZ) buff s) (\<lambda>(p, s).
               bindR (store_node curif (set_member p) s) (\<lambda>s. Inr (buff, s)))
          else Inr (buff, s))"

definition new_interface ::
    "'k ifos \<Rightarrow> sizes \<Rightarrow> nat \<Rightarrow> nat \<Rightarrow> byte list \<Rightarrow> 'k ifsys \<Rightarrow> (nat \<times> byte list \<times> 'k ifsys) result" where
  "new_interface os sz fd off buff s =
     (let (curif, s) = calloc os (7 * 8) (Node zero_node) s
      in bindR (strdup os off buff s) (\<lambda>(name, s).
         bindR (store_node curif (n_name_update (\<lambda>_. name)) s) (\<lambda>s.
         bindR (store_node curif (\<lambda>n. n\<lparr>n_flags := ifr_flags off buff, n_dstaddr := 0, n_data := 0,
             n_next := 0\<rparr>) s) (\<lambda>s.
         bindR (copy_address os sz fd SIOCGIFADDR (\<lambda>p. n_addr_update (\<lambda>_. p)) curif off buff s)
           (\<lambda>(buff, s).
         bindR (copy_address os sz fd SIOCGIFNETMASK (\<lambda>p. n_netmask_update (\<lambda>_. p)) curif off buff s)
           (\<lambda>(buff, s). Inr (curif, buff, s)))))))"

text \<open>\<open>if (lastif == NULL) *ifap = curif; else lastif->ifa_next = curif;\<close>\<close>

definition link_interface ::
    "nat \<Rightarrow> nat \<Rightarrow> nat \<Rightarrow> 'k ifsys \<Rightarrow> (nat \<times> 'k ifsys) result" where
  "link_interface ifap lastif curif s =
     (if lastif = 0 then Inr (curif, s)
      else bindR (store_node lastif (n_next_update (\<lambda>_. curif)) s) (\<lambda>s. Inr (ifap, s)))"

text \<open>
  The loop, from the last interface down to the first, and what follows it; the result is
  the value returned and the contents of \<open>*ifap\<close>.
\<close>

fun if_loop ::
    "'k ifos \<Rightarrow> sizes \<Rightarrow> nat \<Rightarrow> nat \<Rightarrow> nat \<Rightarrow> nat \<Rightarrow> byte list \<Rightarrow> 'k ifsys \<Rightarrow>
       (int \<times> nat \<times> 'k ifsys) result option" where
  "if_loop os sz fd 0 ifap lastif buff s =
     (let (r, s) = if_call os (If_close fd) s in Some (Inr (0, ifap, s)))"
| "if_loop os sz fd (Suc i) ifap lastif buff s =
     (let off = i * sizeof_ifreq sz;
          (ok, buff, s) = if_request os sz fd SIOCGIFFLAGS off buff s
      in if \<not> ok
         then bindO (freeifaddrs ifap (heap s)) (\<lambda>h. Some (Inr (-1, ifap, s\<lparr>heap := h\<rparr>)))
         else bindO (Some (new_interface os sz fd off buff s)) (\<lambda>(curif, buff, s).
              bindO (Some (link_interface ifap lastif curif s)) (\<lambda>(ifap, s).
              if_loop os sz fd i ifap curif buff s)))"

text \<open>\<open>junk\<close> is the initial contents of the local buffer.\<close>

definition getifaddrs ::
    "'k ifos \<Rightarrow> sizes \<Rightarrow> byte list \<Rightarrow> 'k ifsys \<Rightarrow> (int \<times> nat \<times> 'k ifsys) result option" where
  "getifaddrs os sz junk s =
     (case if_call os Inet_socket s of
        (Num fd, s) \<Rightarrow>
          (case if_call os (If_conf fd sizeof_buff) s of
             (Filled bs, s) \<Rightarrow>
               if_loop os sz fd (length bs div sizeof_ifreq sz) 0 0
                 (overwrite 0 bs (take sizeof_buff junk)) s
           | (_, s) \<Rightarrow>
               let (r, s) = if_call os (If_close fd) s in Some (Inr (-1, 0, s)))
      | (_, s) \<Rightarrow> Some (Inr (-1, 0, s)))"

section \<open>Lists of interfaces in the heap\<close>

text \<open>The list at an address, as the addresses and contents of its nodes.\<close>

primrec if_list :: "heap \<Rightarrow> nat \<Rightarrow> (nat \<times> ifnode) list \<Rightarrow> bool" where
  "if_list h p [] \<longleftrightarrow> p = 0"
| "if_list h p (c # ns) \<longleftrightarrow>
     p = fst c \<and> p \<noteq> 0 \<and> h p = Some (Node (snd c)) \<and> if_list h (n_next (snd c)) ns"

text \<open>The blocks that a node refers to, and all the blocks of a list.\<close>

definition members :: "ifnode \<Rightarrow> nat list" where
  "members n = filter (\<lambda>p. p \<noteq> 0) [n_name n, n_addr n, n_netmask n, n_dstaddr n]"

definition cells :: "(nat \<times> ifnode) list \<Rightarrow> nat list" where
  "cells ns = concat (map (\<lambda>c. fst c # members (snd c)) ns)"

lemma cells_simps [simp]:
  "cells [] = []"
  "cells (c # ns) = fst c # members (snd c) @ cells ns"
  "cells (ms @ ns) = cells ms @ cells ns"
  by (simp_all add: cells_def)

lemma fst_in_cells: "c \<in> set ns \<Longrightarrow> fst c \<in> set (cells ns)"
  by (auto simp: cells_def)

lemma if_list_agree:
  "if_list h p ns \<Longrightarrow> (\<And>x. x \<in> fst ` set ns \<Longrightarrow> h' x = h x) \<Longrightarrow> if_list h' p ns"
  by (induction ns arbitrary: p) auto

lemma if_list_cells: "if_list h p ns \<Longrightarrow> p \<noteq> 0 \<Longrightarrow> p \<in> set (cells ns)"
  by (cases ns) auto

text \<open>Hanging a node onto the end of a list.\<close>

lemma if_list_snoc:
  assumes "if_list h p (ns @ [(a, n)])" and "a \<notin> fst ` set ns" and "b \<noteq> 0"
    and "h' a = Some (Node (n\<lparr>n_next := b\<rparr>))" and "h' b = Some (Node m)" and "n_next m = 0"
    and "\<And>x. x \<in> fst ` set ns \<Longrightarrow> h' x = h x"
  shows "if_list h' p (ns @ [(a, n\<lparr>n_next := b\<rparr>), (b, m)])"
  using assms by (induction ns arbitrary: p) auto

definition without :: "nat set \<Rightarrow> heap \<Rightarrow> heap" where
  "without A h = (\<lambda>x. if x \<in> A then None else h x)"

lemma free_simps [simp]:
  "free 0 h = Inr h"
  "p \<noteq> 0 \<Longrightarrow> h p = Some b \<Longrightarrow> free p h = Inr (h(p := None))"
  by (simp_all add: free_def)

lemma without_simps [simp]:
  "x \<notin> A \<Longrightarrow> without A h x = h x"
  "without B (without A h) = without (A \<union> B) h"
  by (auto simp: without_def)

lemma free_member_frees:
  "h a = Some (Node n) \<Longrightarrow> a \<noteq> 0 \<Longrightarrow> member n = 0 \<or> h (member n) \<noteq> None \<Longrightarrow>
    free_member member a h = Inr (without ({member n} - {0}) h)"
  by (auto simp: free_member_def read_node_def without_def free_def intro!: ext)

lemma free_members_frees:
  assumes "h a = Some (Node n)" and "a \<noteq> 0" and "distinct (a # members n)"
    and "\<forall>x \<in> set (members n). h x \<noteq> None"
  shows "free_members a h = Inr (without (set (members n)) h)"
proof -
  have "{n_name n} - {0} \<union> ({n_addr n} - {0}) \<union> ({n_netmask n} - {0}) \<union> ({n_dstaddr n} - {0}) =
      set (members n)"
    by (auto simp: members_def)
  with assms show ?thesis
    by (auto simp: free_members_def free_member_frees members_def)
qed

lemma freeifaddrs_frees:
  assumes "if_list h p ns" and "distinct (cells ns)" and "\<forall>x \<in> set (cells ns). h x \<noteq> None"
  shows "freeifaddrs p h = Some (Inr (without (set (cells ns)) h))"
  using assms
proof (induction ns arbitrary: p h)
  case Nil
  then show ?case by (subst freeifaddrs.simps) (simp add: without_def)
next
  case (Cons c ns)
  obtain a n where c: "c = (a, n)" by fastforce
  define h1 where "h1 = without (set (members n)) h"
  from Cons.prems c have a: "p = a" "a \<noteq> 0" "h a = Some (Node n)" "a \<notin> set (members n)" by auto
  have fm: "free_members a h = Inr h1"
    unfolding h1_def using Cons.prems c by (intro free_members_frees) auto
  have h1a: "h1 a = Some (Node n)" using a by (simp add: h1_def without_def)
  from Cons.prems c have d: "distinct (cells ns)" "a \<notin> set (cells ns)"
      "set (members n) \<inter> set (cells ns) = {}" by auto
  then have same: "h1 x = h x" if "x \<in> set (cells ns)" for x
    using that by (auto simp: h1_def without_def)
  have "if_list h1 (n_next n) ns"
    using Cons.prems c fst_in_cells by (intro if_list_agree [of h _ ns h1] same) fastforce+
  then have "freeifaddrs (n_next n) h1 = Some (Inr (without (set (cells ns)) h1))"
    using Cons.prems c d(1) same by (intro Cons.IH) simp_all
  moreover have "without (set (cells ns)) h1 a = Some (Node n)"
    using h1a d(2) by (simp add: without_def)
  moreover have "(without (set (cells ns)) h1)(a := None) = without (set (cells (c # ns))) h"
    by (auto simp: c h1_def without_def)
  ultimately show ?case
    using a h1a fm by (subst freeifaddrs.simps) (simp add: read_node_def)
qed

section \<open>What the steps of getifaddrs do\<close>

text \<open>Calls were made, and none of them closed a descriptor.\<close>

definition no_close :: "(ifcall \<times> ifresp) list \<Rightarrow> bool" where
  "no_close l \<longleftrightarrow> (\<forall>fd. If_close fd \<notin> fst ` set l)"

lemma no_close_simps [simp]:
  "no_close []"
  "no_close (l @ l') \<longleftrightarrow> no_close l \<and> no_close l'"
  by (auto simp: no_close_def)

definition extends :: "'k ifsys \<Rightarrow> 'k ifsys \<Rightarrow> bool" where
  "extends s s' \<longleftrightarrow> (\<exists>l. if_log s' = if_log s @ l \<and> no_close l)"

lemma extends_refl [simp]: "extends s s"
  by (simp add: extends_def)

lemma extends_trans [trans]: "extends s t \<Longrightarrow> extends t u \<Longrightarrow> extends s u"
  by (auto simp: extends_def)

lemma extends_set: "extends s s' \<Longrightarrow> set (if_log s) \<subseteq> set (if_log s')"
  by (auto simp: extends_def)

lemma extends_heap [simp]:
  "extends s (s'\<lparr>heap := h\<rparr>) = extends s s'" "extends (s\<lparr>heap := h\<rparr>) s' = extends s s'"
  by (simp_all add: extends_def)

lemma ifresp_ok_simps [simp]:
  "ifresp_ok h c Err"
  "ifresp_ok h (Calloc n) (Num p) \<longleftrightarrow> p \<noteq> 0 \<and> h p = None"
  "\<not> ifresp_ok h (Calloc n) (Filled u)"
  "ifresp_ok h (If_req fd f req) (Filled u) \<longleftrightarrow> IFNAMSIZ + length u = length req"
  "\<not> ifresp_ok h (If_req fd f req) (Num p)"
  "ifresp_ok h (If_conf fd n) (Filled u) \<longleftrightarrow> length u \<le> n"
  "\<not> ifresp_ok h (If_conf fd n) (Num p)"
  "ifresp_ok h Inet_socket (Num p)"
  "ifresp_ok h (If_close fd) (Num p)"
  by (simp_all add: ifresp_ok_def split: ifcall.split)

lemma if_call_step:
  assumes "if_call os c s = (r, s')"
  shows "heap s' = heap s \<and> if_log s' = if_log s @ [(c, r)] \<and> ifresp_ok (heap s) c r \<and>
    ((\<forall>fd. c \<noteq> If_close fd) \<longrightarrow> extends s s')"
  using assms
  by (auto simp: if_call_def Let_def extends_def no_close_def split: prod.splits if_splits)

lemma calloc_step:
  assumes "calloc os n b s = (p, s')"
  shows "extends s s' \<and>
    (p = 0 \<and> heap s' = heap s \<or> p \<noteq> 0 \<and> heap s p = None \<and> heap s' = (heap s)(p \<mapsto> b))"
  using assms by (auto simp: calloc_def split: prod.splits ifresp.splits dest!: if_call_step)

lemma sockaddr_dup_step:
  assumes "sockaddr_dup os sz off buff s = Inr (p, s')"
  shows "extends s s' \<and>
    (p = 0 \<and> heap s' = heap s \<or> p \<noteq> 0 \<and> heap s p = None \<and>
      off + sizeof_storage sz \<le> length buff \<and>
      heap s' = (heap s)(p \<mapsto> Bytes (take (sizeof_storage sz) (drop off buff))))"
  using assms
  by (auto simp: sockaddr_dup_def Let_def split: prod.splits if_splits dest!: calloc_step)

lemma strdup_step:
  assumes "strdup os off buff s = Inr (p, s')"
  shows "extends s s' \<and>
    (p = 0 \<and> heap s' = heap s \<or> p \<noteq> 0 \<and> heap s p = None \<and>
      heap s' = (heap s)(p \<mapsto> Bytes (takeWhile (\<lambda>c. c \<noteq> 0) (drop off buff) @ [0])))"
  using assms by (auto simp: strdup_def Let_def split: if_splits dest!: calloc_step)

text \<open>The name of the interface in an \<open>ifreq\<close> is not touched by the requests.\<close>

definition name_field :: "sizes \<Rightarrow> byte list \<Rightarrow> nat \<Rightarrow> byte list" where
  "name_field sz buff i = take IFNAMSIZ (drop (i * sizeof_ifreq sz) buff)"

definition same_names :: "sizes \<Rightarrow> nat \<Rightarrow> byte list \<Rightarrow> byte list \<Rightarrow> bool" where
  "same_names sz n buff buff' \<longleftrightarrow>
     length buff' = length buff \<and> (\<forall>j < n. name_field sz buff' j = name_field sz buff j)"

lemma same_names_refl [simp]: "same_names sz n b b"
  by (simp add: same_names_def)

lemma same_names_trans: "same_names sz n a b \<Longrightarrow> same_names sz n b c \<Longrightarrow> same_names sz n a c"
  by (simp add: same_names_def)

lemma overwrite_union_same_names:
  assumes "i < n" and "n * sizeof_ifreq sz \<le> length buff" and "IFNAMSIZ + length u = sizeof_ifreq sz"
  shows "same_names sz n buff (overwrite (i * sizeof_ifreq sz + IFNAMSIZ) u buff)"
proof -
  define k where "k = sizeof_ifreq sz"
  have bound: "j * k + k \<le> length buff" if "j < n" for j
    using that assms(2) mult_le_mono1 [of "Suc j" n k] by (simp add: k_def)
  have len: "i * k + IFNAMSIZ + length u \<le> length buff" using bound [OF assms(1)] assms(3) k_def by simp
  have "take IFNAMSIZ (drop (j * k) (overwrite (i * k + IFNAMSIZ) u buff)) =
      take IFNAMSIZ (drop (j * k) buff)" if "j < n" for j
  proof (rule nth_equalityI)
    fix x assume x: "x < length (take IFNAMSIZ (drop (j * k) (overwrite (i * k + IFNAMSIZ) u buff)))"
    then have "x < IFNAMSIZ" by simp
    have "\<not> (i * k + IFNAMSIZ \<le> j * k + x \<and> j * k + x < i * k + IFNAMSIZ + length u)"
    proof (cases i j rule: linorder_cases)
      case less
      then have "i * k + k \<le> j * k" using mult_le_mono1 [of "Suc i" j k] by simp
      then show ?thesis using assms(3) k_def by simp
    next
      case greater
      then have "j * k + k \<le> i * k" using mult_le_mono1 [of "Suc j" i k] by simp
      then show ?thesis using assms(3) k_def \<open>x < IFNAMSIZ\<close> by simp
    qed (use \<open>x < IFNAMSIZ\<close> in simp)
    moreover have "j * k + x < length buff"
      using bound [OF that] \<open>x < IFNAMSIZ\<close> assms(3) k_def by simp
    ultimately show "take IFNAMSIZ (drop (j * k) (overwrite (i * k + IFNAMSIZ) u buff)) ! x =
        take IFNAMSIZ (drop (j * k) buff) ! x"
      using x len \<open>x < IFNAMSIZ\<close> by (auto simp: nth_overwrite)
  qed (use len in simp)
  then show ?thesis using len by (simp add: same_names_def name_field_def k_def)
qed

text \<open>A copied address is the answer of the kernel for the interface of that name.\<close>

definition answered ::
    "sizes \<Rightarrow> nat \<Rightarrow> (ifcall \<times> ifresp) list \<Rightarrow> if_field \<Rightarrow> byte list \<Rightarrow> heap \<Rightarrow> nat \<Rightarrow> bool" where
  "answered sz fd l f nm h p \<longleftrightarrow>
     p = 0 \<or> (\<exists>req u bs. (If_req fd f req, Filled u) \<in> set l \<and> take IFNAMSIZ req = nm \<and>
       h p = Some (Bytes bs) \<and> length bs = sizeof_storage sz \<and>
       take (length u) bs = take (length bs) u)"

definition flags_answered ::
    "nat \<Rightarrow> (ifcall \<times> ifresp) list \<Rightarrow> byte list \<Rightarrow> int \<Rightarrow> bool" where
  "flags_answered fd l nm flags \<longleftrightarrow>
     (\<exists>req u. (If_req fd SIOCGIFFLAGS req, Filled u) \<in> set l \<and> take IFNAMSIZ req = nm \<and>
       (2 \<le> length u \<longrightarrow> flags = flags_value u))"

lemma if_request_step:
  assumes req: "if_request os sz fd f (i * sizeof_ifreq sz) buff s = (ok, buff', s')"
    and i: "i < n" "n * sizeof_ifreq sz \<le> length buff"
  shows "heap s' = heap s \<and> extends s s' \<and> same_names sz n buff buff' \<and>
    (ok \<longrightarrow> (\<exists>r u. (If_req fd f r, Filled u) \<in> set (if_log s') \<and>
       take IFNAMSIZ r = name_field sz buff i \<and>
       take (length u) (drop (i * sizeof_ifreq sz + IFNAMSIZ) buff') = u))"
proof -
  let ?off = "i * sizeof_ifreq sz"
  let ?r = "take (sizeof_ifreq sz) (drop ?off buff)"
  obtain a t where c: "if_call os (If_req fd f ?r) s = (a, t)" by fastforce
  show ?thesis
  proof (cases a)
    case (Filled u)
    with req c have t: "s' = t" "buff' = overwrite (?off + IFNAMSIZ) u buff" "ok"
      by (auto simp: if_request_def)
    have "?off + sizeof_ifreq sz \<le> length buff"
      using i mult_le_mono1 [of "Suc i" n "sizeof_ifreq sz"] by simp
    with if_call_step [OF c] Filled have len: "IFNAMSIZ + length u = sizeof_ifreq sz"
        "?off + (IFNAMSIZ + length u) \<le> length buff" by auto
    then have "take (length u) (drop (?off + IFNAMSIZ) buff') = u"
      by (simp add: t overwrite_def)
    moreover have "take IFNAMSIZ ?r = name_field sz buff i"
      using len by (simp add: name_field_def min_def)
    ultimately have "\<exists>r u. (If_req fd f r, Filled u) \<in> set (if_log s') \<and>
        take IFNAMSIZ r = name_field sz buff i \<and> take (length u) (drop (?off + IFNAMSIZ) buff') = u"
      using if_call_step [OF c] Filled t(1) by (rule_tac exI [of _ ?r], rule_tac exI [of _ u]) simp
    then show ?thesis
      using if_call_step [OF c] Filled overwrite_union_same_names [OF i len(1)] by (simp add: t)
  qed (use req c if_call_step [OF c] in \<open>auto simp: if_request_def\<close>)
qed

text \<open>What \<open>sockaddr_dup\<close> copied is the answer of the kernel, as far as it goes.\<close>

lemma answer_copied:
  assumes "take (length w) m = w"
  shows "take (length w) (take k m) = take (length (take k m)) w"
proof -
  have "take (length w) (take k m) = take k w" using assms by (metis take_take min.commute)
  moreover have "length w \<le> length m" using assms by (metis length_take min.cobounded1)
  then have "take (length (take k m)) w = take k w" by (auto simp: min_def)
  ultimately show ?thesis by simp
qed

lemma copy_address_step:
  assumes cp: "copy_address os sz fd f set_member a (i * sizeof_ifreq sz) buff s = Inr (buff', s')"
    and i: "i < n" "n * sizeof_ifreq sz \<le> length buff"
    and a: "heap s a = Some (Node nd)" "\<And>p. set_member p (set_member 0 nd) = set_member p nd"
  shows "extends s s' \<and> same_names sz n buff buff' \<and>
    (\<exists>p h bs. (p = 0 \<and> h = heap s \<or> p \<noteq> 0 \<and> heap s p = None \<and> h = (heap s)(p \<mapsto> Bytes bs)) \<and>
       heap s' = h(a \<mapsto> Node (set_member p nd)) \<and>
       answered sz fd (if_log s') f (name_field sz buff i) (heap s') p)"
proof -
  let ?off = "i * sizeof_ifreq sz"
  define t where "t = s\<lparr>heap := (heap s)(a \<mapsto> Node (set_member 0 nd))\<rparr>"
  have st: "store_node a (set_member 0) s = Inr t"
    using cp a(1) by (auto simp: copy_address_def store_node_def read_node_def t_def split: if_splits)
  obtain ok b u where rq: "if_request os sz fd f ?off buff t = (ok, b, u)"
    by (cases "if_request os sz fd f ?off buff t") auto
  note rs = if_request_step [OF rq i]
  have ex: "extends s u" using rs by (simp add: t_def)
  show ?thesis
  proof (cases ok)
    case False
    with cp st rq have "buff' = b" "s' = u" by (auto simp: copy_address_def)
    then show ?thesis using rs ex by (auto simp: t_def answered_def intro!: exI [of _ 0])
  next
    case True
    with cp st rq obtain p v where dup: "sockaddr_dup os sz (?off + IFNAMSIZ) b u = Inr (p, v)"
      by (cases "sockaddr_dup os sz (?off + IFNAMSIZ) b u") (auto simp: copy_address_def)
    note ds = sockaddr_dup_step [OF dup]
    have hu: "heap u = (heap s)(a \<mapsto> Node (set_member 0 nd))" using rs by (simp add: t_def)
    from ds hu have pa: "p = 0 \<or> p \<noteq> a" by auto
    with ds hu have va: "heap v a = Some (Node (set_member 0 nd))" by auto
    with cp st rq True dup have out: "buff' = b" "s' = v\<lparr>heap := (heap v)(a \<mapsto> Node (set_member p nd))\<rparr>"
      using a(2) by (auto simp: copy_address_def store_node_def read_node_def split: if_splits)
    define bs where "bs = take (sizeof_storage sz) (drop (?off + IFNAMSIZ) b)"
    have "extends s s'" using ex ds by (auto simp: out elim: extends_trans)
    moreover have "heap s' = (if p = 0 then heap s else (heap s)(p \<mapsto> Bytes bs))(a \<mapsto> Node (set_member p nd))"
      using ds hu pa by (auto simp: out bs_def fun_upd_twist)
    moreover have "answered sz fd (if_log s') f (name_field sz buff i) (heap s') p"
    proof (cases "p = 0")
      case False
      from rs True obtain r w where w: "(If_req fd f r, Filled w) \<in> set (if_log u)"
          "take IFNAMSIZ r = name_field sz buff i" "take (length w) (drop (?off + IFNAMSIZ) b) = w"
        by auto
      have "take (length w) bs = take (length bs) w"
        unfolding bs_def using w(3) by (rule answer_copied)
      moreover have "set (if_log u) \<subseteq> set (if_log s')"
        using ds by (simp add: out extends_set)
      moreover have "heap s' p = Some (Bytes bs)" "length bs = sizeof_storage sz"
        using False pa ds by (auto simp: out bs_def)
      ultimately show ?thesis using w by (auto simp: answered_def)
    qed (simp add: answered_def)
    moreover have "heap s p = None" if "p \<noteq> 0" using that ds hu by (auto split: if_splits)
    ultimately show ?thesis
      using rs out(1)
      by (auto intro!: exI [of _ p] exI [of _ "if p = 0 then heap s else (heap s)(p \<mapsto> Bytes bs)"])
  qed
qed

text \<open>A node that was added to a heap together with the blocks it refers to.\<close>

definition new_node :: "heap \<Rightarrow> heap \<Rightarrow> nat \<Rightarrow> ifnode \<Rightarrow> bool" where
  "new_node h h' a n \<longleftrightarrow>
     a \<noteq> 0 \<and> h' a = Some (Node n) \<and> distinct (a # members n) \<and>
     (\<forall>x \<in> set (a # members n). h x = None \<and> h' x \<noteq> None) \<and>
     (\<forall>x. x \<notin> set (a # members n) \<longrightarrow> h' x = h x)"

lemma new_node_store:
  assumes "new_node h h1 a n" and "p = 0 \<and> h2 = h1 \<or> p \<noteq> 0 \<and> h1 p = None \<and> h2 = h1(p \<mapsto> b)"
    and "set (members n') = set (members n) \<union> ({p} - {0})"
    and "distinct (a # members n) \<Longrightarrow> p \<notin> set (a # members n) \<or> p = 0 \<Longrightarrow> distinct (a # members n')"
  shows "new_node h (h2(a \<mapsto> Node n')) a n'"
proof (cases "p = 0")
  case True
  with assms show ?thesis by (auto simp: new_node_def)
next
  case False
  with assms(1,2) have p: "p \<notin> set (a # members n)" "h2 = h1(p \<mapsto> b)" "h1 p = None"
    by (auto simp: new_node_def)
  moreover from assms(1) this(1) have "h1 p = h p" by (simp add: new_node_def)
  ultimately have hp: "h p = None" by simp
  have d: "distinct (a # members n')"
    using assms(1) p(1) by (intro assms(4)) (auto simp: new_node_def)
  show ?thesis
    unfolding new_node_def
  proof (intro conjI)
    show "\<forall>x \<in> set (a # members n'). h x = None \<and> (h2(a \<mapsto> Node n')) x \<noteq> None"
      using assms(1,3) p hp False by (auto simp: new_node_def)
    show "\<forall>x. x \<notin> set (a # members n') \<longrightarrow> (h2(a \<mapsto> Node n')) x = h x"
      using assms(1,3) p hp False by (auto simp: new_node_def)
  qed (use assms(1) d in \<open>auto simp: new_node_def\<close>)
qed

lemma members_zero [simp]: "members zero_node = []"
  by (simp add: members_def zero_node_def)

lemma store_node_Inr:
  "store_node p f s = Inr s' \<longleftrightarrow>
    p \<noteq> 0 \<and> (\<exists>n. heap s p = Some (Node n) \<and> s' = s\<lparr>heap := (heap s)(p \<mapsto> Node (f n))\<rparr>)"
  by (auto simp: store_node_def read_node_def split: option.split block.split)

text \<open>Blocks of bytes stay as they are.\<close>

definition keeps :: "heap \<Rightarrow> heap \<Rightarrow> bool" where
  "keeps h h' \<longleftrightarrow> (\<forall>x bs. h x = Some (Bytes bs) \<longrightarrow> h' x = Some (Bytes bs))"

lemma keeps_trans: "keeps h1 h2 \<Longrightarrow> keeps h2 h3 \<Longrightarrow> keeps h1 h3"
  by (simp add: keeps_def)

lemma keeps_store:
  "h1 a = Some (Node n) \<Longrightarrow> p = 0 \<and> h2 = h1 \<or> p \<noteq> 0 \<and> h1 p = None \<and> h2 = h1(p \<mapsto> b) \<Longrightarrow>
    keeps h1 (h2(a \<mapsto> Node n'))"
  by (auto simp: keeps_def)

lemma answered_mono:
  "answered sz fd l f nm h p \<Longrightarrow> set l \<subseteq> set l' \<Longrightarrow> keeps h h' \<Longrightarrow> answered sz fd l' f nm h' p"
  unfolding answered_def keeps_def by blast

lemma takeWhile_field:
  "0 \<in> set (take k xs) \<Longrightarrow> takeWhile (\<lambda>c. c \<noteq> 0) xs = takeWhile (\<lambda>c. c \<noteq> (0::byte)) (take k xs)"
  by (metis (mono_tags, lifting) append_take_drop_id takeWhile_append1)

text \<open>One address of a node that was added: the node gets one more block, or none.\<close>

lemma copy_address_new:
  assumes cp: "copy_address os sz fd f set_member a (i * sizeof_ifreq sz) buff s = Inr (buff', s')"
    and i: "i < n" "n * sizeof_ifreq sz \<le> length buff"
    and new: "new_node h (heap s) a nd"
    and upd: "\<And>p. set_member p (set_member 0 nd) = set_member p nd"
    and mem: "\<And>p. set (members (set_member p nd)) = set (members nd) \<union> ({p} - {0})"
      "\<And>p. distinct (a # members nd) \<Longrightarrow> p \<notin> set (a # members nd) \<or> p = 0 \<Longrightarrow>
        distinct (a # members (set_member p nd))"
  shows "\<exists>p. extends s s' \<and> same_names sz n buff buff' \<and> new_node h (heap s') a (set_member p nd) \<and>
    answered sz fd (if_log s') f (name_field sz buff i) (heap s') p \<and> keeps (heap s) (heap s')"
proof -
  from new have "heap s a = Some (Node nd)" by (simp add: new_node_def)
  from copy_address_step [OF cp i this upd] obtain p h2 bs where
    e: "extends s s'" "same_names sz n buff buff'"
    and p: "p = 0 \<and> h2 = heap s \<or> p \<noteq> 0 \<and> heap s p = None \<and> h2 = (heap s)(p \<mapsto> Bytes bs)"
    and s': "heap s' = h2(a \<mapsto> Node (set_member p nd))"
    and a: "answered sz fd (if_log s') f (name_field sz buff i) (heap s') p" by blast
  have "new_node h (heap s') a (set_member p nd)"
    unfolding s' using new p mem by (rule new_node_store)
  moreover have "keeps (heap s) (heap s')"
    unfolding s' using \<open>heap s a = _\<close> p by (rule keeps_store)
  ultimately show ?thesis using e a by blast
qed

lemma members_addr:
  assumes "n_addr nd = 0"
  shows "set (members (nd\<lparr>n_addr := p\<rparr>)) = set (members nd) \<union> ({p} - {0})"
    and "distinct (a # members nd) \<Longrightarrow> p \<notin> set (a # members nd) \<or> p = 0 \<Longrightarrow>
      distinct (a # members (nd\<lparr>n_addr := p\<rparr>))"
  using assms by (auto simp: members_def)

lemma members_netmask:
  assumes "n_netmask nd = 0"
  shows "set (members (nd\<lparr>n_netmask := p\<rparr>)) = set (members nd) \<union> ({p} - {0})"
    and "distinct (a # members nd) \<Longrightarrow> p \<notin> set (a # members nd) \<or> p = 0 \<Longrightarrow>
      distinct (a # members (nd\<lparr>n_netmask := p\<rparr>))"
  using assms by (auto simp: members_def)

text \<open>The first half of \<open>new_interface\<close>: the node with its name and flags.\<close>

lemma new_interface_named:
  assumes c: "calloc os (7 * 8) (Node zero_node) s = (a, s1)"
    and d: "strdup os off buff s1 = Inr (p, s2)"
    and s3: "store_node a (n_name_update (\<lambda>_. p)) s2 = Inr s3"
    and s4: "store_node a (\<lambda>n. n\<lparr>n_flags := fl, n_dstaddr := 0, n_data := 0, n_next := 0\<rparr>) s3 = Inr s4"
  shows "new_node (heap s) (heap s4) a (zero_node\<lparr>n_name := p, n_flags := fl\<rparr>) \<and> extends s s4 \<and>
    (p \<noteq> 0 \<longrightarrow> heap s4 p = Some (Bytes (takeWhile (\<lambda>c. c \<noteq> 0) (drop off buff) @ [0])))"
proof -
  let ?str = "takeWhile (\<lambda>c. c \<noteq> 0) (drop off buff)"
  note cs = calloc_step [OF c] and ds = strdup_step [OF d]
  from s3 cs have a1: "heap s a = None" "heap s1 = (heap s)(a \<mapsto> Node zero_node)" "a \<noteq> 0"
    by (auto simp: store_node_Inr)
  then have n1: "new_node (heap s) (heap s1) a zero_node" by (auto simp: new_node_def)
  from ds a1 have p: "p = 0 \<and> heap s2 = heap s1 \<or>
      p \<noteq> 0 \<and> heap s1 p = None \<and> heap s2 = (heap s1)(p \<mapsto> Bytes (?str @ [0]))" by simp
  with a1 s3 have h3: "heap s3 = (heap s2)(a \<mapsto> Node (zero_node\<lparr>n_name := p\<rparr>))"
    by (auto simp: store_node_Inr split: if_splits)
  have n3: "new_node (heap s) (heap s3) a (zero_node\<lparr>n_name := p\<rparr>)"
    unfolding h3 by (rule new_node_store [OF n1 p]) (auto simp: members_def zero_node_def)
  have h4: "heap s4 = (heap s3)(a \<mapsto> Node (zero_node\<lparr>n_name := p, n_flags := fl\<rparr>))"
    using s4 h3 by (auto simp: store_node_Inr zero_node_def)
  have "new_node (heap s) (heap s4) a (zero_node\<lparr>n_name := p, n_flags := fl\<rparr>)"
    unfolding h4 by (rule new_node_store [OF n3, of 0]) (auto simp: members_def)
  moreover have "extends s s4"
    using cs ds s3 s4 by (auto simp: store_node_Inr elim: extends_trans)
  moreover have "heap s4 p = Some (Bytes (?str @ [0]))" if "p \<noteq> 0" using that p a1 h3 h4 by auto
  ultimately show ?thesis by blast
qed

lemma new_interface_step:
  assumes new: "new_interface os sz fd (i * sizeof_ifreq sz) buff s = Inr (a, buff', s')"
    and i: "i < n" "n * sizeof_ifreq sz \<le> length buff"
  defines "nm \<equiv> name_field sz buff i"
  shows "extends s s' \<and> same_names sz n buff buff' \<and>
    (\<exists>nd. new_node (heap s) (heap s') a nd \<and> n_next nd = 0 \<and>
       n_flags nd = ifr_flags (i * sizeof_ifreq sz) buff \<and>
       (n_name nd \<noteq> 0 \<and> 0 \<in> set nm \<longrightarrow>
          heap s' (n_name nd) = Some (Bytes (takeWhile (\<lambda>c. c \<noteq> 0) nm @ [0]))) \<and>
       answered sz fd (if_log s') SIOCGIFADDR nm (heap s') (n_addr nd) \<and>
       answered sz fd (if_log s') SIOCGIFNETMASK nm (heap s') (n_netmask nd))"
proof -
  let ?off = "i * sizeof_ifreq sz"
  from new obtain s1 p1 s2 s3 s4 b5 s5 where
    c: "calloc os (7 * 8) (Node zero_node) s = (a, s1)" "strdup os ?off buff s1 = Inr (p1, s2)"
      "store_node a (n_name_update (\<lambda>_. p1)) s2 = Inr s3"
      "store_node a (\<lambda>n. n\<lparr>n_flags := ifr_flags ?off buff, n_dstaddr := 0, n_data := 0,
        n_next := 0\<rparr>) s3 = Inr s4"
    and s5: "copy_address os sz fd SIOCGIFADDR (\<lambda>p. n_addr_update (\<lambda>_. p)) a ?off buff s4 = Inr (b5, s5)"
    and s6: "copy_address os sz fd SIOCGIFNETMASK (\<lambda>p. n_netmask_update (\<lambda>_. p)) a ?off b5 s5 =
        Inr (buff', s')"
    by (auto simp: new_interface_def Let_def bindR_eq_Inr split: prod.splits)
  define nd4 where "nd4 = zero_node\<lparr>n_name := p1, n_flags := ifr_flags ?off buff\<rparr>"
  from new_interface_named [OF c] have n4: "new_node (heap s) (heap s4) a nd4" "extends s s4"
    and name: "p1 \<noteq> 0 \<Longrightarrow> heap s4 p1 = Some (Bytes (takeWhile (\<lambda>c. c \<noteq> 0) (drop ?off buff) @ [0]))"
    by (simp_all add: nd4_def)
  have z4: "n_addr nd4 = 0" by (simp add: nd4_def zero_node_def)
  from copy_address_new [OF s5 i n4(1) _ members_addr [OF z4]] obtain p2 where
    5: "extends s4 s5" "same_names sz n buff b5" "new_node (heap s) (heap s5) a (nd4\<lparr>n_addr := p2\<rparr>)"
      "answered sz fd (if_log s5) SIOCGIFADDR nm (heap s5) p2" "keeps (heap s4) (heap s5)"
    unfolding nm_def by auto
  have i5: "n * sizeof_ifreq sz \<le> length b5" "name_field sz b5 i = nm"
    using 5(2) i by (auto simp: same_names_def nm_def)
  have z5: "n_netmask (nd4\<lparr>n_addr := p2\<rparr>) = 0" by (simp add: nd4_def zero_node_def)
  from copy_address_new [OF s6 i(1) i5(1) 5(3) _ members_netmask [OF z5]] obtain p3 where
    6: "extends s5 s'" "same_names sz n b5 buff'"
      "new_node (heap s) (heap s') a (nd4\<lparr>n_addr := p2, n_netmask := p3\<rparr>)"
      "answered sz fd (if_log s') SIOCGIFNETMASK nm (heap s') p3" "keeps (heap s5) (heap s')"
    unfolding i5(2) by auto
  have "extends s s'" using n4(2) 5(1) 6(1) by (blast intro: extends_trans)
  moreover have "same_names sz n buff buff'" using 5(2) 6(2) by (rule same_names_trans)
  moreover have "answered sz fd (if_log s') SIOCGIFADDR nm (heap s') p2"
    using 5(4) extends_set [OF 6(1)] 6(5) by (rule answered_mono)
  moreover have "heap s' p1 = Some (Bytes (takeWhile (\<lambda>c. c \<noteq> 0) nm @ [0]))"
    if "p1 \<noteq> 0" "0 \<in> set nm"
    using name [OF that(1)] that(2) keeps_trans [OF 5(5) 6(5)]
    unfolding nm_def name_field_def by (simp add: keeps_def takeWhile_field)
  ultimately show ?thesis
    using 6(3,4) by (intro conjI exI [of _ "nd4\<lparr>n_addr := p2, n_netmask := p3\<rparr>"])
      (simp_all add: nd4_def zero_node_def)
qed

section \<open>The list that is built\<close>

text \<open>A node shows the interface of a name: its name and the answers of the kernel for it.\<close>

definition shows_if ::
    "sizes \<Rightarrow> nat \<Rightarrow> (ifcall \<times> ifresp) list \<Rightarrow> byte list \<Rightarrow> heap \<Rightarrow> ifnode \<Rightarrow> bool" where
  "shows_if sz fd l nm h nd \<longleftrightarrow>
     (n_name nd \<noteq> 0 \<and> 0 \<in> set nm \<longrightarrow>
        h (n_name nd) = Some (Bytes (takeWhile (\<lambda>c. c \<noteq> 0) nm @ [0]))) \<and>
     flags_answered fd l nm (n_flags nd) \<and>
     answered sz fd l SIOCGIFADDR nm h (n_addr nd) \<and> answered sz fd l SIOCGIFNETMASK nm h (n_netmask nd)"

lemma shows_if_mono:
  "shows_if sz fd l nm h nd \<Longrightarrow> set l \<subseteq> set l' \<Longrightarrow> keeps h h' \<Longrightarrow> shows_if sz fd l' nm h' nd"
proof -
  assume a: "shows_if sz fd l nm h nd" "set l \<subseteq> set l'" "keeps h h'"
  have "flags_answered fd l' nm (n_flags nd)" if "flags_answered fd l nm (n_flags nd)"
    using that a(2) unfolding flags_answered_def by blast
  with a answered_mono [of sz fd l _ nm h _ l' h'] show ?thesis
    by (auto simp: shows_if_def keeps_def)
qed

lemma shows_if_next [simp]: "shows_if sz fd l nm h (nd\<lparr>n_next := q\<rparr>) = shows_if sz fd l nm h nd"
  by (simp add: shows_if_def)

lemma members_next [simp]: "members (nd\<lparr>n_next := q\<rparr>) = members nd"
  by (simp add: members_def)

text \<open>
  The heap \<open>h\<close> is the heap \<open>h0\<close> with the list at \<open>ifap\<close> and nothing else added to it; its
  nodes show the interfaces of the names.
\<close>

definition built ::
    "sizes \<Rightarrow> nat \<Rightarrow> (ifcall \<times> ifresp) list \<Rightarrow> byte list list \<Rightarrow> heap \<Rightarrow> heap \<Rightarrow> nat \<Rightarrow> nat \<Rightarrow>
       (nat \<times> ifnode) list \<Rightarrow> bool" where
  "built sz fd l names h0 h ifap lastif ns \<longleftrightarrow>
     if_list h ifap ns \<and> distinct (cells ns) \<and>
     (\<forall>x \<in> set (cells ns). h0 x = None \<and> h x \<noteq> None) \<and>
     (\<forall>x. x \<notin> set (cells ns) \<longrightarrow> h x = h0 x) \<and>
     lastif = (if ns = [] then 0 else fst (last ns)) \<and>
     list_all2 (\<lambda>nm c. shows_if sz fd l nm h (snd c)) names ns"

lemma built_free:
  assumes "built sz fd l names h0 h p lastif ns"
  shows "freeifaddrs p h = Some (Inr h0)" and "p \<noteq> 0 \<Longrightarrow> h0 p = None"
proof -
  have "without (set (cells ns)) h = h0"
    using assms by (auto simp: built_def without_def)
  then show "freeifaddrs p h = Some (Inr h0)"
    using assms freeifaddrs_frees [of h p ns] by (simp add: built_def)
  show "h0 p = None" if "p \<noteq> 0" using assms that if_list_cells by (auto simp: built_def)
qed

lemma if_list_last: "if_list h p (ns @ [(a, n)]) \<Longrightarrow> h a = Some (Node n) \<and> n_next n = 0 \<and> a \<noteq> 0"
  by (induction ns arbitrary: p) auto

text \<open>Linking: a node \<open>a\<close> was added to the heap \<open>h\<close>, and then the node at \<open>e\<close> was changed.\<close>

lemma linked_frame:
  assumes "new_node h h1 a nd" and "h e = Some (Node m)" and "h2 = h1(e \<mapsto> Node m')"
  shows "h x \<noteq> None \<Longrightarrow> x \<notin> set (a # members nd)" and "a \<noteq> e"
    and "h x \<noteq> None \<Longrightarrow> h1 x = h x" and "keeps h h2" and "keeps h1 h2"
proof -
  show old: "x \<notin> set (a # members nd)" if "h x \<noteq> None" for x
    using assms(1) that by (auto simp: new_node_def)
  show same: "h1 x = h x" if "h x \<noteq> None" for x
    using assms(1) old [OF that] by (simp add: new_node_def)
  from old [of e] assms(2) show "a \<noteq> e" by auto
  show "keeps h h2" "keeps h1 h2" using same assms(2,3) by (auto simp: keeps_def)
qed

lemma linked_cells:
  assumes n: "new_node h h1 a nd" and e: "h e = Some (Node m)" "e \<in> C" and h2: "h2 = h1(e \<mapsto> Node m')"
    and C: "\<forall>x \<in> C. h0 x = None \<and> h x \<noteq> None" "\<forall>x. x \<notin> C \<longrightarrow> h x = h0 x"
  shows "x \<in> C \<union> set (a # members nd) \<Longrightarrow> h0 x = None \<and> h2 x \<noteq> None"
    and "x \<notin> C \<union> set (a # members nd) \<Longrightarrow> h2 x = h0 x"
proof -
  note old = linked_frame [OF n e(1) h2]
  show "h0 x = None \<and> h2 x \<noteq> None" if "x \<in> C \<union> set (a # members nd)"
  proof (cases "x \<in> C")
    case True
    with C(1) have "h0 x = None" "h x \<noteq> None" by auto
    with old(3) [of x] show ?thesis by (simp add: h2)
  next
    case False
    with that n have "h1 x \<noteq> None" "h x = None" by (auto simp: new_node_def)
    with False C(2) show ?thesis by (simp add: h2)
  qed
  show "h2 x = h0 x" if "x \<notin> C \<union> set (a # members nd)"
  proof -
    from that n have "h1 x = h x" by (simp add: new_node_def)
    with that C(2) e(2) show ?thesis by (auto simp: h2)
  qed
qed

lemma linked_shows:
  assumes "list_all2 (\<lambda>nm c. shows_if sz fd l nm h (snd c)) names (ms @ [(e, m)])"
    and "shows_if sz fd l' nm h1 nd" and "set l \<subseteq> set l'" and "keeps h h2" and "keeps h1 h2"
  shows "list_all2 (\<lambda>nm c. shows_if sz fd l' nm h2 (snd c)) (names @ [nm])
    (ms @ [(e, m\<lparr>n_next := a\<rparr>), (a, nd)])"
proof -
  have "list_all2 (\<lambda>nm c. shows_if sz fd l' nm h2 (snd c)) names (ms @ [(e, m)])"
    using assms(1) by (rule list_all2_mono) (rule shows_if_mono [OF _ assms(3,4)])
  then have "list_all2 (\<lambda>nm c. shows_if sz fd l' nm h2 (snd c)) names (ms @ [(e, m\<lparr>n_next := a\<rparr>)])"
    by (simp add: list_all2_append2 list_all2_Cons2)
  moreover have "shows_if sz fd l' nm h2 nd" using assms(2,5) by (auto intro: shows_if_mono)
  ultimately show ?thesis
    using list_all2_appendI [where a = names and b = "ms @ [(e, m\<lparr>n_next := a\<rparr>)]"
        and c = "[nm]" and d = "[(a, nd)]"] by fastforce
qed

lemma built_step:
  assumes b: "built sz fd l names h0 h ifap lastif ns"
    and n: "new_node h (heap s) a nd" "n_next nd = 0" "shows_if sz fd l' nm (heap s) nd"
    and l: "set l \<subseteq> set l'"
    and link: "link_interface ifap lastif a s = Inr (ifap', s')"
  shows "\<exists>ns'. built sz fd l' (names @ [nm]) h0 (heap s') ifap' a ns'"
proof (cases ns rule: rev_cases)
  case Nil
  with b have h: "h = h0" "lastif = 0" "names = []" by (auto simp: built_def)
  with link have "s' = s" "ifap' = a" by (auto simp: link_interface_def)
  with n h have "built sz fd l' (names @ [nm]) h0 (heap s') ifap' a [(a, nd)]"
    by (auto simp: built_def new_node_def)
  then show ?thesis by blast
next
  case (snoc ms c)
  obtain e m where c: "c = (e, m)" by fastforce
  let ?ns = "ms @ [(e, m\<lparr>n_next := a\<rparr>), (a, nd)]"
  from b snoc c have e: "h e = Some (Node m)" "n_next m = 0" "e \<noteq> 0" "lastif = e"
    using if_list_last [of h ifap ms e m] by (simp_all add: built_def)
  have "heap s e = h e" using linked_frame(3) [OF n(1) e(1) refl] e(1) by simp
  with link e have s': "ifap' = ifap" "heap s' = (heap s)(e \<mapsto> Node (m\<lparr>n_next := a\<rparr>))"
    by (auto simp: link_interface_def bindR_eq_Inr store_node_Inr)
  note old = linked_frame [OF n(1) e(1) s'(2)]
  have cs: "cells ?ns = cells ns @ a # members nd" by (simp add: snoc c)
  have ec: "e \<in> set (cells ns)" by (simp add: snoc c)
  have ae: "a \<noteq> e" "a \<noteq> 0" using old(2) n(1) by (simp_all add: new_node_def)
  have dms: "e \<notin> fst ` set ms"
    using b fst_in_cells [of _ ms] by (fastforce simp: built_def snoc c)
  have old_list: "if_list h ifap (ms @ [(e, m)])" using b by (simp add: built_def snoc c)
  have new: "heap s' e = Some (Node (m\<lparr>n_next := a\<rparr>))" "heap s' a = Some (Node nd)"
    using ae n(1) by (simp_all add: s'(2) new_node_def)
  have "if_list (heap s') ifap ?ns"
  proof (rule if_list_snoc [of h ifap ms e m])
    fix x assume "x \<in> fst ` set ms"
    with dms fst_in_cells [of _ ms] have x: "x \<noteq> e" "x \<in> set (cells ns)" by (auto simp: snoc)
    from b x(2) have "h x \<noteq> None" by (simp add: built_def)
    from old(3) [OF this] x(1) show "heap s' x = h x" by (simp add: s'(2))
  qed (fact old_list dms ae(2) new n(2))+
  moreover have "set (cells ns) \<inter> set (a # members nd) = {}"
    using b old(1) unfolding built_def by blast
  then have "distinct (cells ?ns)"
    using b n(1) unfolding cs distinct_append by (simp add: built_def new_node_def)
  moreover have "h0 x = None \<and> heap s' x \<noteq> None" if "x \<in> set (cells ?ns)" for x
    using linked_cells(1) [OF n(1) e(1) ec s'(2), of h0 x] b that
    unfolding cs by (simp add: built_def)
  moreover have "heap s' x = h0 x" if "x \<notin> set (cells ?ns)" for x
    using linked_cells(2) [OF n(1) e(1) ec s'(2), of h0 x] b that
    unfolding cs by (simp add: built_def)
  moreover have "list_all2 (\<lambda>nm c. shows_if sz fd l' nm (heap s') (snd c)) (names @ [nm]) ?ns"
    using b by (intro linked_shows [OF _ n(3) l old(4,5)]) (simp add: built_def snoc c)
  ultimately have "built sz fd l' (names @ [nm]) h0 (heap s') ifap' a ?ns"
    by (simp add: built_def s'(1))
  then show ?thesis by blast
qed

text \<open>One turn of the loop: a node for the interface is hung onto the list.\<close>

lemma if_body_step:
  assumes b: "built sz fd (if_log s) names h0 (heap s) ifap lastif ns"
    and i: "i < n" "n * sizeof_ifreq sz \<le> length buff"
    and rq: "if_request os sz fd SIOCGIFFLAGS (i * sizeof_ifreq sz) buff s = (True, b, t)"
    and new: "new_interface os sz fd (i * sizeof_ifreq sz) b t = Inr (a, b', t')"
    and link: "link_interface ifap lastif a t' = Inr (ifap', u)"
  shows "\<exists>ns'. built sz fd (if_log u) (names @ [name_field sz buff i]) h0 (heap u) ifap' a ns'"
    and "same_names sz n buff b'" and "extends s u"
proof -
  let ?off = "i * sizeof_ifreq sz"
  let ?nm = "name_field sz buff i"
  note rs = if_request_step [OF rq i]
  from rs i have len: "n * sizeof_ifreq sz \<le> length b" "name_field sz b i = ?nm"
    by (auto simp: same_names_def)
  from new_interface_step [OF new i(1) len(1)] obtain nd where
    ex: "extends t t'" "same_names sz n b b'"
    and nd: "new_node (heap t) (heap t') a nd" "n_next nd = 0" "n_flags nd = ifr_flags ?off b"
    and name: "n_name nd \<noteq> 0 \<and> 0 \<in> set ?nm \<longrightarrow>
      heap t' (n_name nd) = Some (Bytes (takeWhile (\<lambda>c. c \<noteq> 0) ?nm @ [0]))"
    and ans: "answered sz fd (if_log t') SIOCGIFADDR ?nm (heap t') (n_addr nd)"
      "answered sz fd (if_log t') SIOCGIFNETMASK ?nm (heap t') (n_netmask nd)"
    unfolding len by blast
  from rs obtain q w where w: "(If_req fd SIOCGIFFLAGS q, Filled w) \<in> set (if_log t)"
      "take IFNAMSIZ q = ?nm" "take (length w) (drop (?off + IFNAMSIZ) b) = w" by auto
  have "ifr_flags ?off b = flags_value w" if "2 \<le> length w"
  proof -
    have "drop (?off + IFNAMSIZ) b ! j = w ! j" if "j < length w" for j
      using nth_take [OF that, of "drop (?off + IFNAMSIZ) b"] unfolding w(3) by (rule sym)
    moreover from that have "0 < length w" "1 < length w" by linarith+
    ultimately show ?thesis unfolding ifr_flags_def flags_value_def by presburger
  qed
  with w nd(3) extends_set [OF ex(1)] have "flags_answered fd (if_log t') ?nm (n_flags nd)"
    unfolding flags_answered_def by auto
  with name ans have shown: "shows_if sz fd (if_log t') ?nm (heap t') nd" by (simp add: shows_if_def)
  have tu: "if_log u = if_log t'"
    using link by (auto simp: link_interface_def bindR_eq_Inr store_node_Inr split: if_splits)
  have st: "extends s t'" using rs ex(1) by (blast intro: extends_trans)
  show "\<exists>ns'. built sz fd (if_log u) (names @ [?nm]) h0 (heap u) ifap' a ns'"
    unfolding tu
  proof (rule built_step [OF b])
    show "new_node (heap s) (heap t') a nd" using nd(1) rs by simp
  qed (use nd shown link extends_set [OF st] in auto)
  show "same_names sz n buff b'" using rs ex(2) by (blast intro: same_names_trans)
  show "extends s u" using st tu by (simp add: extends_def)
qed

lemma if_loop_result:
  assumes "if_loop os sz fd i ifap lastif buff s = Some (Inr (r, p, s'))"
    and "built sz fd (if_log s) names h0 (heap s) ifap lastif ns"
    and "i \<le> n" and "n * sizeof_ifreq sz \<le> length buff"
  shows "set (if_log s) \<subseteq> set (if_log s') \<and>
    (r = 0 \<and> (\<exists>lastif ns. built sz fd (if_log s')
       (names @ rev (map (name_field sz buff) [0..<i])) h0 (heap s') p lastif ns) \<or>
     r = -1 \<and> heap s' = h0 \<and> (p \<noteq> 0 \<longrightarrow> h0 p = None) \<and> extends s s')"
  using assms
proof (induction i arbitrary: ifap lastif buff s names ns)
  case 0
  then obtain x t where c: "if_call os (If_close fd) s = (x, t)" by fastforce
  note cs = if_call_step [OF c]
  with 0 c have "built sz fd (if_log t) names h0 (heap t) ifap lastif ns"
    by (auto simp: built_def keeps_def elim!: list_all2_mono intro: shows_if_mono)
  with 0 c cs show ?case by auto
next
  case (Suc i)
  let ?off = "i * sizeof_ifreq sz"
  obtain ok b t where rq: "if_request os sz fd SIOCGIFFLAGS ?off buff s = (ok, b, t)"
    by (cases "if_request os sz fd SIOCGIFFLAGS ?off buff s") auto
  from Suc.prems have i: "i < n" by simp
  note rs = if_request_step [OF rq i Suc.prems(4)]
  show ?case
  proof (cases ok)
    case False
    with rs Suc.prems(1) rq built_free [OF Suc.prems(2)] show ?thesis
      using extends_set [of s t] by auto
  next
    case True
    with Suc.prems(1) rq obtain a b' t' ifap' u where
      new: "new_interface os sz fd ?off b t = Inr (a, b', t')"
      and link: "link_interface ifap lastif a t' = Inr (ifap', u)"
      and loop: "if_loop os sz fd i ifap' a b' u = Some (Inr (r, p, s'))"
      by (auto simp: Let_def bindO_eq_Inr)
    note body = if_body_step [OF Suc.prems(2) i Suc.prems(4) rq [unfolded True [THEN eqTrueI]] new link]
    from body(1) obtain ns' where
      b2: "built sz fd (if_log u) (names @ [name_field sz buff i]) h0 (heap u) ifap' a ns'" by blast
    have names: "map (name_field sz b') [0..<i] = map (name_field sz buff) [0..<i]"
      using i body(2) by (auto simp: same_names_def)
    have "set (if_log u) \<subseteq> set (if_log s')" "r = 0 \<and> (\<exists>lastif ns. built sz fd (if_log s')
       ((names @ [name_field sz buff i]) @ rev (map (name_field sz b') [0..<i])) h0 (heap s') p lastif ns) \<or>
       r = -1 \<and> heap s' = h0 \<and> (p \<noteq> 0 \<longrightarrow> h0 p = None) \<and> extends u s'"
      using Suc.IH [OF loop b2] i Suc.prems(4) body(2) by (auto simp: same_names_def)
    with body(3) extends_set [OF body(3)] show ?thesis
      by (auto simp: names intro: extends_trans)
  qed
qed

lemma if_loop_returns:
  assumes "built sz fd (if_log s) names h0 (heap s) ifap lastif ns"
    and "i \<le> n" and "n * sizeof_ifreq sz \<le> length buff"
  shows "\<exists>x. if_loop os sz fd i ifap lastif buff s = Some x"
  using assms
proof (induction i arbitrary: ifap lastif buff s names ns)
  case 0
  then show ?case by (simp split: prod.split)
next
  case (Suc i)
  let ?off = "i * sizeof_ifreq sz"
  obtain ok b t where rq: "if_request os sz fd SIOCGIFFLAGS ?off buff s = (ok, b, t)"
    by (cases "if_request os sz fd SIOCGIFFLAGS ?off buff s") auto
  from Suc.prems have i: "i < n" by simp
  note rs = if_request_step [OF rq i Suc.prems(3)]
  show ?case
  proof (cases ok)
    case False
    with rq rs built_free [OF Suc.prems(1)] show ?thesis by simp
  next
    case True
    show ?thesis
    proof (cases "new_interface os sz fd ?off b t")
      case (Inr r)
      obtain a b' t' where r: "r = (a, b', t')" by (cases r)
      show ?thesis
      proof (cases "link_interface ifap lastif a t'")
        case (Inr q)
        obtain ifap' u where q: "q = (ifap', u)" by (cases q)
        note body = if_body_step [OF Suc.prems(1) i Suc.prems(3) rq [unfolded True [THEN eqTrueI]]
          \<open>new_interface os sz fd ?off b t = Inr r\<close> [unfolded r] Inr [unfolded q]]
        from body(1) obtain ns' where
          "built sz fd (if_log u) (names @ [name_field sz buff i]) h0 (heap u) ifap' a ns'" by blast
        from Suc.IH [OF this] Suc.prems body(2)
        have "\<exists>x. if_loop os sz fd i ifap' a b' u = Some x" by (simp add: same_names_def)
        with Inr q r rq True \<open>new_interface os sz fd ?off b t = Inr r\<close> show ?thesis by simp
      qed (use rq True r \<open>new_interface os sz fd ?off b t = Inr r\<close> in simp)
    qed (use rq True in simp)
  qed
qed

lemma name_field_overwrite:
  assumes "j < length bs div sizeof_ifreq sz" and "IFNAMSIZ \<le> sizeof_ifreq sz"
  shows "name_field sz (overwrite 0 bs mem) j = name_field sz bs j"
proof -
  have "Suc j * sizeof_ifreq sz \<le> length bs"
    using assms mult_le_mono1 [of "Suc j" "length bs div sizeof_ifreq sz" "sizeof_ifreq sz"]
      div_times_less_eq_dividend [of "length bs" "sizeof_ifreq sz"] by linarith
  with assms(2) show ?thesis by (simp add: name_field_def overwrite_def)
qed

text \<open>Every way in which \<open>getifaddrs\<close> returns.\<close>

definition conf_names :: "sizes \<Rightarrow> byte list \<Rightarrow> byte list list" where
  "conf_names sz bs = map (name_field sz bs) [0..<length bs div sizeof_ifreq sz]"

lemma getifaddrs_result:
  assumes get: "getifaddrs os sz junk s = Some (Inr (r, p, s'))"
    and sz: "length junk = sizeof_buff" "IFNAMSIZ \<le> sizeof_ifreq sz"
  shows "r = 0 \<and> (\<exists>fd bs lastif ns. (If_conf fd sizeof_buff, Filled bs) \<in> set (if_log s') \<and>
      built sz fd (if_log s') (rev (conf_names sz bs)) (heap s) (heap s') p lastif ns) \<or>
    r = -1 \<and> heap s' = heap s \<and> (p \<noteq> 0 \<longrightarrow> heap s p = None) \<and>
      (\<exists>l. if_log s' = if_log s @ l \<and>
         ((\<exists>fd bs. (If_conf fd sizeof_buff, Filled bs) \<in> set l) \<longrightarrow> no_close l))"
proof -
  obtain a s1 where c1: "if_call os Inet_socket s = (a, s1)" by fastforce
  note cs1 = if_call_step [OF c1]
  show ?thesis
  proof (cases a)
    case (Num fd)
    obtain b s2 where c2: "if_call os (If_conf fd sizeof_buff) s1 = (b, s2)" by fastforce
    note cs2 = if_call_step [OF c2]
    obtain x s3 where c3: "if_call os (If_close fd) s2 = (x, s3)" by fastforce
    note cs3 = if_call_step [OF c3]
    show ?thesis
    proof (cases b)
      case (Filled bs)
      let ?n = "length bs div sizeof_ifreq sz"
      from get c1 c2 Num Filled have loop: "if_loop os sz fd ?n 0 0 (overwrite 0 bs junk) s2 =
          Some (Inr (r, p, s'))"
        using sz by (simp add: getifaddrs_def)
      have bs: "length bs \<le> sizeof_buff" using cs2 Filled by simp
      then have len: "?n * sizeof_ifreq sz \<le> length (overwrite 0 bs junk)"
        using sz(1) le_trans [OF div_times_less_eq_dividend] by simp
      have names: "map (name_field sz (overwrite 0 bs junk)) [0..<?n] = conf_names sz bs"
        unfolding conf_names_def using name_field_overwrite [OF _ sz(2)] by simp
      have "built sz fd (if_log s2) [] (heap s2) (heap s2) 0 0 []" by (simp add: built_def)
      from if_loop_result [OF loop this order_refl len]
      consider "r = 0" "set (if_log s2) \<subseteq> set (if_log s')"
          "\<exists>lastif ns. built sz fd (if_log s') (rev (conf_names sz bs)) (heap s2) (heap s') p lastif ns"
        | "r = -1" "heap s' = heap s2" "p \<noteq> 0 \<longrightarrow> heap s2 p = None" "extends s2 s'"
        by (auto simp: names)
      then show ?thesis
      proof cases
        case 1
        with cs1 cs2 Filled show ?thesis by auto
      next
        case 2
        with cs1 cs2 have "extends s s'" by (blast intro: extends_trans)
        with 2 cs1 cs2 show ?thesis by (auto simp: extends_def)
      qed
    qed (use get c1 c2 c3 cs1 cs2 cs3 Num in \<open>auto simp: getifaddrs_def\<close>)
  qed (use get c1 cs1 in \<open>auto simp: getifaddrs_def\<close>)
qed

section \<open>Properties\<close>

text \<open>C27: What \<open>getifaddrs\<close> allocates is what \<open>freeifaddrs\<close> frees: after a successful call,
  freeing the list gives back the heap as it was before, without a double free; a failing
  call leaves the heap as it was.\<close>

theorem getifaddrs_freeifaddrs_restore:
  assumes "getifaddrs os sz junk s = Some (Inr (r, p, s'))"
    and "length junk = sizeof_buff" and "IFNAMSIZ \<le> sizeof_ifreq sz"
  shows "if r = 0 then freeifaddrs p (heap s') = Some (Inr (heap s))
    else r = -1 \<and> heap s' = heap s"
  using getifaddrs_result [OF assms] built_free(1) by fastforce

text \<open>C28: The list that \<open>getifaddrs\<close> returns has one node for each interface that the kernel
  listed, in the reverse order, with its name and the flags, address and netmask that the
  kernel answered for that name, or a null pointer.\<close>

theorem getifaddrs_shows_interfaces:
  assumes "getifaddrs os sz junk s = Some (Inr (0, p, s'))"
    and "length junk = sizeof_buff" and "IFNAMSIZ \<le> sizeof_ifreq sz"
  shows "\<exists>fd bs ns. (If_conf fd sizeof_buff, Filled bs) \<in> set (if_log s') \<and>
    if_list (heap s') p ns \<and>
    list_all2 (\<lambda>nm c. shows_if sz fd (if_log s') nm (heap s') (snd c)) (rev (conf_names sz bs)) ns"
  using getifaddrs_result [OF assms] unfolding built_def by fastforce

text \<open>When \<open>getifaddrs\<close> fails after the kernel has listed the interfaces, the
  descriptor stays open, and \<open>*ifap\<close> is left null or dangling.\<close>

theorem getifaddrs_error_leaks:
  assumes "getifaddrs os sz junk s = Some (Inr (-1, p, s'))"
    and "length junk = sizeof_buff" and "IFNAMSIZ \<le> sizeof_ifreq sz"
    and "if_log s' = if_log s @ l" and "(If_conf fd sizeof_buff, Filled bs) \<in> set l"
  shows "(\<forall>fd. If_close fd \<notin> fst ` set l) \<and> (p \<noteq> 0 \<longrightarrow> heap s' p = None)"
  using getifaddrs_result [OF assms(1-3)] assms(4,5) unfolding no_close_def by auto

text \<open>Whatever the kernel answers, \<open>getifaddrs\<close> returns or runs into a fault: it frees only
  well-formed lists.\<close>

lemma getifaddrs_returns:
  assumes "length junk = sizeof_buff"
  shows "\<exists>x. getifaddrs os sz junk s = Some x"
proof -
  obtain a s1 where c1: "if_call os Inet_socket s = (a, s1)" by fastforce
  show ?thesis
  proof (cases a)
    case (Num fd)
    obtain b s2 where c2: "if_call os (If_conf fd sizeof_buff) s1 = (b, s2)" by fastforce
    show ?thesis
    proof (cases b)
      case (Filled bs)
      have "length bs div sizeof_ifreq sz * sizeof_ifreq sz \<le> length (overwrite 0 bs junk)"
        using assms if_call_step [OF c2] Filled le_trans [OF div_times_less_eq_dividend] by simp
      with if_loop_returns [of sz fd s2 "[]" "heap s2" 0 0 "[]", OF _ order_refl]
      show ?thesis using c1 c2 Num Filled assms by (simp add: getifaddrs_def built_def)
    qed (use c1 c2 Num in \<open>auto simp: getifaddrs_def split: prod.split\<close>)
  qed (use c1 in \<open>auto simp: getifaddrs_def\<close>)
qed

text \<open>The copy of an address reads beyond the buffer for the last interfaces of a long list.\<close>

lemma sockaddr_dup_overreads:
  assumes "length buff = sizeof_buff" and "sizeof_buff < off + sizeof_storage sz"
    and "calloc os (sizeof_storage sz) (Bytes (replicate (sizeof_storage sz) 0)) s = (p, t)" "p \<noteq> 0"
  shows "sockaddr_dup os sz off buff s = Inl (Fault Out_of_bounds)"
  using assms by (simp add: sockaddr_dup_def)

text \<open>An example: two interfaces, one of them without a netmask. The kernel's state is the
  next free address and whether \<open>SIOCGIFFLAGS\<close> fails for the first interface.\<close>

definition sample_req :: "byte \<Rightarrow> byte list" where
  "sample_req c = c # replicate 15 0 @ replicate 24 0"

definition sample_kernel :: "(nat \<times> bool) ifos" where
  "sample_kernel k c =
     (case c of
        Inet_socket \<Rightarrow> (Num 3, k)
      | If_conf fd n \<Rightarrow> (Filled (sample_req 97 @ sample_req 98), k)
      | If_req fd SIOCGIFFLAGS req \<Rightarrow>
          (if snd k \<and> hd req = 97 then Err else Filled (67 # replicate 23 0), k)
      | If_req fd SIOCGIFADDR req \<Rightarrow> (Filled ([2, 0, 0, 0, 10, 0, 0, hd req] @ replicate 16 0), k)
      | If_req fd SIOCGIFNETMASK req \<Rightarrow>
          (if hd req = 97 then Filled ([2, 0, 0, 0, 255, 0, 0, 0] @ replicate 16 0) else Err, k)
      | If_close fd \<Rightarrow> (Num 0, k)
      | Calloc n \<Rightarrow> (Num (fst k), (fst k + 1, snd k)))"

definition sample_sizes :: sizes where
  "sample_sizes = \<lparr>sizeof_ifreq = 40, sizeof_storage = 128\<rparr>"

definition sample_ifsys :: "bool \<Rightarrow> (nat \<times> bool) ifsys" where
  "sample_ifsys f = \<lparr>kern = (100, f), heap = (\<lambda>x. None), if_log = []\<rparr>"

lemmas sample_if_defs = sample_kernel_def sample_req_def sample_sizes_def sample_ifsys_def

lemmas if_eval = getifaddrs_def if_call_def overwrite_def if_request_def new_interface_def
  calloc_def strdup_def store_node_def read_node_def copy_address_def sockaddr_dup_def
  link_interface_def sample_if_defs

lemma sample_getifaddrs:
  "\<exists>s'. getifaddrs sample_kernel sample_sizes (replicate 8192 0) (sample_ifsys False) =
      Some (Inr (0, 100, s')) \<and>
    (\<forall>fd bs. (If_conf fd 8192, Filled bs) \<in> set (if_log s') \<longrightarrow> bs = sample_req 97 @ sample_req 98)"
  by (simp add: if_eval Let_def numeral_2_eq_2)

theorem getifaddrs_freeifaddrs_restore_witness:
  "\<exists>s'. getifaddrs sample_kernel sample_sizes (replicate 8192 0) (sample_ifsys False) =
      Some (Inr (0, 100, s')) \<and> freeifaddrs 100 (heap s') = Some (Inr (\<lambda>x. None))"
proof -
  obtain s' where s': "getifaddrs sample_kernel sample_sizes (replicate 8192 0) (sample_ifsys False) =
      Some (Inr (0, 100, s'))" using sample_getifaddrs by blast
  from getifaddrs_freeifaddrs_restore [OF this] s' show ?thesis
    by (auto simp: sample_sizes_def sample_ifsys_def)
qed

theorem getifaddrs_shows_interfaces_witness:
  "\<exists>s' ns. getifaddrs sample_kernel sample_sizes (replicate 8192 0) (sample_ifsys False) =
      Some (Inr (0, 100, s')) \<and> if_list (heap s') 100 ns \<and> length ns = 2"
proof -
  obtain s' where s': "getifaddrs sample_kernel sample_sizes (replicate 8192 0) (sample_ifsys False) =
      Some (Inr (0, 100, s'))"
    and bs: "\<forall>fd bs. (If_conf fd 8192, Filled bs) \<in> set (if_log s') \<longrightarrow>
      bs = sample_req 97 @ sample_req 98" using sample_getifaddrs by blast
  have len: "length (conf_names sample_sizes (sample_req 97 @ sample_req 98)) = 2"
    by (simp add: conf_names_def sample_sizes_def sample_req_def)
  from getifaddrs_shows_interfaces [OF s'] obtain fd b ns where
    "(If_conf fd 8192, Filled b) \<in> set (if_log s')" "if_list (heap s') 100 ns"
    "list_all2 (\<lambda>nm c. shows_if sample_sizes fd (if_log s') nm (heap s') (snd c))
      (rev (conf_names sample_sizes b)) ns"
    by (auto simp: sample_sizes_def)
  with bs len have "length ns = 2" by (auto dest: list_all2_lengthD)
  with s' \<open>if_list (heap s') 100 ns\<close> show ?thesis by blast
qed

theorem getifaddrs_error_leaks_witness:
  "\<exists>s'. getifaddrs sample_kernel sample_sizes (replicate 8192 0) (sample_ifsys True) =
      Some (Inr (-1, 100, s')) \<and>
    (Inet_socket, Num 3) \<in> set (if_log s') \<and> (\<forall>fd. If_close fd \<notin> fst ` set (if_log s')) \<and>
    heap s' 100 = None"
proof -
  have "\<exists>s'. getifaddrs sample_kernel sample_sizes (replicate 8192 0) (sample_ifsys True) =
      Some (Inr (-1, 100, s')) \<and> (Inet_socket, Num 3) \<in> set (if_log s') \<and>
      (If_conf 3 8192, Filled (sample_req 97 @ sample_req 98)) \<in> set (if_log s')"
    by (simp add: if_eval Let_def numeral_2_eq_2 freeifaddrs.simps free_members_def
        free_member_def free_def zero_node_def)
  then obtain s' where s': "getifaddrs sample_kernel sample_sizes (replicate 8192 0)
      (sample_ifsys True) = Some (Inr (-1, 100, s'))" "(Inet_socket, Num 3) \<in> set (if_log s')"
      "(If_conf 3 8192, Filled (sample_req 97 @ sample_req 98)) \<in> set (if_log s')" by blast
  moreover have "(\<forall>fd. If_close fd \<notin> fst ` set (if_log s')) \<and> (100 \<noteq> (0::nat) \<longrightarrow> heap s' 100 = None)"
    by (rule getifaddrs_error_leaks [OF s'(1) _ _ _ s'(3)])
      (simp_all add: sample_sizes_def sample_ifsys_def)
  ultimately show ?thesis by auto
qed

end
