(* ===== verification/Source_Check.thy ===== *)
theory Source_Check
  imports Getifaddrs
begin

text \<open>
  \<open>check_source\<close> of \<^verbatim>\<open>src/lib/utils.cpp\<close> together with the replacement of \<open>getifaddrs\<close>: the
  loop over the list in the heap, which masks the addresses of the list in place, and
  \<open>freeifaddrs\<close> on both ways out. The theorem says that it computes what \<open>Sockaddr\<close> says on
  the list that \<open>getifaddrs\<close> built, and leaves the heap as it was before \<open>getifaddrs\<close>.
\<close>


section \<open>Addresses in the heap\<close>

text \<open>A block of bytes read as a \<open>sockaddr\<close>: the family, a \<open>short\<close>, and what follows it.\<close>

definition sockaddr_of :: "byte list \<Rightarrow> sockaddr" where
  "sockaddr_of bs =
     \<lparr>sa_family = uint (word_rcat [bs ! 1, bs ! 0] :: 16 word), sa_data = drop 2 bs\<rparr>"

definition read_sockaddr :: "heap \<Rightarrow> nat \<Rightarrow> sockaddr result" where
  "read_sockaddr h p =
     (case (if p = 0 then None else h p) of
        Some (Bytes bs) \<Rightarrow>
          if 2 \<le> length bs then Inr (sockaddr_of bs) else Inl (Fault Out_of_bounds)
      | _ \<Rightarrow> Inl (Fault Out_of_bounds))"

text \<open>Storing what \<open>sockaddr_mask\<close> changes of an address: all but the family.\<close>

definition store_data :: "nat \<Rightarrow> sockaddr \<Rightarrow> heap \<Rightarrow> heap" where
  "store_data p sa h =
     (case h p of
        Some (Bytes bs) \<Rightarrow> h(p \<mapsto> Bytes (take 2 bs @ sa_data sa))
      | _ \<Rightarrow> h)"


section \<open>The loop\<close>

text \<open>The body of the loop for one node: whether it matches, and the heap.\<close>

definition check_node ::
  "sockaddr \<Rightarrow> bool \<Rightarrow> ifnode \<Rightarrow> heap \<Rightarrow> (bool \<times> heap) result" where
  "check_node addr subnet ifp h =
     (if n_addr ifp = 0 \<or> n_netmask ifp = 0 then Inr (False, h)
      else bindR (read_sockaddr h (n_addr ifp)) (\<lambda>ifaddr.
        if sa_family addr \<noteq> sa_family ifaddr then Inr (False, h)
        else
          let addr1 = addr\<lparr>sa_data := take 14 (sa_data addr)\<rparr>
          in bindR
               (if subnet
                then bindR (read_sockaddr h (n_netmask ifp)) (\<lambda>netmask.
                     bindR (sockaddr_mask addr1 netmask) (\<lambda>a.
                     bindR (sockaddr_mask ifaddr netmask) (\<lambda>i.
                     Inr (a, i, store_data (n_addr ifp) i h))))
                else Inr (addr1, ifaddr, h))
               (\<lambda>(a, i, h). bindR (sockaddr_match a i False) (\<lambda>match. Inr (match, h)))))"

partial_function (option) check_list ::
  "sockaddr \<Rightarrow> bool \<Rightarrow> nat \<Rightarrow> heap \<Rightarrow> (bool \<times> heap) result option" where
  "check_list addr subnet ifp h =
     (if ifp = 0 then Some (Inr (False, h))
      else
        (case read_node h ifp of
           Inl e \<Rightarrow> Some (Inl e)
         | Inr n \<Rightarrow>
             (case check_node addr subnet n h of
                Inl e \<Rightarrow> Some (Inl e)
              | Inr (match, h1) \<Rightarrow>
                  if match then Some (Inr (True, h1))
                  else check_list addr subnet (n_next n) h1)))"

text \<open>\<open>check_source\<close> after its call of \<open>getifaddrs\<close>.\<close>

definition check_source_heap ::
  "sockaddr \<Rightarrow> bool \<Rightarrow> nat \<Rightarrow> heap \<Rightarrow> (bool \<times> heap) result option" where
  "check_source_heap addr subnet ifap h =
     bindO (check_list addr subnet ifap h) (\<lambda>(match, h1).
     bindO (freeifaddrs ifap h1) (\<lambda>h2. Some (Inr (match, h2))))"


section \<open>The list that the loop sees\<close>

definition addr_view :: "heap \<Rightarrow> nat \<Rightarrow> sockaddr option" where
  "addr_view h p =
     (case (if p = 0 then None else h p) of Some (Bytes bs) \<Rightarrow> Some (sockaddr_of bs) | _ \<Rightarrow> None)"

text \<open>A node as an element of the lists of \<open>Sockaddr\<close>; the loop does not look at names.\<close>

definition if_view :: "heap \<Rightarrow> ifnode \<Rightarrow> ifaddrs" where
  "if_view h n = \<lparr>ifa_name = '''', ifa_flags = n_flags n, ifa_addr = addr_view h (n_addr n),
     ifa_netmask = addr_view h (n_netmask n)\<rparr>"

definition readable :: "heap \<Rightarrow> nat \<Rightarrow> bool" where
  "readable h p \<longleftrightarrow> p = 0 \<or> (\<exists>bs. h p = Some (Bytes bs) \<and> 2 \<le> length bs)"

lemma readable_read:
  assumes "readable h p" and "p \<noteq> 0"
  obtains sa where "read_sockaddr h p = Inr sa" and "addr_view h p = Some sa"
  using assms by (auto simp: readable_def read_sockaddr_def addr_view_def)

lemma addr_view_zero [simp]: "addr_view h 0 = None"
  by (simp add: addr_view_def)

lemma addr_view_agree: "h' p = h p \<Longrightarrow> addr_view h' p = addr_view h p"
  by (simp add: addr_view_def)

text \<open>What the list function does with its first element.\<close>

lemma check_interfaces_Cons:
  "check_interfaces addr subnet (v # vs) =
    bindR (check_interfaces addr subnet [v]) (\<lambda>m. if m then Inr True else check_interfaces addr subnet vs)"
proof (cases "ifa_addr v")
  case (Some ia)
  then show ?thesis
    by (cases "ifa_netmask v")
      (auto simp: Let_def bindR_assoc split_def intro!: ext arg_cong2 [where f = bindR])
qed simp

text \<open>What the loop may change: blocks of bytes among certain cells.\<close>

definition same_shape :: "nat set \<Rightarrow> heap \<Rightarrow> heap \<Rightarrow> bool" where
  "same_shape A h h' \<longleftrightarrow>
     (\<forall>x. x \<notin> A \<longrightarrow> h' x = h x) \<and>
     (\<forall>x. h' x = h x \<or> (\<exists>bs bs'. h x = Some (Bytes bs) \<and> h' x = Some (Bytes bs')))"

lemma same_shape_refl [simp]: "same_shape A h h"
  by (simp add: same_shape_def)

lemma same_shape_mono: "same_shape A h h' \<Longrightarrow> A \<subseteq> B \<Longrightarrow> same_shape B h h'"
  by (auto simp: same_shape_def)

lemma same_shape_store:
  "h p = Some (Bytes bs) \<Longrightarrow> same_shape {p} h (store_data p sa h)"
  by (simp add: same_shape_def store_data_def)

lemma same_shape_node: "same_shape A h h' \<Longrightarrow> h x = Some (Node n) \<Longrightarrow> h' x = Some (Node n)"
  unfolding same_shape_def by (metis block.distinct(1) option.inject)

lemma same_shape_dom: "same_shape A h h' \<Longrightarrow> h x \<noteq> None \<Longrightarrow> h' x \<noteq> None"
  unfolding same_shape_def by (metis option.distinct(1))

lemma same_shape_trans:
  assumes "same_shape A h1 h2" and "same_shape B h2 h3"
  shows "same_shape (A \<union> B) h1 h3"
proof -
  have "h3 x = h1 x \<or> (\<exists>bs bs'. h1 x = Some (Bytes bs) \<and> h3 x = Some (Bytes bs'))" for x
    using assms unfolding same_shape_def by metis
  with assms show ?thesis by (simp add: same_shape_def)
qed

lemma same_shape_if_list: "same_shape A h h' \<Longrightarrow> if_list h p ns \<Longrightarrow> if_list h' p ns"
  by (induction ns arbitrary: p) (auto dest: same_shape_node)

text \<open>The body computes the list function on one element, and changes at most the address of
  its node.\<close>

lemma check_node_refines:
  assumes "readable h (n_addr n)" and "readable h (n_netmask n)"
  shows "\<exists>h'. check_node addr subnet n h =
      bindR (check_interfaces addr subnet [if_view h n]) (\<lambda>m. Inr (m, h')) \<and>
    same_shape ({n_addr n} - {0}) h h'"
proof (cases "n_addr n = 0 \<or> n_netmask n = 0")
  case True
  then show ?thesis
    by (intro exI [of _ h]) (auto simp: check_node_def if_view_def split: option.split)
next
  case False
  with assms obtain ia nm where ia: "read_sockaddr h (n_addr n) = Inr ia" "addr_view h (n_addr n) = Some ia"
    and nm: "read_sockaddr h (n_netmask n) = Inr nm" "addr_view h (n_netmask n) = Some nm"
    by (metis readable_read)
  from assms(1) False obtain bs where bs: "h (n_addr n) = Some (Bytes bs)" by (auto simp: readable_def)
  show ?thesis
  proof (cases "sa_family addr = sa_family ia \<and> subnet")
    case True
    let ?h = "case sockaddr_mask ia nm of Inl e \<Rightarrow> h | Inr i \<Rightarrow> store_data (n_addr n) i h"
    have "same_shape ({n_addr n} - {0}) h ?h"
      using False same_shape_store [where h = h and p = "n_addr n", OF bs] by (simp split: sum.split)
    then show ?thesis
      by (intro exI [of _ ?h])
        (use True False ia nm in \<open>auto simp: check_node_def if_view_def Let_def bindR_def
          split: sum.split\<close>)
  next
    case other: False
    show ?thesis
      by (rule exI [of _ h])
        (use other False ia nm in \<open>auto simp: check_node_def if_view_def Let_def bindR_def split: sum.split\<close>)
  qed
qed

definition readable_list :: "heap \<Rightarrow> (nat \<times> ifnode) list \<Rightarrow> bool" where
  "readable_list h ns \<longleftrightarrow>
     (\<forall>c \<in> set ns. readable h (n_addr (snd c)) \<and> readable h (n_netmask (snd c)))"

lemma addr_cells:
  assumes "c \<in> set ns"
  shows "n_addr (snd c) = 0 \<or> n_addr (snd c) \<in> set (cells ns)"
    and "n_netmask (snd c) = 0 \<or> n_netmask (snd c) \<in> set (cells ns)"
proof -
  have sub: "set (members (snd c)) \<subseteq> set (cells ns)" using assms by (auto simp: cells_def)
  show "n_addr (snd c) = 0 \<or> n_addr (snd c) \<in> set (cells ns)"
    using subsetD [OF sub, of "n_addr (snd c)"] by (cases "n_addr (snd c) = 0") (simp_all add: members_def)
  show "n_netmask (snd c) = 0 \<or> n_netmask (snd c) \<in> set (cells ns)"
    using subsetD [OF sub, of "n_netmask (snd c)"]
    by (cases "n_netmask (snd c) = 0") (simp_all add: members_def)
qed

text \<open>A list whose cells are not touched looks the same.\<close>

lemma untouched_views:
  assumes "same_shape A h h'" and "\<forall>x \<in> A. x \<noteq> 0 \<and> x \<notin> set (cells ns)"
  shows "map (\<lambda>c. if_view h' (snd c)) ns = map (\<lambda>c. if_view h (snd c)) ns"
    and "readable_list h ns \<Longrightarrow> readable_list h' ns"
proof -
  have "x = 0 \<or> x \<in> set (cells ns) \<Longrightarrow> h' x = h x" for x
    using assms unfolding same_shape_def by metis
  then have "h' (n_addr (snd c)) = h (n_addr (snd c)) \<and> h' (n_netmask (snd c)) = h (n_netmask (snd c))"
    if "c \<in> set ns" for c
    using addr_cells [OF that] by simp
  then show "map (\<lambda>c. if_view h' (snd c)) ns = map (\<lambda>c. if_view h (snd c)) ns"
      "readable_list h ns \<Longrightarrow> readable_list h' ns"
    by (simp_all add: if_view_def addr_view_def readable_list_def readable_def)
qed

lemma check_list_refines:
  assumes "if_list h p ns" and "distinct (cells ns)" and "readable_list h ns"
  shows "\<exists>h'. check_list addr subnet p h =
      Some (bindR (check_interfaces addr subnet (map (\<lambda>c. if_view h (snd c)) ns)) (\<lambda>m. Inr (m, h'))) \<and>
    same_shape (set (cells ns)) h h'"
  using assms
proof (induction ns arbitrary: p h)
  case Nil
  then show ?case by (intro exI [of _ h], subst check_list.simps) simp
next
  case (Cons c ns)
  obtain a n where c: "c = (a, n)" by fastforce
  define one where "one = check_interfaces addr subnet [if_view h n]"
  from Cons.prems c have node: "p = a" "a \<noteq> 0" "read_node h a = Inr n" "if_list h (n_next n) ns"
      "distinct (cells ns)" "readable_list h ns"
    by (auto simp: read_node_def readable_list_def)
  from Cons.prems(3) c obtain h1 where
    h1: "check_node addr subnet n h = bindR one (\<lambda>m. Inr (m, h1))" "same_shape ({n_addr n} - {0}) h h1"
    using check_node_refines [of h n addr subnet] unfolding one_def readable_list_def
    by (metis list.set_intros(1) snd_conv)
  have "set [n_addr n] - {0} \<subseteq> set (members n)" by (auto simp: members_def)
  then have own: "{n_addr n} - {0} \<subseteq> set (cells (c # ns))"
      "\<forall>x \<in> {n_addr n} - {0}. x \<noteq> 0 \<and> x \<notin> set (cells ns)"
    using Cons.prems(2) c by auto
  note sh = same_shape_mono [OF h1(2) own(1)]
  have step: "check_list addr subnet p h = (case one of Inl e \<Rightarrow> Some (Inl e)
      | Inr m \<Rightarrow> if m then Some (Inr (True, h1)) else check_list addr subnet (n_next n) h1)"
    using node h1(1) by (subst check_list.simps) (simp add: bindR_def split: sum.split)
  have all: "check_interfaces addr subnet (map (\<lambda>c. if_view h (snd c)) (c # ns)) =
      bindR one (\<lambda>m. if m then Inr True
        else check_interfaces addr subnet (map (\<lambda>c. if_view h (snd c)) ns))"
    unfolding one_def c list.map snd_conv by (rule check_interfaces_Cons)
  show ?case
  proof (cases "one = Inr False")
    case False
    then show ?thesis
      using sh by (intro exI [of _ h1]) (auto simp: step all bindR_def simp del: list.map split: sum.split)
  next
    case True
    from Cons.IH [OF same_shape_if_list [OF sh node(4)] node(5) untouched_views(2) [OF h1(2) own(2) node(6)]]
    obtain h' where "check_list addr subnet (n_next n) h1 =
        Some (bindR (check_interfaces addr subnet (map (\<lambda>c. if_view h (snd c)) ns)) (\<lambda>m. Inr (m, h')))"
      "same_shape (set (cells ns)) h1 h'"
      unfolding untouched_views(1) [OF h1(2) own(2)] by blast
    with same_shape_trans [OF sh this(2)] show ?thesis
      by (intro exI [of _ h']) (auto simp: step all True simp del: list.map)
  qed
qed

lemma check_source_heap_refines:
  assumes "if_list h p ns" and "distinct (cells ns)" and "\<forall>x \<in> set (cells ns). h x \<noteq> None"
    and "readable_list h ns"
  shows "check_source_heap addr subnet p h =
    Some (bindR (check_source addr subnet (Some (map (\<lambda>c. if_view h (snd c)) ns)))
      (\<lambda>m. Inr (m, without (set (cells ns)) h)))"
proof -
  from check_list_refines [OF assms(1,2,4)] obtain h' where
    h': "check_list addr subnet p h = Some (bindR (check_interfaces addr subnet
        (map (\<lambda>c. if_view h (snd c)) ns)) (\<lambda>m. Inr (m, h')))"
      "same_shape (set (cells ns)) h h'" by blast
  have "freeifaddrs p h' = Some (Inr (without (set (cells ns)) h'))"
    using assms(2,3) same_shape_if_list [OF h'(2) assms(1)] same_shape_dom [OF h'(2)]
    by (intro freeifaddrs_frees) auto
  moreover have "without (set (cells ns)) h' = without (set (cells ns)) h"
    using h'(2) by (auto simp: without_def same_shape_def)
  ultimately show ?thesis
    using h'(1)
    by (cases "check_interfaces addr subnet (map (\<lambda>c. if_view h (snd c)) ns)")
      (simp_all add: check_source_heap_def check_source_def)
qed

section \<open>The interface between the check and its list\<close>

text \<open>
  What \<open>check_source\<close> needs of the function that gives it the interfaces: a heap to which a
  well-formed list with readable addresses was added, and nothing else.
\<close>

locale interface_source =
  fixes provides :: "heap \<Rightarrow> nat \<Rightarrow> heap \<Rightarrow> bool"
  assumes provides_list: "provides h0 p h \<Longrightarrow> \<exists>ns. if_list h p ns \<and> distinct (cells ns) \<and>
      (\<forall>x \<in> set (cells ns). h x \<noteq> None) \<and> readable_list h ns \<and> without (set (cells ns)) h = h0"
begin

lemma check_on_list:
  assumes "provides h0 p h"
  shows "\<exists>ns. if_list h p ns \<and> check_source_heap addr subnet p h =
    Some (bindR (check_source addr subnet (Some (map (\<lambda>c. if_view h (snd c)) ns))) (\<lambda>m. Inr (m, h0)))"
  using provides_list [OF assms] check_source_heap_refines by metis

end

lemma shows_if_readable:
  assumes "list_all2 (\<lambda>nm c. shows_if sz fd l nm h (snd c)) names ns" and "2 \<le> sizeof_storage sz"
  shows "readable_list h ns"
proof -
  have "answered sz fd l f nm h p \<Longrightarrow> readable h p" for f nm p
    using assms(2) by (auto simp: answered_def readable_def)
  then have "shows_if sz fd l nm h n \<Longrightarrow> readable h (n_addr n) \<and> readable h (n_netmask n)" for nm n
    unfolding shows_if_def by blast
  with assms(1) show ?thesis
    unfolding readable_list_def by (metis in_set_conv_nth list_all2_conv_all_nth)
qed

text \<open>The replacement of \<open>getifaddrs\<close>, with any kernel, is such a function.\<close>

definition own_list :: "'k ifos \<Rightarrow> sizes \<Rightarrow> byte list \<Rightarrow> heap \<Rightarrow> nat \<Rightarrow> heap \<Rightarrow> bool" where
  "own_list os sz junk h0 p h \<longleftrightarrow>
     length junk = sizeof_buff \<and> IFNAMSIZ \<le> sizeof_ifreq sz \<and> 2 \<le> sizeof_storage sz \<and>
     (\<exists>s s'. getifaddrs os sz junk s = Some (Inr (0, p, s')) \<and> heap s = h0 \<and> heap s' = h)"

lemma own_list_provides:
  assumes "own_list os sz junk h0 p h"
  shows "\<exists>ns. if_list h p ns \<and> distinct (cells ns) \<and> (\<forall>x \<in> set (cells ns). h x \<noteq> None) \<and>
    readable_list h ns \<and> without (set (cells ns)) h = h0"
proof -
  from assms obtain s s' where s: "getifaddrs os sz junk s = Some (Inr (0, p, s'))"
      "length junk = sizeof_buff" "IFNAMSIZ \<le> sizeof_ifreq sz" "2 \<le> sizeof_storage sz"
      "heap s = h0" "heap s' = h"
    by (auto simp: own_list_def)
  from getifaddrs_result [OF s(1-3)] obtain fd bs lastif ns where
    b: "built sz fd (if_log s') (rev (conf_names sz bs)) h0 h p lastif ns" by (auto simp: s)
  moreover from this have "readable_list h ns" by (auto simp: built_def intro: shows_if_readable [OF _ s(4)])
  moreover from b have "without (set (cells ns)) h = h0" by (auto simp: built_def without_def)
  ultimately show ?thesis unfolding built_def by blast
qed

interpretation own: interface_source "own_list os sz junk" for os sz junk
  by unfold_locales (rule own_list_provides)


section \<open>Properties\<close>

text \<open>C26: On a system without its own \<open>getifaddrs\<close>, the access check computes the answer of
  \<open>check_source\<close> on the interfaces of the list, although it masks their addresses in
  place; it always returns, and it leaves the heap as it was before \<open>getifaddrs\<close>.\<close>

theorem check_source_on_own_list:
  assumes "getifaddrs os sz junk s = Some (Inr (0, p, s'))"
    and "length junk = sizeof_buff" and "IFNAMSIZ \<le> sizeof_ifreq sz" and "2 \<le> sizeof_storage sz"
  shows "\<exists>ns. if_list (heap s') p ns \<and>
    check_source_heap addr subnet p (heap s') =
      Some (bindR (check_source addr subnet (Some (map (\<lambda>c. if_view (heap s') (snd c)) ns)))
        (\<lambda>m. Inr (m, heap s)))"
proof (rule own.check_on_list)
  show "own_list os sz junk (heap s) p (heap s')" using assms by (auto simp: own_list_def)
qed

theorem check_source_on_own_list_witness:
  "\<exists>s' ns. getifaddrs sample_kernel sample_sizes (replicate 8192 0) (sample_ifsys False) =
      Some (Inr (0, 100, s')) \<and> if_list (heap s') 100 ns \<and>
    check_source_heap \<lparr>sa_family = 2, sa_data = [0, 80, 10, 9, 9, 9] @ replicate 8 0\<rparr> True 100 (heap s') =
      Some (bindR (check_source \<lparr>sa_family = 2, sa_data = [0, 80, 10, 9, 9, 9] @ replicate 8 0\<rparr> True
          (Some (map (\<lambda>c. if_view (heap s') (snd c)) ns)))
        (\<lambda>m. Inr (m, \<lambda>x. None)))"
proof -
  obtain s' where s': "getifaddrs sample_kernel sample_sizes (replicate 8192 0) (sample_ifsys False) =
      Some (Inr (0, 100, s'))" using sample_getifaddrs by blast
  have h: "heap (sample_ifsys False) = (\<lambda>x. None)" by (simp add: sample_ifsys_def)
  have sz: "length (replicate 8192 (0 :: byte)) = 8192" "16 \<le> sizeof_ifreq sample_sizes"
      "2 \<le> sizeof_storage sample_sizes" by (simp_all add: sample_sizes_def)
  from check_source_on_own_list [OF s' sz, of "\<lparr>sa_family = 2,
      sa_data = [0, 80, 10, 9, 9, 9] @ replicate 8 0\<rparr>" True] s'
  show ?thesis unfolding h by blast
qed

end
