(* ===== verification/Usage.thy ===== *)
theory Usage
  imports Build_Options Getopt
begin

text \<open>
  The help text of \<^verbatim>\<open>src/relay/udtrelay.cpp\<close>, the variable \<open>usage\<close> of \<open>main\<close>, as the
  preprocessor puts it together for a build, and a reader of it that lists the options it
  describes. The theorems compare the text with the program: with the option string given to
  \<open>getopt\<close>, and with the cases of the option loop; and they say that a command line written with
  the options of the text is read as it was meant.
\<close>


section \<open>The text\<close>

text \<open>The lines of the text. The line of \<open>-A\<close> goes on in a literal that is outside of its
  \<open>#ifdef\<close>.\<close>

definition usage_lines :: "build \<Rightarrow> string list" where
  "usage_lines bld =
    ['''',
     '''',
     ''usage:'',
     '''',
     ''udtrelay [OPTIONS] <socks_port> <peer_port> <peer_addr[:port]>  '',
     '''',
     ''  <socks_port>       TCP ports to listen for incomming client socks connections.'',
     ''  <peer_port>        UDT/UDP port to use for incomming peer UDT connections.'',
     ''                     The same peer port  number is used for outgoing UDT'',
     ''                     connections by default'',
     '''',
     ''  <peer_addr[:port]> Remote UDT peer address and optional custom remote port.'',
     '''',
     ''  OPTIONS: '',
     ''    -h               Show this help and exit.'',
     ''    -d               Encrease debug level, superset of -L.'',
     ''    -X <len>         dump fisrt <len> bytes as ASCII from each message.'',
     ''                     this option also sets maximal debug level.'',
     ''                     if debug level was set to 3 than default value of'',
     ''                     this option is 20'',
     ''    -D               Demonize.'',
     ''    -L               Log connections'',
     ''    -N               Allow connections from/to attached subnets '',
     ''                     (by default only connections from/to local device'',
     ''                     are permited);'',
     ''                     appling this option twice - allows all incoming'',
     ''                     and outgoing coonections.'',
     (if UDT_ACL_OPTION bld
      then ''    -A <acl>         (-) Setup custom access control list for incoming '' else '''') @
     ''                     connections, see README.udtrelay for details.'',
     ''    -C               Client-only mode: don't accept incoming peer/UDT'',
     ''                     connections.'',
     ''    -S               Server-only mode: don't accept outgoing socks'',
     ''                     connections.'',
     ''    -R <lp>[:<rp>]   Turn the rendezvous mode on.'',
     ''                     * UDT peer client allocates <lp> port and tries'',
     ''                       to connect to the servers's <peer_port>'',
     ''                     * UDT peer server allocates <peer_port> and tries'',
     ''                       to connect to the clinet's <rp> port which is '',
     ''                       by default equals to <lp>.''] @
    (if UDP_BASEPORT_OPTION bld
     then [''    -P <from:to>     UDP port range to use for UDT data chanel.''] else []) @
    (if UDT_CCC_OPTION bld
     then [''    -c <ccc>         Congetion control class:'',
           ''                       UDT (default), TCP, Vegas, ScalableTCP, HSTCP,'',
           ''                       BiCTCP, Westwood, FAST.''] else []) @
    [''    -U <opt=val>     Set some additional UDT options for UDT socket:'',
     ''                       UDT_MSS, UDT_RCVBUF, UDT_SNDBUF, UDP_RCVBUF or'',
     ''                       UDP_SNDBUF.'',
     ''                     Quantifiers K(ilo) and M(ega) are accepted as '',
     ''                     suffixes.'',
     '''',
     ''  Options marked with (-) have not been yet implemented.'']"

definition newline :: char where
  "newline = CHR 0x0A"

definition usage :: "build \<Rightarrow> string" where
  "usage bld = concat (map (\<lambda>l. l @ [newline]) (usage_lines bld))"


abbreviation plain_build :: build where
  "plain_build \<equiv> \<lparr>UDT_ACL_OPTION = False, UDP_BASEPORT_OPTION = False, UDT_CCC_OPTION = False\<rparr>"


section \<open>Reading the text\<close>

text \<open>The lines of a text, each ended by a newline.\<close>

fun text_lines :: "string \<Rightarrow> string list" where
  "text_lines [] = []"
| "text_lines (c # cs) =
     (if c = newline then '''' # text_lines cs
      else case text_lines cs of [] \<Rightarrow> [[c]] | l # ls \<Rightarrow> (c # l) # ls)"

text \<open>A line describes an option if it begins with four blanks, a dash, a letter and a blank;
  a bracket after these shows an argument.\<close>

definition option_line :: "string \<Rightarrow> (char \<times> bool) option" where
  "option_line l =
     (if 7 \<le> length l \<and> take 5 l = ''    -'' \<and> l ! 6 = CHR '' ''
      then Some (l ! 5, 7 < length l \<and> l ! 7 = CHR ''<'') else None)"

definition described :: "string \<Rightarrow> (char \<times> bool) list" where
  "described txt = map the (filter (\<lambda>x. x \<noteq> None) (map option_line (text_lines txt)))"

lemma text_lines_line:
  "newline \<notin> set l \<Longrightarrow> text_lines (l @ newline # rest) = l # text_lines rest"
  by (induction l) auto

lemma text_lines_concat:
  "\<forall>l \<in> set ls. newline \<notin> set l \<Longrightarrow> text_lines (concat (map (\<lambda>l. l @ [newline]) ls)) = ls"
  by (induction ls) (simp_all add: text_lines_line)

text \<open>There are eight builds.\<close>

lemma build_cases:
  obtains a b c where "bld = \<lparr>UDT_ACL_OPTION = a, UDP_BASEPORT_OPTION = b, UDT_CCC_OPTION = c\<rparr>"
    and "a = True \<or> a = False" and "b = True \<or> b = False" and "c = True \<or> c = False"
  by (cases bld) auto

lemma usage_lines_no_newline: "\<forall>l \<in> set (usage_lines bld). newline \<notin> set l"
  by (rule build_cases [of bld]) (elim disjE; hypsubst; code_simp)

lemma usage_text_lines: "text_lines (usage bld) = usage_lines bld"
  unfolding usage_def using usage_lines_no_newline by (rule text_lines_concat)

text \<open>The options that the text of a build describes.\<close>

lemma described_usage:
  "described (usage bld) =
    [(CHR ''h'', False), (CHR ''d'', False), (CHR ''X'', True), (CHR ''D'', False), (CHR ''L'', False),
     (CHR ''N'', False)] @
    (if UDT_ACL_OPTION bld then [(CHR ''A'', True)] else []) @
    [(CHR ''C'', False), (CHR ''S'', False), (CHR ''R'', True)] @
    (if UDP_BASEPORT_OPTION bld then [(CHR ''P'', True)] else []) @
    (if UDT_CCC_OPTION bld then [(CHR ''c'', True)] else []) @
    [(CHR ''U'', True)]"
  unfolding described_def usage_text_lines
  by (rule build_cases [of bld]) (elim disjE; hypsubst; code_simp)


section \<open>What the options do\<close>

text \<open>An option letter has an effect in a build if some argument of it, at some point of the
  command line, does not just leave the variables as they are.\<close>

definition has_effect :: "build \<Rightarrow> char \<Rightarrow> bool" where
  "has_effect bld c \<longleftrightarrow>
     (\<exists>optarg st. handle_option_built (\<lambda>t e. (True, t)) () bld c optarg st \<noteq> Some (Inr st))"

lemma has_effectI:
  "handle_option_built (\<lambda>t e. (True, t)) () bld c optarg st \<noteq> Some (Inr st) \<Longrightarrow> has_effect bld c"
  by (auto simp: has_effect_def)

text \<open>The letters with a case in the switch of the build.\<close>

definition cased :: "build \<Rightarrow> string" where
  "cased bld = ''hNdXDLCSRU'' @ (if UDT_ACL_OPTION bld then ''A'' else '''') @
     (if UDP_BASEPORT_OPTION bld then ''P'' else '''') @ (if UDT_CCC_OPTION bld then ''c'' else '''')"

text \<open>Arguments that each of them refuses.\<close>

lemma no_argument:
  "atoi '''' = 0" "rendezvous_ports '''' r = Inl (Exited 1)"
  "parse_udt_option '''' u = Inl (Fault Out_of_bounds)" "baseport_option '''' = Inl (Exited 1)"
  "ccc_option ''x'' = Inl (Exited 1)"
proof -
  have "scan_int '''' = None" by code_simp
  then show "atoi '''' = 0" "baseport_option '''' = Inl (Exited 1)"
    by (simp_all add: atoi_def baseport_option_def port_range_def)
  show "ccc_option ''x'' = Inl (Exited 1)" by code_simp
qed (simp_all add: rendezvous_ports_def parse_udt_option_def)

lemma cased_has_effect:
  assumes "c \<in> set (cased bld)"
  shows "has_effect bld c"
proof -
  define st where "st = initial_built\<lparr>b_options := initial_options\<lparr>o_mode := SERVER\<rparr>\<rparr>"
  obtain out n where A: "acl_option (\<lambda>t e. (True, t)) () '''' = Some (out, n)"
    using acl_option_stops [of "\<lambda>t e. (True, t)" "()" "''''"] by auto
  have "handle_option_built (\<lambda>t e. (True, t)) () bld c '''' st \<noteq> Some (Inr st) \<or>
      handle_option_built (\<lambda>t e. (True, t)) () bld c ''x'' st \<noteq> Some (Inr st)"
    using assms
    by (auto simp: cased_def handle_option_built_def handle_option_def st_def initial_built_def
        initial_options_def A no_argument Let_def split: if_splits)
  then show ?thesis by (blast intro: has_effectI)
qed

lemma uncased_no_effect:
  assumes "c \<notin> set (cased bld)" and "c \<noteq> CHR ''?''"
  shows "\<not> has_effect bld c"
proof -
  have "handle_option_built (\<lambda>t e. (True, t)) () bld c optarg st = Some (Inr st)" for optarg st
    using assms by (auto simp: cased_def handle_option_built_def handle_option_def)
  then show ?thesis by (simp add: has_effect_def)
qed

lemma described_cased: "fst ` set (described (usage bld)) = set (cased bld)"
  unfolding described_usage cased_def
  by (cases "UDT_ACL_OPTION bld"; cases "UDP_BASEPORT_OPTION bld"; cases "UDT_CCC_OPTION bld";
      simp add: insert_commute)


section \<open>Writing a command line\<close>

text \<open>What \<open>getopt\<close> knows of an option of the text.\<close>

lemma described_kind:
  "(c, arg) \<in> set (described (usage bld)) \<Longrightarrow> letter_kind optstring c = (if arg then With_arg else Flag)"
proof -
  have "\<forall>(c, arg) \<in> set (described (usage bld)). letter_kind optstring c = (if arg then With_arg else Flag)"
    unfolding described_usage by (auto simp: optstring_def)
  then show "(c, arg) \<in> set (described (usage bld)) \<Longrightarrow> letter_kind optstring c = (if arg then With_arg else Flag)"
    by blast
qed

lemma described_no_dash: "(CHR ''-'', arg) \<notin> set (described (usage bld))"
  using described_kind [of "CHR ''-''" arg bld] by (auto split: if_splits)

text \<open>The ways to write options that the help text of a build describes: each in a word of its own,
  an argument as the next word or in the word of its letter, and letters without an argument in
  front of others in their word. Only the text says which options there are and which of them
  have an argument.\<close>

inductive written :: "build \<Rightarrow> (char \<times> string) list \<Rightarrow> string list \<Rightarrow> bool" for bld :: build where
  nothing: "written bld [] []"
| flag: "(c, False) \<in> set (described (usage bld)) \<Longrightarrow> written bld opts ws \<Longrightarrow>
    written bld ((c, '''') # opts) ([CHR ''-'', c] # ws)"
| argument: "(c, True) \<in> set (described (usage bld)) \<Longrightarrow> written bld opts ws \<Longrightarrow>
    written bld ((c, arg) # opts) ([CHR ''-'', c] # arg # ws)"
| attached: "(c, True) \<in> set (described (usage bld)) \<Longrightarrow> arg \<noteq> '''' \<Longrightarrow> written bld opts ws \<Longrightarrow>
    written bld ((c, arg) # opts) ((CHR ''-'' # c # arg) # ws)"
| cluster: "(c, False) \<in> set (described (usage bld)) \<Longrightarrow> written bld opts ((CHR ''-'' # w) # ws) \<Longrightarrow>
    written bld ((c, '''') # opts) ((CHR ''-'' # c # w) # ws)"

lemma written_first: "written bld opts (x # ws) \<Longrightarrow> \<exists>c w. x = CHR ''-'' # c # w \<and> c \<noteq> CHR ''-''"
  by (erule written.cases) (use described_no_dash in auto)

lemma getopt_written:
  "written bld opts ws \<Longrightarrow> getopt_words permute optstring (ws @ rest) =
    (opts @ fst (getopt_words permute optstring rest), snd (getopt_words permute optstring rest))"
proof (induction rule: written.induct)
  case (cluster c opts w ws)
  from written_first [OF cluster(2)] have "is_option_word (CHR ''-'' # w)" "CHR ''-'' # w \<noteq> ''--''"
    by (auto simp: is_option_word_def)
  with cluster(3) described_kind [OF cluster(1)] show ?case
    by (auto simp: is_option_word_def split: prod.splits)
qed (use described_kind described_no_dash in \<open>auto simp: is_option_word_def split: prod.splits\<close>)


section \<open>Properties\<close>

text \<open>C22: In every build, options that the help text describes are read as they were meant, in
  whichever of the usual ways they are written, on every C library: \<open>getopt\<close> yields exactly
  these options with their arguments, and leaves exactly the words that follow, if none of
  them looks like an option or \<open>--\<close> comes before them. So \<open>main\<close>, here of the build without
  additional options, goes on with this command line.\<close>

theorem command_words_as_written:
  assumes "written bld opts ws"
  shows "((\<forall>w \<in> set args. \<not> is_option_word w) \<longrightarrow>
      getopt_words permute optstring (ws @ args) = (opts, args) \<and>
      (bld = plain_build \<longrightarrow> command_words os permute (ws @ args) s = command_line os opts args s)) \<and>
    getopt_words permute optstring (ws @ ''--'' # args) = (opts, args) \<and>
    (bld = plain_build \<longrightarrow> command_words os permute (ws @ ''--'' # args) s = command_line os opts args s)"
proof -
  have "is_option_word ''--''" by (simp add: is_option_word_def)
  then have "getopt_words permute optstring args = ([], args)"
    if "\<forall>w \<in> set args. \<not> is_option_word w"
    using that by (intro getopt_operands) blast
  then show ?thesis by (simp add: command_words_def getopt_written [OF assms])
qed

theorem command_words_as_written_witness:
  "command_words script True [''-NX40'', ''-R'', ''9001'', ''-C'', ''1081'', ''9000'', ''site2''] (start [Ret 0]) =
     command_line script [(CHR ''N'', ''''), (CHR ''X'', ''40''), (CHR ''R'', ''9001''), (CHR ''C'', '''')]
       [''1081'', ''9000'', ''site2''] (start [Ret 0])"
proof -
  have "written plain_build [(CHR ''N'', ''''), (CHR ''X'', ''40''), (CHR ''R'', ''9001''), (CHR ''C'', '''')]
      [''-NX40'', ''-R'', ''9001'', ''-C'']"
    by (intro written.cluster written.attached written.argument written.flag written.nothing)
      (simp_all add: described_usage)
  from command_words_as_written [OF this, of "[''1081'', ''9000'', ''site2'']" True script "start [Ret 0]"]
  show ?thesis by (simp add: is_option_word_def)
qed

text \<open>C23: In every build, the help text shows an option with an argument exactly when \<open>getopt\<close>
  is told that it has one, and of the letters that \<open>getopt\<close> accepts it describes exactly
  those that do something; the others, such as \<open>-B\<close>, are accepted and ignored.\<close>

theorem usage_describes_options:
  "(\<forall>(c, arg) \<in> set (described (usage bld)). letter_kind optstring c = (if arg then With_arg else Flag)) \<and>
   (\<forall>c. letter_kind optstring c \<noteq> Unknown_opt \<longrightarrow>
      (c \<in> fst ` set (described (usage bld)) \<longleftrightarrow> has_effect bld c))"
proof (intro conjI allI impI)
  show "\<forall>(c, arg) \<in> set (described (usage bld)). letter_kind optstring c = (if arg then With_arg else Flag)"
    using described_kind by blast
next
  fix c
  assume "letter_kind optstring c \<noteq> Unknown_opt"
  then have "c \<noteq> CHR ''?''" by (auto simp: optstring_def)
  then show "c \<in> fst ` set (described (usage bld)) \<longleftrightarrow> has_effect bld c"
    unfolding described_cased by (metis cased_has_effect uncased_no_effect)
qed

theorem usage_describes_options_witness:
  "(CHR ''X'', True) \<in> set (described (usage plain_build)) \<and> letter_kind optstring (CHR ''X'') = With_arg \<and>
   has_effect plain_build (CHR ''X'') \<and>
   letter_kind optstring (CHR ''B'') = With_arg \<and> \<not> has_effect plain_build (CHR ''B'')"
proof -
  note u = usage_describes_options [of plain_build]
  have X: "(CHR ''X'', True) \<in> set (described (usage plain_build))"
    and B: "CHR ''B'' \<notin> fst ` set (described (usage plain_build))"
    by (simp_all add: described_usage)
  have kX: "letter_kind optstring (CHR ''X'') = With_arg"
    using conjunct1 [OF u, rule_format, OF X] by simp
  have kB: "letter_kind optstring (CHR ''B'') = With_arg" by (simp add: optstring_def)
  have "has_effect plain_build (CHR ''X'')"
    using conjunct2 [OF u, rule_format, of "CHR ''X''"] kX image_eqI [OF _ X, of _ fst] by simp
  moreover have "\<not> has_effect plain_build (CHR ''B'')"
    using conjunct2 [OF u, rule_format, of "CHR ''B''"] kB B by simp
  ultimately show ?thesis using X kX kB by blast
qed

text \<open>Without \<open>UDT_ACL_OPTION\<close> the second half of the line of \<open>-A\<close> is left over, and reads as if
  it went on about \<open>-N\<close>.\<close>

lemma usage_left_over:
  "\<not> UDT_ACL_OPTION bld \<Longrightarrow>
    take 2 (drop 26 (text_lines (usage bld))) =
      [''                     and outgoing coonections.'',
       ''                     connections, see README.udtrelay for details.'']"
  unfolding usage_text_lines by (simp add: usage_lines_def)

end
