(* ===== verification/Process_Group.thy ===== *)
theory Process_Group
  imports Startup
begin

text \<open>
  The processes of \<^verbatim>\<open>src/relay/udtrelay.cpp\<close> and the signals between them: the parent forks the
  servers, installs \<open>exit_handler\<close> for three signals, waits, and ends the group. \<open>Startup\<close>
  follows the parent alone, with the answers of the kernel taken from the environment; here
  the parent, its servers and their signals are one transition system, in which signals
  arrive at any point, also inside of the handler. Messages are left out.

  What the kernel does is the documented behaviour of POSIX, with the \<open>signal\<close> of the BSDs and
  of the GNU library: a signal is blocked while its own handler runs, a pending signal is kept
  once, \<open>kill\<close> delivers a signal to its caller before it returns, and the disposition of a
  signal that no handler is installed for is to end the process, also in the servers, which
  were forked before. Which signals are sent to the parent is a parameter of the system. The group consists of the parent and its servers, since the parent made
  itself its leader (\<open>setpgid\<close>) before it forked them.
\<close>


section \<open>State\<close>

text \<open>A server works, or has \<open>SIGTERM\<close> pending, or has ended and was not waited for.\<close>

datatype status = Up | Told | Dead

text \<open>Where the parent is: in front of the forks, with the signals to install, in \<open>wait\<close>, back
  from it, or at one of the four statements of \<open>exit_handler\<close>.\<close>

datatype statement = Logging | Killing | Reaping | Dying

datatype point =
    Forking "mode list"
  | Installing "int list"
  | Waiting
  | Reporting int
  | Handler int statement

datatype ending = Exit int | Killed int

text \<open>\<open>stack\<close> has the innermost handler first; it is empty once the parent has ended.\<close>

record group =
  stack :: "point list"
  traps :: "int list"
  pending :: "int list"
  servers :: "(int \<times> status) list"
  ended :: "ending option"

abbreviation (input) SIGINT :: int where "SIGINT \<equiv> 2"
abbreviation (input) SIGQUIT :: int where "SIGQUIT \<equiv> 3"
abbreviation (input) SIGCHLD :: int where "SIGCHLD \<equiv> 17"

abbreviation (input) SIGHUP :: int where "SIGHUP \<equiv> 1"

text \<open>The signals that the parent installs its handler for.\<close>

definition signals :: "int list" where
  "signals = [SIGTERM, SIGINT, SIGQUIT]"

text \<open>The signals by which a program is asked to end: \<open>kill\<close> without an option, and the interrupt and
  quit keys. This is a list of its own, it does not follow what the program handles.\<close>

definition stop_signals :: "int list" where
  "stop_signals = [SIGINT, SIGQUIT, SIGTERM]"

fun to_fork :: "mode \<Rightarrow> mode list" where
  "to_fork DUAL = [SERVER, CLIENT]"
| "to_fork m = [m]"

definition group_start :: "mode \<Rightarrow> group \<Rightarrow> bool" where
  "group_start m g \<longleftrightarrow>
     g = \<lparr>stack = [Forking (to_fork m)], traps = [], pending = [], servers = [], ended = None\<rparr>"

text \<open>The signals whose handlers are running, which are blocked.\<close>

fun handled :: "point list \<Rightarrow> int list" where
  "handled [] = []"
| "handled (Handler sig w # ps) = sig # handled ps"
| "handled (p # ps) = handled ps"

fun tell :: "int \<times> status \<Rightarrow> int \<times> status" where
  "tell (pid, Up) = (pid, Told)"
| "tell (pid, st) = (pid, st)"

definition ends :: "ending \<Rightarrow> group \<Rightarrow> group" where
  "ends e g = g\<lparr>stack := [], ended := Some e\<rparr>"

text \<open>A signal reaches the parent: its handler starts, or it ends the process.\<close>

definition deliver :: "int \<Rightarrow> group \<Rightarrow> group" where
  "deliver sig g =
     (if sig \<in> set (traps g)
      then g\<lparr>stack := Handler sig Logging # stack g, pending := removeAll sig (pending g)\<rparr>
      else ends (Killed sig) g)"

text \<open>\<open>kill(0, SIGTERM)\<close>: the servers, and the parent itself.\<close>

definition kill_group :: "group \<Rightarrow> group" where
  "kill_group g =
     (let g1 = g\<lparr>servers := map tell (servers g)\<rparr>
      in if SIGTERM \<in> set (handled (stack g)) then g1\<lparr>pending := List.insert SIGTERM (pending g)\<rparr>
         else deliver SIGTERM g1)"


section \<open>Steps\<close>

text \<open>
  What happens without outside help: the statements of the parent, the delivery of pending
  signals, and the end of a server that was told to. The call of \<open>exit_handler\<close> at the end of
  the loop takes the place of the statement that makes it, as it does not return.
\<close>

inductive forced :: "group \<Rightarrow> group \<Rightarrow> bool" where
  fork: "stack g = [Forking (m # ms)] \<Longrightarrow> 0 < pid \<Longrightarrow> pid \<notin> fst ` set (servers g) \<Longrightarrow>
    forced g (g\<lparr>stack := [Forking ms], servers := servers g @ [(pid, Up)]\<rparr>)"
| fork_fails: "stack g = [Forking (m # ms)] \<Longrightarrow> forced g (ends (Exit 1) g)"
| forked: "stack g = [Forking []] \<Longrightarrow> forced g (g\<lparr>stack := [Installing signals]\<rparr>)"
| install: "stack g = [Installing (sig # sigs)] \<Longrightarrow>
    forced g (g\<lparr>stack := [Installing sigs], traps := sig # traps g\<rparr>)"
| installed: "stack g = [Installing []] \<Longrightarrow> forced g (g\<lparr>stack := [Waiting]\<rparr>)"
| wait: "stack g = [Waiting] \<Longrightarrow> servers g = xs @ (pid, Dead) # ys \<Longrightarrow>
    forced g (g\<lparr>stack := [Reporting pid], servers := xs @ ys\<rparr>)"
| wait_fails: "stack g = [Waiting] \<Longrightarrow> servers g = [] \<Longrightarrow>
    forced g (g\<lparr>stack := [Reporting (-1)]\<rparr>)"
| report: "stack g = [Reporting pid] \<Longrightarrow>
    forced g (g\<lparr>stack := [Handler SIGCHLD Logging]\<rparr>)"
| log: "stack g = Handler sig Logging # ps \<Longrightarrow>
    forced g (g\<lparr>stack := Handler sig Killing # ps\<rparr>)"
| kill: "stack g = Handler sig Killing # ps \<Longrightarrow>
    forced g (kill_group (g\<lparr>stack := Handler sig Reaping # ps\<rparr>))"
| reap: "stack g = Handler sig Reaping # ps \<Longrightarrow> servers g = xs @ (pid, Dead) # ys \<Longrightarrow>
    forced g (g\<lparr>servers := xs @ ys\<rparr>)"
| reaped: "stack g = Handler sig Reaping # ps \<Longrightarrow> servers g = [] \<Longrightarrow>
    forced g (g\<lparr>stack := Handler sig Dying # ps\<rparr>)"
| die: "stack g = Handler sig Dying # ps \<Longrightarrow> forced g (ends (Exit 1) g)"
| signalled: "stack g \<noteq> [] \<Longrightarrow> sig \<in> set (pending g) \<Longrightarrow> sig \<notin> set (handled (stack g)) \<Longrightarrow>
    forced g (deliver sig g)"
| stopped: "servers g = xs @ (pid, Told) # ys \<Longrightarrow> forced g (g\<lparr>servers := xs @ (pid, Dead) # ys\<rparr>)"

text \<open>What the outside does: it sends a signal of \<open>S\<close> to the parent, handled or not, or a server
  ends by itself. The signals in \<open>S\<close> are of the kind that ends a process without a handler.\<close>

inductive outside :: "int set \<Rightarrow> group \<Rightarrow> group \<Rightarrow> bool" for S :: "int set" where
  arrives: "stack g \<noteq> [] \<Longrightarrow> sig \<in> S \<Longrightarrow> sig \<notin> set (pending g) \<Longrightarrow>
    outside S g (g\<lparr>pending := sig # pending g\<rparr>)"
| crashes: "servers g = xs @ (pid, Up) # ys \<Longrightarrow> outside S g (g\<lparr>servers := xs @ (pid, Dead) # ys\<rparr>)"

definition group_step :: "int set \<Rightarrow> group \<Rightarrow> group \<Rightarrow> bool" where
  "group_step S g g' \<longleftrightarrow> forced g g' \<or> outside S g g'"

inductive_cases forcedE: "forced g g'"
inductive_cases outsideE: "outside S g g'"

text \<open>The steps of a group that is only asked to end.\<close>

abbreviation asked_step :: "group \<Rightarrow> group \<Rightarrow> bool" where
  "asked_step \<equiv> group_step (set stop_signals)"


section \<open>Every run is short\<close>

fun point_work :: "point \<Rightarrow> nat" where
  "point_work (Forking ms) = 11 + 4 * length ms"
| "point_work (Installing sigs) = 7 + length sigs"
| "point_work Waiting = 6"
| "point_work (Reporting pid) = 5"
| "point_work (Handler sig Logging) = 4"
| "point_work (Handler sig Killing) = 3"
| "point_work (Handler sig Reaping) = 2"
| "point_work (Handler sig Dying) = 1"

fun status_work :: "status \<Rightarrow> nat" where
  "status_work Up = 3"
| "status_work Told = 2"
| "status_work Dead = 1"

definition signal_work :: "group \<Rightarrow> int \<Rightarrow> nat" where
  "signal_work g sig =
     (if sig \<in> set (handled (stack g)) then 0 else 6) + (if sig \<in> set (pending g) then 0 else 1)"

definition work :: "group \<Rightarrow> nat" where
  "work g = sum_list (map (status_work \<circ> snd) (servers g)) +
     (if ended g = None
      then sum_list (map point_work (stack g)) + sum_list (map (signal_work g) stop_signals) else 0)"

lemma signal_work_servers [simp]: "signal_work (g\<lparr>servers := ss\<rparr>) = signal_work g"
  by (simp add: fun_eq_iff signal_work_def)

lemma stop_signals_simps: "set stop_signals = {SIGTERM, SIGINT, SIGQUIT}" "distinct stop_signals"
  by (auto simp: stop_signals_def)

lemma work_Killed: "stack g \<noteq> [] \<Longrightarrow> ended g = None \<Longrightarrow> work (ends e g) < work g"
  by (cases "stack g"; cases "hd (stack g)" rule: point_work.cases) (auto simp: work_def ends_def)

text \<open>Starting a handler: the work of the handler is less than what its signal loses.\<close>

lemma work_deliver:
  assumes "ended g = None" and "stack g \<noteq> []" and "sig \<in> set stop_signals" and "sig \<notin> set (handled (stack g))"
  shows "work (deliver sig g) < work g"
proof (cases "sig \<in> set (traps g)")
  case True
  then show ?thesis
    using assms by (auto simp: work_def deliver_def stop_signals_def signal_work_def)
qed (use assms in \<open>simp add: deliver_def work_Killed\<close>)

lemma work_tell: "sum_list (map (status_work \<circ> snd \<circ> tell) ss) \<le> sum_list (map (status_work \<circ> snd) ss)"
proof -
  have "status_work (snd (tell x)) \<le> status_work (snd x)" for x by (cases x rule: tell.cases) auto
  then show ?thesis by (intro sum_list_mono) simp
qed

lemma work_kill_group:
  assumes "ended g = None" and "stack g \<noteq> []"
  shows "work (kill_group g) \<le> work g"
proof -
  define g1 where "g1 = g\<lparr>servers := map tell (servers g)\<rparr>"
  have g1: "work g1 \<le> work g"
    using work_tell [of "servers g"]
    by (simp add: work_def g1_def comp_assoc)
  show ?thesis
  proof (cases "SIGTERM \<in> set (handled (stack g))")
    case True
    then have "work (kill_group g) \<le> work g1"
      by (simp add: kill_group_def g1_def work_def signal_work_def stop_signals_def)
    with g1 show ?thesis by simp
  next
    case False
    then have "work (kill_group g) = work (deliver SIGTERM g1)"
      by (simp add: kill_group_def g1_def)
    moreover have "work (deliver SIGTERM g1) < work g1"
      using assms False by (intro work_deliver) (simp_all add: g1_def stop_signals_def)
    ultimately show ?thesis using g1 by simp
  qed
qed

text \<open>The invariant of the group. Only handlers are on top of another point; a handler that
  waits for the servers has told all of them, and one that exits has none left.\<close>

fun is_handler :: "point \<Rightarrow> bool" where
  "is_handler (Handler sig w) = True"
| "is_handler p = False"

fun well_stacked :: "point list \<Rightarrow> bool" where
  "well_stacked [] = True"
| "well_stacked (p # ps) = ((ps = [] \<or> is_handler p) \<and> well_stacked ps)"

definition group_inv :: "group \<Rightarrow> bool" where
  "group_inv g \<longleftrightarrow>
     well_stacked (stack g) \<and> distinct (handled (stack g)) \<and>
     set (handled (stack g)) \<subseteq> insert SIGCHLD (set stop_signals) \<and> set (pending g) \<subseteq> set stop_signals \<and>
     (ended g = None \<longleftrightarrow> stack g \<noteq> []) \<and>
     (\<forall>sig. Handler sig Reaping \<in> set (stack g) \<or> Handler sig Dying \<in> set (stack g) \<longrightarrow>
        Up \<notin> snd ` set (servers g)) \<and>
     (\<forall>sig. Handler sig Dying \<in> set (stack g) \<longrightarrow> servers g = []) \<and>
     (\<forall>ms. Forking ms \<in> set (stack g) \<longrightarrow> traps g = [])"

lemma told_all: "Up \<notin> snd ` set (map tell ss)"
  by (auto elim!: tell.elims dest: sym)

lemma inv_ends: "group_inv g \<Longrightarrow> group_inv (ends e g)"
  by (simp add: group_inv_def ends_def)

lemma inv_deliver:
  "group_inv g \<Longrightarrow> sig \<in> set stop_signals \<Longrightarrow> sig \<notin> set (handled (stack g)) \<Longrightarrow> stack g \<noteq> [] \<Longrightarrow>
    group_inv (deliver sig g)"
  by (cases "sig \<in> set (traps g)") (auto simp: deliver_def inv_ends, auto simp: group_inv_def)

lemma inv_kill_group:
  assumes "group_inv (g\<lparr>servers := map tell (servers g)\<rparr>)" and "stack g \<noteq> []"
  shows "group_inv (kill_group g)"
proof (cases "SIGTERM \<in> set (handled (stack g))")
  case True
  with assms show ?thesis by (auto simp: kill_group_def group_inv_def stop_signals_def)
next
  case False
  with inv_deliver [OF assms(1)] assms(2) show ?thesis by (simp add: kill_group_def stop_signals_def)
qed

text \<open>Every step keeps the invariant and takes work off.\<close>

lemma inv_forced:
  assumes "forced g g'" and "group_inv g"
  shows "group_inv g'"
  using assms(1)
proof cases
  case (kill sig ps)
  then have "group_inv (g\<lparr>stack := Handler sig Reaping # ps, servers := map tell (servers g)\<rparr>)"
    using assms(2) told_all [of "servers g"] by (auto simp: group_inv_def)
  then show ?thesis unfolding kill(1) by (intro inv_kill_group) simp_all
next
  case (signalled sig)
  moreover from this assms(2) have "sig \<in> set stop_signals" by (auto simp: group_inv_def)
  ultimately show ?thesis using inv_deliver [OF assms(2)] by simp
qed (use assms(2) in \<open>auto simp: group_inv_def inv_ends [unfolded group_inv_def] stop_signals_def ends_def\<close>)

lemma work_forced:
  assumes "forced g g'" and "group_inv g"
  shows "work g' < work g"
  using assms(1)
proof cases
  case (kill sig ps)
  have "work (g\<lparr>stack := Handler sig Reaping # ps\<rparr>) < work g"
    using kill assms(2) by (simp add: work_def signal_work_def [abs_def] group_inv_def)
  moreover have "work g' \<le> work (g\<lparr>stack := Handler sig Reaping # ps\<rparr>)"
    unfolding kill(1) using kill assms(2) by (intro work_kill_group) (simp_all add: group_inv_def)
  ultimately show ?thesis by simp
next
  case (signalled sig)
  with assms(2) show ?thesis by (auto simp: group_inv_def intro: work_deliver)
qed (use assms(2) in \<open>auto simp: work_def group_inv_def ends_def signal_work_def [abs_def] signals_def stop_signals_def\<close>)

lemma inv_outside: "outside (set stop_signals) g g' \<Longrightarrow> group_inv g \<Longrightarrow> group_inv g'"
  by (erule outsideE) (force simp: group_inv_def)+

lemma work_outside: "outside (set stop_signals) g g' \<Longrightarrow> group_inv g \<Longrightarrow> work g' < work g"
  by (erule outsideE) (auto simp: work_def group_inv_def signal_work_def stop_signals_def)

lemma group_step_inv: "asked_step g g' \<Longrightarrow> group_inv g \<Longrightarrow> group_inv g' \<and> work g' < work g"
  unfolding group_step_def using inv_forced inv_outside work_forced work_outside by blast

interpretation procs: inductive_invariant "group_start m" asked_step group_inv for m
proof unfold_locales
  fix g
  assume "group_start m g"
  then show "group_inv g" by (simp add: group_start_def group_inv_def)
next
  fix g g'
  assume "asked_step g g'" and "group_inv g"
  then show "group_inv g'" by (simp add: group_step_inv)
qed


section \<open>The group ends together\<close>

text \<open>All handlers are installed; and nothing has happened yet that the parent has to react to.\<close>

definition armed :: "group \<Rightarrow> bool" where
  "armed g \<longleftrightarrow> set signals \<subseteq> set (traps g)"

definition calm :: "group \<Rightarrow> bool" where
  "calm g \<longleftrightarrow> (stack g = [Waiting] \<or> (\<exists>sigs. stack g = [Installing sigs])) \<and> pending g = [] \<and>
     servers g \<noteq> [] \<and> (\<forall>x \<in> set (servers g). snd x = Up)"

definition ending_well :: "group \<Rightarrow> bool" where
  "ending_well g \<longleftrightarrow> group_inv g \<and> armed g \<and> \<not> calm g \<and>
     (ended g = None \<or> ended g = Some (Exit 1) \<and> servers g = [])"

lemma armed_not_forking: "group_inv g \<Longrightarrow> armed g \<Longrightarrow> Forking ms \<notin> set (stack g)"
  by (auto simp: group_inv_def armed_def signals_def)

text \<open>Every signal that asks the program to end has a handler.\<close>

lemma stop_signals_handled: "set stop_signals \<subseteq> set signals"
  by (simp add: stop_signals_def signals_def)

lemma deliver_armed: "armed g \<Longrightarrow> sig \<in> set stop_signals \<Longrightarrow>
    deliver sig g = g\<lparr>stack := Handler sig Logging # stack g, pending := removeAll sig (pending g)\<rparr>"
  using stop_signals_handled by (auto simp: deliver_def armed_def)

lemma kill_group_armed:
  assumes "armed g" and "stack g = Handler sig w # ps"
  shows "armed (kill_group g) \<and> \<not> calm (kill_group g) \<and> ended (kill_group g) = ended g"
  using assms by (auto simp: kill_group_def deliver_def signals_def armed_def calm_def Let_def)

lemma ending_forced:
  assumes "forced g g'" and "ending_well g"
  shows "ending_well g'"
proof -
  have inv: "group_inv g" and ar: "armed g" and nc: "\<not> calm g" using assms(2) by (auto simp: ending_well_def)
  have "armed g' \<and> \<not> calm g' \<and> (ended g' = None \<or> ended g' = Some (Exit 1) \<and> servers g' = [])"
    using assms(1)
  proof cases
    case (kill sig ps)
    with kill_group_armed [of "g\<lparr>stack := Handler sig Reaping # ps\<rparr>" sig Reaping ps] ar inv
    show ?thesis by (auto simp: armed_def group_inv_def)
  next
    case (signalled sig)
    moreover from this inv have "sig \<in> set stop_signals" "ended g = None" by (auto simp: group_inv_def)
    ultimately show ?thesis using deliver_armed [OF ar] ar by (auto simp: armed_def calm_def)
  qed (use assms(2) armed_not_forking [OF inv ar] in
      \<open>auto simp: ending_well_def armed_def calm_def ends_def group_inv_def\<close>)
  with inv_forced [OF assms(1) inv] show ?thesis by (simp add: ending_well_def)
qed

lemma ending_outside: "outside (set stop_signals) g g' \<Longrightarrow> ending_well g \<Longrightarrow> ending_well g'"
  by (frule inv_outside, simp add: ending_well_def)
    (erule outsideE; auto simp: ending_well_def armed_def calm_def group_inv_def)

lemma ending_steps: "asked_step\<^sup>*\<^sup>* g g' \<Longrightarrow> ending_well g \<Longrightarrow> ending_well g'"
  by (induction rule: rtranclp_induct) (auto simp: group_step_def intro: ending_forced ending_outside)

text \<open>As long as the parent runs, something is left to happen.\<close>

lemma status_cases:
  obtains "ss = []" | xs pid ys where "ss = xs @ (pid, Dead) # ys"
    | xs pid ys where "ss = xs @ (pid, Told) # ys" | "ss \<noteq> []" "\<forall>x \<in> set ss. snd x = Up"
proof -
  have "\<exists>x \<in> set ss. snd x = Dead \<or> snd x = Told" if "\<not> (\<forall>x \<in> set ss. snd x = Up)"
    using that by (metis status.exhaust)
  then show ?thesis using that by (metis prod.collapse split_list)
qed

lemma ending_progress:
  assumes "ending_well g" and "ended g = None"
  shows "\<exists>g'. forced g g'"
proof -
  have inv: "group_inv g" and nc: "\<not> calm g" using assms(1) by (auto simp: ending_well_def)
  obtain p ps where st: "stack g = p # ps" using inv assms(2) by (cases "stack g") (auto simp: group_inv_def)
  have ps: "ps = []" if "\<not> is_handler p" using inv st that by (auto simp: group_inv_def)
  show ?thesis
  proof (cases p)
    case (Forking ms)
    with st ps show ?thesis by (cases ms) (auto intro: forced.intros)
  next
    case (Installing sigs)
    with st ps show ?thesis by (cases sigs) (auto intro: forced.intros)
  next
    case Waiting
    with st ps have w: "stack g = [Waiting]" by simp
    show ?thesis
    proof (cases "pending g")
      case (Cons sig rest)
      with w forced.signalled [of g sig] show ?thesis by auto
    next
      case Nil
      with w nc show ?thesis
        by (cases "servers g" rule: status_cases) (auto simp: calm_def intro: forced.intros)
    qed
  next
    case (Reporting pid)
    with st ps show ?thesis by (auto intro: forced.intros)
  next
    case (Handler sig w)
    then show ?thesis
    proof (cases w)
      case Reaping
      with Handler st inv have "Up \<notin> snd ` set (servers g)" by (auto simp: group_inv_def)
      then have "servers g = [] \<or> \<not> (\<forall>x \<in> set (servers g). snd x = Up)"
        by (metis imageI last_in_set)
      with Reaping Handler st show ?thesis
        by (cases "servers g" rule: status_cases) (auto intro: forced.intros)
    qed (use st Handler in \<open>auto intro: forced.intros\<close>)
  qed
qed

lemma work_bound: "reach (group_start m) asked_step g \<Longrightarrow> work g \<le> 40"
proof (induction rule: reach.induct)
  case (reach_init g)
  then show ?case by (cases m) (simp_all add: group_start_def work_def stop_signals_def signal_work_def)
next
  case (reach_step g g')
  with group_step_inv [OF _ procs.reach_inv] show ?case by fastforce
qed

lemma work_steps: "(asked_step ^^ n) g g' \<Longrightarrow> group_inv g \<Longrightarrow> group_inv g' \<and> work g' + n \<le> work g"
proof (induction n arbitrary: g')
  case (Suc n)
  then obtain h where "(asked_step ^^ n) g h" "asked_step h g'" by auto
  with Suc.IH Suc.prems(2) group_step_inv show ?case by fastforce
qed simp

lemma runs_out: "group_inv g \<Longrightarrow> \<exists>g'. asked_step\<^sup>*\<^sup>* g g' \<and> (\<forall>h. \<not> asked_step g' h)"
proof (induction "work g" arbitrary: g rule: less_induct)
  case less
  show ?case
  proof (cases "\<exists>h. asked_step g h")
    case True
    then obtain h where "asked_step g h" by blast
    with less group_step_inv [OF this] show ?thesis by (meson converse_rtranclp_into_rtranclp)
  qed blast
qed

lemma handled_bound: "group_inv g \<Longrightarrow> length (handled (stack g)) \<le> 4"
  using card_mono [of "insert SIGCHLD (set stop_signals)" "set (handled (stack g))"]
  by (simp add: group_inv_def distinct_card stop_signals_def)


section \<open>Properties\<close>

text \<open>C19: Once the handlers are installed and one of \<open>SIGTERM\<close>, \<open>SIGINT\<close> and \<open>SIGQUIT\<close> has arrived or a
  server has ended, the whole group ends, however many more of these three signals arrive,
  and when: at most 40 more steps are possible, at most four handlers run inside of each other,
  and when nothing is left to happen every server has ended and was waited for and the parent
  has exited with status 1. (Other signals have no handler; see the next property.)\<close>

theorem group_ends_together:
  assumes "reach (group_start m) asked_step g" and "armed g" and "ended g = None" and "\<not> calm g"
  shows "((asked_step ^^ n) g g' \<longrightarrow> n \<le> 40 \<and> length (handled (stack g')) \<le> 4) \<and>
    (asked_step\<^sup>*\<^sup>* g g' \<and> (\<forall>h. \<not> forced g' h) \<longrightarrow> ended g' = Some (Exit 1) \<and> servers g' = [])"
proof -
  have inv: "group_inv g" using assms(1) by (rule procs.reach_inv)
  with assms have "ending_well g" by (simp add: ending_well_def)
  then have "ending_well g'" if "asked_step\<^sup>*\<^sup>* g g'" using ending_steps [OF that] by simp
  with ending_progress [of g'] show ?thesis
    using work_steps [OF _ inv, of n g'] work_bound [OF assms(1)] handled_bound [of g']
    by (auto simp: ending_well_def)
qed

text \<open>The states of a start of both servers.\<close>

abbreviation at :: "point list \<Rightarrow> int list \<Rightarrow> int list \<Rightarrow> (int \<times> status) list \<Rightarrow> group" where
  "at ps ts sigs ss \<equiv> \<lparr>stack = ps, traps = ts, pending = sigs, servers = ss, ended = None\<rparr>"

lemma reach_forced: "reach init (group_step S) g \<Longrightarrow> forced g g' \<Longrightarrow> reach init (group_step S) g'"
  by (auto simp: group_step_def intro: reach_step)

lemma reach_outside: "reach init (group_step S) g \<Longrightarrow> outside S g g' \<Longrightarrow> reach init (group_step S) g'"
  by (auto simp: group_step_def intro: reach_step)

lemma reach_one_fork:
  "reach (group_start DUAL) (group_step S) (at [Forking [CLIENT]] [] [] [(101, Up)])"
proof -
  have "reach (group_start DUAL) (group_step S) (at [Forking [SERVER, CLIENT]] [] [] [])"
    by (rule reach_init) (simp add: group_start_def)
  from reach_forced [OF this forced.fork [where pid = 101]] show ?thesis by simp
qed

lemma reach_two_forks:
  "reach (group_start DUAL) (group_step S) (at [Installing signals] [] [] [(101, Up), (102, Up)])"
proof -
  from reach_forced [OF reach_one_fork forced.fork [where pid = 102]]
  have "reach (group_start DUAL) (group_step S) (at [Forking []] [] [] [(101, Up), (102, Up)])" by simp
  from reach_forced [OF this forced.forked] show ?thesis by simp
qed

lemma reach_waiting:
  "reach (group_start DUAL) (group_step S) (at [Waiting] [SIGQUIT, SIGINT, SIGTERM] [] [(101, Up), (102, Up)])"
proof -
  note r = reach_two_forks [unfolded signals_def]
  from reach_forced [OF r forced.install] have
    "reach (group_start DUAL) (group_step S) (at [Installing [SIGINT, SIGQUIT]] [SIGTERM] [] [(101, Up), (102, Up)])"
    by simp
  from reach_forced [OF this forced.install] have
    "reach (group_start DUAL) (group_step S) (at [Installing [SIGQUIT]] [SIGINT, SIGTERM] [] [(101, Up), (102, Up)])"
    by simp
  from reach_forced [OF this forced.install] have
    "reach (group_start DUAL) (group_step S) (at [Installing []] [SIGQUIT, SIGINT, SIGTERM] [] [(101, Up), (102, Up)])"
    by simp
  from reach_forced [OF this forced.installed] show ?thesis by simp
qed

theorem group_ends_together_witness:
  "\<exists>g g'. reach (group_start DUAL) asked_step g \<and> servers g = [(101, Up), (102, Up)] \<and>
    asked_step\<^sup>*\<^sup>* g g' \<and> ended g' = Some (Exit 1) \<and> servers g' = []"
proof -
  define g where "g = at [Waiting] [SIGQUIT, SIGINT, SIGTERM] [SIGINT] [(101, Up), (102, Up)]"
  have r: "reach (group_start DUAL) asked_step g"
    using reach_outside [OF reach_waiting outside.arrives [where sig = SIGINT and S = "set stop_signals"]]
    by (simp add: g_def stop_signals_def)
  have g: "armed g" "ended g = None" "\<not> calm g"
    by (simp_all add: g_def armed_def calm_def signals_def)
  obtain g' where "asked_step\<^sup>*\<^sup>* g g'" and "\<forall>h. \<not> forced g' h"
    using runs_out [OF procs.reach_inv [OF r]] by (auto simp: group_step_def)
  with group_ends_together [OF r g, of 0 g'] r show ?thesis
    by (intro exI [of _ g] exI [of _ g']) (simp add: g_def)
qed

text \<open>C21: The group can fall apart: when the second fork fails, when a signal arrives before its
  handler is installed, and when a signal arrives that no handler is ever installed for, such
  as \<open>SIGHUP\<close> for the parent that waits. Then the parent ends and the servers go on, with nobody
  left to end them.\<close>

theorem servers_left_alone:
  "(\<exists>g. reach (group_start DUAL) (group_step {}) g \<and> ended g = Some (Exit 1) \<and>
      servers g = [(101, Up)] \<and> (\<forall>h. \<not> forced g h)) \<and>
   (\<exists>g. reach (group_start DUAL) (group_step {SIGTERM}) g \<and> ended g = Some (Killed SIGTERM) \<and>
      servers g = [(101, Up), (102, Up)] \<and> (\<forall>h. \<not> forced g h)) \<and>
   (\<exists>g g'. reach (group_start DUAL) (group_step {SIGHUP}) g \<and> armed g \<and> stack g = [Waiting] \<and>
      group_step {SIGHUP} g g' \<and>
      (\<exists>h. forced g' h \<and> ended h = Some (Killed SIGHUP) \<and> servers h = [(101, Up), (102, Up)] \<and>
        (\<forall>k. \<not> forced h k)))"
proof (intro conjI)
  have stuck: "\<not> forced g h" if "stack g = []" "\<forall>x \<in> set (servers g). snd x = Up" for g h
    using that by (auto elim!: forcedE)
  define g1 where "g1 = ends (Exit 1) (at [Forking [CLIENT]] [] [] [(101, Up)])"
  have "reach (group_start DUAL) (group_step {}) g1"
    unfolding g1_def by (rule reach_forced [OF reach_one_fork forced.fork_fails]) simp
  then show "\<exists>g. reach (group_start DUAL) (group_step {}) g \<and> ended g = Some (Exit 1) \<and>
      servers g = [(101, Up)] \<and> (\<forall>h. \<not> forced g h)"
    using stuck [of g1] by (auto simp: g1_def ends_def)
  let ?both = "[(101, Up), (102, Up)]"
  define g2 where "g2 = ends (Killed SIGTERM) (at [Installing signals] [] [SIGTERM] ?both)"
  have "reach (group_start DUAL) (group_step {SIGTERM}) (at [Installing signals] [] [SIGTERM] ?both)"
    using reach_outside [OF reach_two_forks outside.arrives [where sig = SIGTERM and S = "{SIGTERM}"]]
    by simp
  then have "reach (group_start DUAL) (group_step {SIGTERM}) g2"
    using reach_forced [OF _ forced.signalled [where sig = SIGTERM]]
    by (fastforce simp: g2_def deliver_def)
  then show "\<exists>g. reach (group_start DUAL) (group_step {SIGTERM}) g \<and> ended g = Some (Killed SIGTERM) \<and>
      servers g = ?both \<and> (\<forall>h. \<not> forced g h)"
    using stuck [of g2] by (auto simp: g2_def ends_def)
  define g where "g = at [Waiting] [SIGQUIT, SIGINT, SIGTERM] [] ?both"
  define g' where "g' = g\<lparr>pending := [SIGHUP]\<rparr>"
  define h where "h = ends (Killed SIGHUP) g'"
  have "reach (group_start DUAL) (group_step {SIGHUP}) g" unfolding g_def by (rule reach_waiting)
  moreover have "group_step {SIGHUP} g g'"
    using outside.arrives [of g SIGHUP "{SIGHUP}"] by (simp add: group_step_def g'_def g_def)
  moreover have "forced g' h"
    using forced.signalled [of g' SIGHUP] by (simp add: h_def g'_def g_def deliver_def)
  moreover have "armed g" "stack g = [Waiting]" by (auto simp: g_def armed_def signals_def)
  moreover have "ended h = Some (Killed SIGHUP)" "servers h = ?both"
    by (simp_all add: h_def g'_def g_def ends_def)
  moreover have "\<not> forced h k" for k by (rule stuck) (auto simp: h_def g'_def g_def ends_def)
  ultimately show "\<exists>g g'. reach (group_start DUAL) (group_step {SIGHUP}) g \<and> armed g \<and> stack g = [Waiting] \<and>
      group_step {SIGHUP} g g' \<and>
      (\<exists>h. forced g' h \<and> ended h = Some (Killed SIGHUP) \<and> servers h = ?both \<and> (\<forall>k. \<not> forced h k))"
    by blast
qed

end
