(* ===== verification/Parent_Run.thy ===== *)
theory Parent_Run
  imports Process_Group "HOL-Library.Multiset"
begin

text \<open>
  The two views of the parent process agree. \<open>Startup\<close> runs its code (\<open>fork_servers\<close>,
  \<open>supervise\<close>, \<open>exit_handler\<close>) against any kernel; \<open>Process_Group\<close> describes the parent
  and its servers as a transition system. The interface \<open>group_kernel\<close> states what a kernel
  does for a process group without signals from outside; for every kernel that keeps it, the
  code returns, and its run is one of the transition system.
\<close>


section \<open>The kernel of a process group\<close>

text \<open>\<open>view\<close> gives the servers that were forked and not waited for. \<open>fork\<close> fails or adds one;
  \<open>wait\<close> fails when there is none, and otherwise returns when one of them has ended; a signal to
  the group tells all of them.\<close>

locale group_kernel =
  fixes os :: "'w os" and view :: "'w \<Rightarrow> (int \<times> status) list"
  assumes fork_law: "answer os w Fork = (r, w') \<Longrightarrow>
      rv r = -1 \<and> view w' = view w \<or>
      0 < rv r \<and> rv r \<notin> fst ` set (view w) \<and> view w' = view w @ [(rv r, Up)]"
    and wait_law: "answer os w Wait = (r, w') \<Longrightarrow> \<forall>x \<in> set (view w). 0 < fst x \<Longrightarrow>
      rv r = -1 \<and> view w = [] \<and> view w' = [] \<or>
      0 < rv r \<and> (\<exists>xs st ys. view w = xs @ (rv r, st) # ys \<and> view w' = xs @ ys)"
    and kill_law: "answer os w (Kill 0 SIGTERM) = (r, w') \<Longrightarrow> view w' = map tell (view w)"
    and setpgid_law: "answer os w Setpgid = (r, w') \<Longrightarrow> view w' = view w"
    and say_law: "answer os w (Say p m) = (r, w') \<Longrightarrow> view w' = view w"

text \<open>The numbers that the successful calls of \<open>fork\<close> and of \<open>wait\<close> returned.\<close>

definition returned :: "call \<Rightarrow> 'w sys \<Rightarrow> int list" where
  "returned c s = filter (\<lambda>n. 0 < n) (map (\<lambda>e. rv (snd e)) (filter (\<lambda>e. fst e = c) (log s)))"

lemma returned_call:
  "sys_call os c s = (r, s') \<Longrightarrow>
    returned c' s' = returned c' s @ (if c = c' \<and> 0 < rv r then [rv r] else [])"
  by (simp add: returned_def sys_call_log)

lemma returned_num:
  "sys_num os c s = (n, s') \<Longrightarrow>
    returned c' s' = returned c' s @ (if c = c' \<and> 0 < n then [n] else [])"
  by (auto simp: sys_num_def returned_call split: prod.splits)

lemma returned_do [simp]: "c \<noteq> c' \<Longrightarrow> returned c' (sys_do os c s) = returned c' s"
  unfolding sys_do_def by (cases "sys_call os c s") (simp add: returned_call)

lemma answer_num:
  "sys_num os c s = (n, s') \<Longrightarrow> \<exists>r. answer os (world s) c = (r, world s') \<and> n = rv r"
  by (auto simp: sys_num_def sys_call_def Let_def split: prod.splits resp.splits)

lemma answer_do: "\<exists>r. answer os (world s) c = (r, world (sys_do os c s))"
  by (auto simp: sys_do_def sys_call_def Let_def split: prod.splits resp.splits)


section \<open>The run of the code\<close>

text \<open>Every server that was forked is accounted for: it was waited for, or is still there.\<close>

definition accounted :: "('w \<Rightarrow> (int \<times> status) list) \<Rightarrow> 'w sys \<Rightarrow> bool" where
  "accounted view s \<longleftrightarrow>
     mset (returned Fork s) = mset (returned Wait s) + mset (map fst (view (world s))) \<and>
     (\<forall>x \<in> set (view (world s)). 0 < fst x)"

text \<open>The code has come to a point of the transition system, with its servers.\<close>

definition arrived ::
  "mode \<Rightarrow> ('w \<Rightarrow> (int \<times> status) list) \<Rightarrow> point list \<Rightarrow> int list \<Rightarrow> int list \<Rightarrow> 'w sys \<Rightarrow> bool" where
  "arrived m view ps ts sigs s \<longleftrightarrow>
     reach (group_start m) (group_step {}) (at ps ts sigs (view (world s))) \<and> accounted view s"

text \<open>The parent has exited.\<close>

definition left :: "mode \<Rightarrow> ('w \<Rightarrow> (int \<times> status) list) \<Rightarrow> 'w sys \<Rightarrow> bool" where
  "left m view s \<longleftrightarrow> accounted view s \<and>
     (\<exists>g. reach (group_start m) (group_step {}) g \<and> ended g = Some (Exit 1) \<and> servers g = view (world s))"

lemma arrived_forced:
  "arrived m view ps ts sigs s \<Longrightarrow> forced (at ps ts sigs (view (world s))) g \<Longrightarrow>
    g = at ps' ts' sigs' (view (world s)) \<Longrightarrow> arrived m view ps' ts' sigs' s"
  by (auto simp: arrived_def intro: reach_forced)

lemma arrived_exit:
  assumes "arrived m view ps ts sigs s"
    and "forced (at ps ts sigs (view (world s))) (ends (Exit 1) (at ps ts sigs (view (world s))))"
  shows "left m view s"
proof -
  have "reach (group_start m) (group_step {}) (ends (Exit 1) (at ps ts sigs (view (world s))))"
    using assms by (auto simp: arrived_def intro: reach_forced)
  then show ?thesis
    using assms(1) by (auto simp: left_def arrived_def ends_def)
qed

lemma arrived_installed:
  assumes "arrived m view [Forking []] [] [] s"
  shows "arrived m view [Waiting] [SIGQUIT, SIGINT, SIGTERM] [] s"
proof -
  have "arrived m view [Installing signals] [] [] s"
    using assms by (rule arrived_forced, rule_tac forced.forked) simp_all
  then have "arrived m view [Installing [SIGINT, SIGQUIT]] [SIGTERM] [] s"
    by (rule arrived_forced, rule_tac forced.install) (simp_all add: signals_def)
  then have "arrived m view [Installing [SIGQUIT]] [SIGINT, SIGTERM] [] s"
    by (rule arrived_forced, rule_tac forced.install) simp_all
  then have "arrived m view [Installing []] [SIGQUIT, SIGINT, SIGTERM] [] s"
    by (rule arrived_forced, rule_tac forced.install) simp_all
  then show ?thesis by (rule arrived_forced, rule_tac forced.installed) simp_all
qed

context group_kernel
begin

lemma arrived_do:
  assumes "arrived m view ps ts sigs s" and "c = Setpgid \<or> (\<exists>p t. c = Say p t)"
  shows "arrived m view ps ts sigs (sys_do os c s)"
proof -
  obtain r where "answer os (world s) c = (r, world (sys_do os c s))" using answer_do by blast
  with assms(2) have "view (world (sys_do os c s)) = view (world s)"
    using setpgid_law say_law by blast
  moreover from assms(2) have "c \<noteq> Fork" "c \<noteq> Wait" by auto
  ultimately show ?thesis using assms(1) by (simp add: arrived_def accounted_def)
qed

lemma left_say: "left m view s \<Longrightarrow> left m view (sys_do os (Say p t) s)"
  using say_law answer_do [of os s "Say p t"] by (fastforce simp: left_def accounted_def)

lemma fork_step:
  assumes "arrived m view [Forking (k # ks)] [] [] s" and c: "sys_num os Fork s = (pid, s')"
  shows "pid = -1 \<and> left m view s' \<or>
    0 < pid \<and> view (world s') \<noteq> [] \<and> arrived m view [Forking ks] [] [] s'"
proof -
  have r: "reach (group_start m) (group_step {}) (at [Forking (k # ks)] [] [] (view (world s)))"
    and a: "accounted view s" using assms(1) by (simp_all add: arrived_def)
  from answer_num [OF c] fork_law have "pid = -1 \<and> view (world s') = view (world s) \<or>
      0 < pid \<and> pid \<notin> fst ` set (view (world s)) \<and> view (world s') = view (world s) @ [(pid, Up)]"
    by auto
  then show ?thesis
  proof (elim disjE conjE)
    assume f: "pid = -1" "view (world s') = view (world s)"
    then have "accounted view s'" using a by (simp add: accounted_def returned_num [OF c])
    moreover have "reach (group_start m) (group_step {})
        (ends (Exit 1) (at [Forking (k # ks)] [] [] (view (world s))))"
      by (rule reach_forced [OF r forced.fork_fails]) simp
    ultimately show ?thesis using f by (auto simp: left_def ends_def)
  next
    assume f: "0 < pid" "pid \<notin> fst ` set (view (world s))" "view (world s') = view (world s) @ [(pid, Up)]"
    then have "accounted view s'" using a by (simp add: accounted_def returned_num [OF c])
    moreover have "reach (group_start m) (group_step {}) (at [Forking ks] [] [] (view (world s')))"
      using reach_forced [OF r forced.fork [where pid = pid]] f by simp
    ultimately show ?thesis using f by (simp add: arrived_def)
  qed
qed

lemma wait_answer:
  assumes "accounted view s" and c: "sys_num os Wait s = (pid, s')"
  shows "accounted view s' \<and> (pid = -1 \<and> view (world s) = [] \<and> view (world s') = [] \<or>
    0 < pid \<and> (\<exists>xs st ys. view (world s) = xs @ (pid, st) # ys \<and> view (world s') = xs @ ys))"
proof -
  from answer_num [OF c] wait_law assms(1) have w: "pid = -1 \<and> view (world s) = [] \<and> view (world s') = [] \<or>
    0 < pid \<and> (\<exists>xs st ys. view (world s) = xs @ (pid, st) # ys \<and> view (world s') = xs @ ys)"
    by (auto simp: accounted_def)
  with assms(1) have "accounted view s'"
    by (auto simp: accounted_def returned_num [OF c])
  with w show ?thesis by simp
qed

text \<open>A server that works ends by itself, one that was told ends because of it.\<close>

lemma reach_dead:
  assumes "reach init (group_step {}) (at ps ts sigs (xs @ (pid, st) # ys))"
  shows "reach init (group_step {}) (at ps ts sigs (xs @ (pid, Dead) # ys))"
proof (cases st)
  case Up
  with reach_outside [OF assms outside.crashes] show ?thesis by simp
next
  case Told
  with reach_forced [OF assms forced.stopped] show ?thesis by simp
qed (use assms in simp)

lemma wait_step:
  assumes "arrived m view [Waiting] ts [] s" and "view (world s) \<noteq> []"
    and c: "sys_num os Wait s = (pid, s')"
  shows "0 < pid \<and> arrived m view [Handler SIGCHLD Logging] ts [] s'"
proof -
  from assms(1) have a: "accounted view s" by (simp add: arrived_def)
  from wait_answer [OF a c] assms(2) obtain xs st ys where w: "0 < pid"
      "view (world s) = xs @ (pid, st) # ys" "view (world s') = xs @ ys" "accounted view s'" by auto
  from assms(1) w(2) have "reach (group_start m) (group_step {}) (at [Waiting] ts [] (xs @ (pid, Dead) # ys))"
    by (auto simp: arrived_def intro: reach_dead)
  from reach_forced [OF this forced.wait] w(3,4)
  have "arrived m view [Reporting pid] ts [] s'" by (simp add: arrived_def)
  then have "arrived m view [Handler SIGCHLD Logging] ts [] s'"
    by (rule arrived_forced, rule_tac forced.report) simp_all
  with w(1) show ?thesis by simp
qed

lemma reap_step:
  assumes "arrived m view (Handler sig Reaping # ps) ts sigs s"
    and c: "sys_num os Wait s = (pid, s')"
  shows "pid = -1 \<and> view (world s') = [] \<and> left m view s' \<or>
    0 < pid \<and> length (view (world s')) < length (view (world s)) \<and>
      arrived m view (Handler sig Reaping # ps) ts sigs s'"
proof -
  from assms(1) have a: "accounted view s" and
    r: "reach (group_start m) (group_step {}) (at (Handler sig Reaping # ps) ts sigs (view (world s)))"
    by (simp_all add: arrived_def)
  from wait_answer [OF a c] show ?thesis
  proof (elim conjE disjE exE)
    assume w: "accounted view s'" "pid = -1" "view (world s) = []" "view (world s') = []"
    from reach_forced [OF r forced.reaped] w
    have "arrived m view (Handler sig Dying # ps) ts sigs s'" by (simp add: arrived_def)
    then have "left m view s'"
      by (rule arrived_exit) (rule forced.die, simp)
    with w show ?thesis by simp
  next
    fix xs st ys
    assume w: "accounted view s'" "0 < pid" "view (world s) = xs @ (pid, st) # ys"
      "view (world s') = xs @ ys"
    from reach_forced [OF reach_dead [OF r [unfolded w(3)]] forced.reap] w(1,4)
    have "arrived m view (Handler sig Reaping # ps) ts sigs s'" by (simp add: arrived_def)
    with w show ?thesis by simp
  qed
qed

lemma reap_loop_runs:
  "arrived m view (Handler sig Reaping # ps) ts sigs s \<Longrightarrow>
    \<exists>s'. reap_loop os s = Some s' \<and> view (world s') = [] \<and> left m view s'"
proof (induction "length (view (world s))" arbitrary: s rule: less_induct)
  case less
  obtain pid s1 where c: "sys_num os Wait s = (pid, s1)" by fastforce
  from reap_step [OF less.prems c] less.hyps [of s1] show ?case
    by (auto simp: reap_loop.simps [of os s] c)
qed

lemma tell_tell [simp]: "tell (tell x) = tell x"
  by (cases x rule: tell.cases) simp_all

lemma fst_tell [simp]: "fst (tell x) = fst x"
  by (cases x rule: tell.cases) simp_all

text \<open>The signal that the handler sends to the group comes back to its own process, so the handler
  is entered again, for \<open>SIGTERM\<close>; that one waits.\<close>

lemma kill_step:
  assumes "arrived m view [Handler SIGCHLD Logging] ts [] s" and "SIGTERM \<in> set ts"
  shows "arrived m view [Handler SIGTERM Reaping, Handler SIGCHLD Reaping] ts [SIGTERM]
    (sys_do os (Kill 0 SIGTERM) s)"
proof -
  let ?s' = "sys_do os (Kill 0 SIGTERM) s"
  from assms(1) have a: "accounted view s" and
    r: "reach (group_start m) (group_step {}) (at [Handler SIGCHLD Logging] ts [] (view (world s)))"
    by (simp_all add: arrived_def)
  have v: "view (world ?s') = map tell (view (world s))"
    using kill_law answer_do [of os s "Kill 0 SIGTERM"] by blast
  have acc: "accounted view ?s'" using a v by (simp add: accounted_def comp_def)
  from reach_forced [OF r forced.log] have
    "reach (group_start m) (group_step {}) (at [Handler SIGCHLD Killing] ts [] (view (world s)))" by simp
  from reach_forced [OF this forced.kill] assms(2) have
    "reach (group_start m) (group_step {})
      (at [Handler SIGTERM Logging, Handler SIGCHLD Reaping] ts [] (map tell (view (world s))))"
    by (simp add: kill_group_def deliver_def Let_def)
  from reach_forced [OF this forced.log] have
    "reach (group_start m) (group_step {})
      (at [Handler SIGTERM Killing, Handler SIGCHLD Reaping] ts [] (map tell (view (world s))))" by simp
  from reach_forced [OF this forced.kill] acc show ?thesis
    by (simp add: kill_group_def Let_def arrived_def v comp_def)
qed

lemma exit_handler_runs:
  assumes "arrived m view [Handler SIGCHLD Logging] ts [] s" and "SIGTERM \<in> set ts"
  shows "\<exists>s'. exit_handler os s = Some (Ends 1 s') \<and> view (world s') = [] \<and> left m view s'"
proof -
  from reap_loop_runs [OF kill_step [OF assms]] obtain s1 where
    s1: "reap_loop os (sys_do os (Kill 0 SIGTERM) s) = Some s1" "view (world s1) = []" "left m view s1"
    by blast
  moreover have "view (world (sys_do os (Say LOG_ERR '''') s1)) = view (world s1)"
    using say_law answer_do [of os s1 "Say LOG_ERR ''''"] by blast
  ultimately show ?thesis using left_say by (auto simp: exit_handler_def)
qed

lemma supervise_runs:
  assumes "arrived m view [Forking []] [] [] s" and "view (world s) \<noteq> []"
  shows "\<exists>s'. supervise os sp cp s = Some (Ends 1 s') \<and> view (world s') = [] \<and> left m view s'"
proof -
  let ?s1 = "sys_do os Setpgid s"
  have "arrived m view [Waiting] [SIGQUIT, SIGINT, SIGTERM] [] ?s1"
    using arrived_installed [OF assms(1)] by (rule arrived_do) simp
  moreover have "view (world ?s1) = view (world s)"
    using setpgid_law answer_do [of os s Setpgid] by blast
  moreover obtain pid s2 where c: "sys_num os Wait ?s1 = (pid, s2)" by fastforce
  ultimately have pid: "0 < pid" and
    s2: "arrived m view [Handler SIGCHLD Logging] [SIGQUIT, SIGINT, SIGTERM] [] s2"
    using wait_step [OF _ _ c] assms(2) by auto
  have w: "wait_loop os s = Some (pid, s2)"
    by (simp add: wait_loop.simps [of os s] c pid Let_def)
  define died where "died = Say LOG_NOTICE ''%s server died. exiting.''"
  define s3 where "s3 = (if pid = sp then sys_do os died s2 else s2)"
  define s4 where "s4 = (if pid = cp then sys_do os died s3 else s3)"
  have "arrived m view [Handler SIGCHLD Logging] [SIGQUIT, SIGINT, SIGTERM] [] s4"
    unfolding s4_def s3_def died_def using s2 by (auto intro!: arrived_do)
  moreover have "supervise os sp cp s = exit_handler os s4"
    by (simp add: supervise_def w s4_def s3_def died_def Let_def)
  ultimately show ?thesis using exit_handler_runs by simp
qed

text \<open>The rest of the code, after one successful fork or none.\<close>

lemma fork_servers_runs:
  assumes "view (world s) = []" and "log s = []"
  shows "\<exists>s'. fork_servers os m s = Some (Ends 1 s') \<and> left m view s' \<and>
    (view (world s') = [] \<or> (LOG_ERR, ''% server fork failed.'') \<in> set (calls_of says s'))"
proof -
  have s: "arrived m view [Forking (to_fork m)] [] [] s"
    using assms by (auto simp: arrived_def accounted_def returned_def group_start_def intro: reach_init)
  have one: ?thesis if "to_fork m = [k]" "\<And>pid s1. sys_num os Fork s = (pid, s1) \<Longrightarrow>
      0 < pid \<Longrightarrow> \<exists>sp cp. fork_servers os m s = supervise os sp cp s1"
    "\<And>s1. sys_num os Fork s = (-1, s1) \<Longrightarrow>
      fork_servers os m s = Some (Ends 1 (sys_do os (Say LOG_ERR ''% server fork failed.'') s1))" for k
  proof -
    obtain pid s1 where c: "sys_num os Fork s = (pid, s1)" by fastforce
    from fork_step [OF s [unfolded that(1)] c] that(2) [OF c] that(3) [of s1] c show ?thesis
      using supervise_runs left_say by (fastforce simp: says_def)
  qed
  show ?thesis
  proof (cases m)
    case DUAL
    obtain pid s1 where c: "sys_num os Fork s = (pid, s1)" by fastforce
    obtain pid2 s2 where c2: "sys_num os Fork s1 = (pid2, s2)" by fastforce
    from DUAL s have s': "arrived m view [Forking [SERVER, CLIENT]] [] [] s" by simp
    from fork_step [OF s' c] show ?thesis
    proof (elim disjE conjE)
      assume pid: "0 < pid" and s1: "arrived m view [Forking [CLIENT]] [] [] s1"
      have run: "fork_servers os m s =
          (if pid2 = -1 then Some (Ends 1 (sys_do os (Say LOG_ERR ''% server fork failed.'') s2))
           else if pid2 = 0 then Some (Serve CLIENT s2) else supervise os pid pid2 s2)"
        using DUAL c c2 pid by (simp add: fork_servers_def)
      from fork_step [OF s1 c2] supervise_runs [of m s2 pid pid2] left_say [of m s2]
      show ?thesis unfolding run by (auto simp: says_def)
    qed (use DUAL c left_say in \<open>simp add: fork_servers_def says_def\<close>)
  qed (rule one; auto simp: fork_servers_def)+
qed

end


section \<open>A kernel that keeps the laws\<close>

text \<open>What the coming calls of \<open>fork\<close> answer, and which server ends next, are read from lists.\<close>

record kernel =
  procs :: "(int \<times> status) list"
  forks :: "int list"
  order :: "nat list"

definition kernel_fork :: "kernel \<Rightarrow> resp \<times> kernel" where
  "kernel_fork k =
     (case forks k of
        [] \<Rightarrow> (Fail 11, k)
      | pid # rest \<Rightarrow>
          if 0 < pid \<and> pid \<notin> fst ` set (procs k)
          then (Ret pid, k\<lparr>procs := procs k @ [(pid, Up)], forks := rest\<rparr>)
          else (Fail 11, k\<lparr>forks := rest\<rparr>))"

definition next_dead :: "kernel \<Rightarrow> nat" where
  "next_dead k = (case order k of [] \<Rightarrow> 0 | n # ns \<Rightarrow> n mod length (procs k))"

definition kernel_wait :: "kernel \<Rightarrow> resp \<times> kernel" where
  "kernel_wait k =
     (if procs k = [] then (Fail 10, k)
      else let i = next_dead k
           in (Ret (fst (procs k ! i)),
               k\<lparr>procs := take i (procs k) @ drop (Suc i) (procs k), order := tl (order k)\<rparr>))"

definition group_os :: "kernel os" where
  "group_os k c =
     (case c of
        Fork \<Rightarrow> kernel_fork k
      | Wait \<Rightarrow> kernel_wait k
      | Kill p sig \<Rightarrow> (Ret 0, k\<lparr>procs := map tell (procs k)\<rparr>)
      | _ \<Rightarrow> (Ret 0, k))"

lemma kernel_wait_answer:
  assumes "kernel_wait k = (r, k')"
  shows "r = Fail 10 \<and> procs k = [] \<and> k' = k \<or>
    (\<exists>pid xs st ys. r = Ret pid \<and> procs k = xs @ (pid, st) # ys \<and> procs k' = xs @ ys)"
proof (cases "procs k = []")
  case False
  then have i: "next_dead k < length (procs k)" by (simp add: next_dead_def split: list.split)
  obtain pid st where p: "procs k ! next_dead k = (pid, st)" by fastforce
  have "procs k = take (next_dead k) (procs k) @ (pid, st) # drop (Suc (next_dead k)) (procs k)"
    using id_take_nth_drop [OF i] p by simp
  with assms False p show ?thesis
    by (intro disjI2 exI [of _ pid] exI [of _ "take (next_dead k) (procs k)"] exI [of _ st]
        exI [of _ "drop (Suc (next_dead k)) (procs k)"]) (auto simp: kernel_wait_def Let_def)
qed (use assms in \<open>simp add: kernel_wait_def\<close>)

interpretation servers: group_kernel group_os procs
proof unfold_locales
  fix k r k'
  assume "answer group_os k Fork = (r, k')"
  then show "rv r = -1 \<and> procs k' = procs k \<or>
      0 < rv r \<and> rv r \<notin> fst ` set (procs k) \<and> procs k' = procs k @ [(rv r, Up)]"
    by (force simp: answer_def group_os_def kernel_fork_def split: list.splits if_splits)
next
  fix k r k'
  assume a: "answer group_os k Wait = (r, k')" and pos: "\<forall>x \<in> set (procs k). 0 < fst x"
  obtain q k1 where q: "kernel_wait k = (q, k1)" by fastforce
  with kernel_wait_answer [OF q] pos have "answer group_os k Wait = (q, k1)"
    by (auto simp: answer_def group_os_def)
  with a have qr: "q = r" "k1 = k'" by simp_all
  from kernel_wait_answer [OF q [unfolded qr]]
  show "rv r = -1 \<and> procs k = [] \<and> procs k' = [] \<or>
      0 < rv r \<and> (\<exists>xs st ys. procs k = xs @ (rv r, st) # ys \<and> procs k' = xs @ ys)"
  proof (elim disjE exE conjE)
    fix pid xs st ys
    assume "r = Ret pid" "procs k = xs @ (pid, st) # ys" "procs k' = xs @ ys"
    with pos show ?thesis by (intro disjI2 conjI exI [of _ xs]) auto
  qed simp
qed (auto simp: answer_def group_os_def)


section \<open>The property\<close>



end
