(* ===== verification/Udp_Race.thy ===== *)
theory Udp_Race
  imports Udt_Options
begin

text \<open>
  \<open>check_udp_buffer\<close> of \<^verbatim>\<open>src/relay/udtrelay.cpp\<close> statement by statement. Its static variables
  are shared by all threads of a process, and the threads that serve socks connections call
  it, by \<open>setsockopt\<close>, at any time, without a lock. \<open>Udt_Options\<close> has the function as one
  step; here each access to the static variables is a step, and the steps of several threads
  interleave. The theorems say that a thread that is not disturbed computes the function of
  \<open>Udt_Options\<close>, what is then guaranteed about a reduced size, and that this guarantee is lost
  when two threads probe at the same time.
\<close>


section \<open>Statements\<close>

text \<open>What a thread has in its local variables: the socket, the option, whether the user gave
  the size, and the size.\<close>

record prober =
  pr_sock :: int
  pr_opt :: udt_opt
  pr_custom :: bool
  pr_size :: int

datatype probe_point =
    Check                \<comment> \<open>\<open>if (*chk_size > 0 and size <= *chk_size)\<close>\<close>
  | Test_max             \<comment> \<open>\<open>if (0 == *max_size)\<close>\<close>
  | Open                 \<comment> \<open>\<open>socket(AF_INET, SOCK_DGRAM, 0)\<close>\<close>
  | Try int int          \<comment> \<open>the head of the loop and the condition in it\<close>
  | Halve int int        \<comment> \<open>\<open>*max_size = sz = sz / 2\<close>\<close>
  | Hit int int          \<comment> \<open>\<open>close(sd); if (*chk_size < sz)\<close>\<close>
  | Store_chk int int    \<comment> \<open>\<open>*chk_size = sz\<close>\<close>
  | Hit_max int          \<comment> \<open>\<open>if (*max_size == 0) return true\<close>\<close>
  | Shut int             \<comment> \<open>\<open>close(sd)\<close>\<close>
  | Compare              \<comment> \<open>\<open>if (size > *max_size)\<close>\<close>
  | Warn                 \<comment> \<open>\<open>if(!(*warned))\<close>\<close>
  | Set_warned           \<comment> \<open>\<open>*warned = true\<close>\<close>
  | Reduce               \<comment> \<open>\<open>UDT::setsockopt(sock, 0, optcode, max_size, sizeof(int))\<close>\<close>
  | Keep                 \<comment> \<open>\<open>UDT::setsockopt(sock, 0, optcode, &size, sizeof(int))\<close>\<close>
  | Done bool
  | Died

type_synonym 'w probing = "probe_point \<times> bufstat \<times> 'w sys"

fun probe_step :: "'w os \<Rightarrow> prober \<Rightarrow> 'w probing \<Rightarrow> 'w probing" where
  "probe_step os a (Check, b, s) =
     ((if chk_size b > 0 \<and> pr_size a \<le> chk_size b then Done True else Test_max), b, s)"
| "probe_step os a (Test_max, b, s) = ((if max_size b = 0 then Open else Compare), b, s)"
| "probe_step os a (Open, b, s) =
     (let (sd, s1) = sys_num os (Socket Udp_kind) s in (Try sd (i32 (pr_size a)), b, s1))"
| "probe_step os a (Try sd sz, b, s) =
     (if sz > 8096 then
        let so = (if pr_opt a = UDP_RCVBUF then SO_RCVBUF else SO_SNDBUF);
            (rc, s1) = sys_num os (Set_so sd so sz 4) s;
            (rb, s2) = (if rc = 0 then sys_num os (Bind (Tcp sd) inaddr_any) s1 else (-1, s1))
        in ((if rc = 0 \<and> rb = 0 then Hit sd sz else Halve sd sz), b, s2)
      else (Shut sd, b, s))"
| "probe_step os a (Halve sd sz, b, s) = (Try sd (sz div 2), b\<lparr>max_size := sz div 2\<rparr>, s)"
| "probe_step os a (Hit sd sz, b, s) =
     ((if chk_size b < sz then Store_chk sd sz else Hit_max sd), b, sys_do os (Close (Tcp sd)) s)"
| "probe_step os a (Store_chk sd sz, b, s) = (Hit_max sd, b\<lparr>chk_size := sz\<rparr>, s)"
| "probe_step os a (Hit_max sd, b, s) = ((if max_size b = 0 then Done True else Shut sd), b, s)"
| "probe_step os a (Shut sd, b, s) = (Compare, b, sys_do os (Close (Tcp sd)) s)"
| "probe_step os a (Compare, b, s) =
     ((if pr_size a > max_size b then (if pr_custom a then Died else Warn) else Keep), b, s)"
| "probe_step os a (Warn, b, s) =
     (Set_warned, b,
      if \<not> warned b then sys_do os (Say LOG_WARNING ''default %s = %d is reduced'') s else s)"
| "probe_step os a (Set_warned, b, s) = (Reduce, b\<lparr>warned := True\<rparr>, s)"
| "probe_step os a (Reduce, b, s) =
     (Done False, b, sys_do os (Set_udt (pr_sock a) (pr_opt a) (i32 (max_size b))) s)"
| "probe_step os a (Keep, b, s) =
     (Done True, b, sys_do os (Set_udt (pr_sock a) (pr_opt a) (i32 (pr_size a))) s)"
| "probe_step os a (Done ok, b, s) = (Done ok, b, s)"
| "probe_step os a (Died, b, s) = (Died, b, s)"


section \<open>Threads\<close>

text \<open>The threads of a process that are in the function for the same option.\<close>

record 'w probers =
  q_stat :: bufstat
  q_sys :: "'w sys"
  q_threads :: "(prober \<times> probe_point) list"

fun finished :: "probe_point \<Rightarrow> bool" where
  "finished (Done ok) = True"
| "finished Died = True"
| "finished p = False"

text \<open>A step of one thread; after a \<open>log_die\<close> there is no process.\<close>

definition advance :: "'w os \<Rightarrow> nat \<Rightarrow> 'w probers \<Rightarrow> 'w probers" where
  "advance os i q =
     (case q_threads q ! i of (a, p) \<Rightarrow>
        case probe_step os a (p, q_stat q, q_sys q) of (p', b, s) \<Rightarrow>
          \<lparr>q_stat = b, q_sys = s, q_threads = (q_threads q)[i := (a, p')]\<rparr>)"

definition can_advance :: "nat \<Rightarrow> 'w probers \<Rightarrow> bool" where
  "can_advance i q \<longleftrightarrow> i < length (q_threads q) \<and> \<not> finished (snd (q_threads q ! i)) \<and>
     Died \<notin> snd ` set (q_threads q)"

inductive probers_step :: "'w os \<Rightarrow> 'w probers \<Rightarrow> 'w probers \<Rightarrow> bool" for os :: "'w os" where
  "can_advance i q \<Longrightarrow> probers_step os q (advance os i q)"

definition probers_start :: "prober list \<Rightarrow> 'w sys \<Rightarrow> 'w probers \<Rightarrow> bool" where
  "probers_start as s q \<longleftrightarrow>
     q_stat q = fresh_stat \<and> q_sys q = s \<and> q_threads q = map (\<lambda>a. (a, Check)) as"


section \<open>One thread alone\<close>

definition leads :: "'w os \<Rightarrow> prober \<Rightarrow> 'w probing \<Rightarrow> 'w probing \<Rightarrow> bool" where
  "leads os a x y \<longleftrightarrow> (\<exists>n. (probe_step os a ^^ n) x = y)"

lemma leads_refl: "leads os a x x"
  unfolding leads_def by (rule exI [of _ 0]) simp

lemma leads_step: "leads os a (probe_step os a x) y \<Longrightarrow> leads os a x y"
  unfolding leads_def by (metis funpow_Suc_right comp_apply)

lemma leads_stepI: "probe_step os a x = z \<Longrightarrow> leads os a z y \<Longrightarrow> leads os a x y"
  using leads_step by blast

lemma leads_last: "probe_step os a x = y \<Longrightarrow> leads os a x y"
  using leads_stepI leads_refl by blast

lemma leads_trans: "leads os a x y \<Longrightarrow> leads os a y z \<Longrightarrow> leads os a x z"
  unfolding leads_def by (metis funpow_add comp_apply)

text \<open>The loop: one pass of the recursion of \<open>probe_udp\<close> is one or two statements.\<close>

lemma leads_loop:
  assumes "probe_udp os sd so sz b s = ((ret, b'), s')"
    and "so = (if pr_opt a = UDP_RCVBUF then SO_RCVBUF else SO_SNDBUF)"
  shows "leads os a (Try sd sz, b, s) ((if ret then Done True else Shut sd), b', s')"
  using assms
proof (induction os sd so sz b s arbitrary: ret b' s' rule: probe_udp.induct)
  case (1 os sd so sz b s)
  show ?case
  proof (cases "sz > 8096")
    case False
    with "1.prems" have "ret = False" "b' = b" "s' = s" by (simp_all add: probe_small)
    with False show ?thesis by - (rule leads_step, simp add: leads_refl)
  next
    case True
    obtain rc s1 where c: "sys_num os (Set_so sd so sz 4) s = (rc, s1)" by fastforce
    obtain rb s2 where d: "(if rc = 0 then sys_num os (Bind (Tcp sd) inaddr_any) s1 else (-1, s1))
        = (rb, s2)" by (metis surj_pair)
    have tr: "probe_step os a (Try sd sz, b, s) =
        ((if rc = 0 \<and> rb = 0 then Hit sd sz else Halve sd sz), b, s2)"
      using True c d "1.prems"(2) by (simp add: Let_def)
    show ?thesis
    proof (cases "rc = 0 \<and> rb = 0")
      case hit: True
      define b1 where "b1 = (if chk_size b < sz then b\<lparr>chk_size := sz\<rparr> else b)"
      have e: "ret = (max_size b1 = 0)" "b' = b1" "s' = sys_do os (Close (Tcp sd)) s2"
        using True "1.prems"(1) c d hit probe_udp.simps [of os sd so sz b s]
        by (auto simp: Let_def b1_def)
      have "leads os a (Hit sd sz, b, s2) (Hit_max sd, b1, s')"
        by (rule leads_step) (auto simp: b1_def e intro: leads_refl leads_last)
      moreover have "leads os a (Hit_max sd, b1, s') ((if ret then Done True else Shut sd), b', s')"
        by (rule leads_step) (simp add: e leads_refl)
      ultimately have "leads os a (Hit sd sz, b, s2) ((if ret then Done True else Shut sd), b', s')"
        by (rule leads_trans)
      with tr hit show ?thesis by - (rule leads_stepI, auto)
    next
      case False
      with True "1.prems"(1) c d
      have rec: "probe_udp os sd so (sz div 2) (b\<lparr>max_size := sz div 2\<rparr>) s2 = ((ret, b'), s')"
        by (subst (asm) probe_udp.simps) (simp add: Let_def split: if_splits)
      from "1.IH" [OF True refl c [symmetric] refl d [symmetric] False rec "1.prems"(2)]
      have "leads os a (Halve sd sz, b, s2) ((if ret then Done True else Shut sd), b', s')"
        by - (rule leads_step, simp)
      with tr False show ?thesis by - (rule leads_stepI, auto)
    qed
  qed
qed

lemma leads_probe:
  assumes "probe_if_new os (pr_opt a) (pr_size a) b s = ((ret, b'), s')"
  shows "leads os a (Test_max, b, s) ((if ret then Done True else Compare), b', s')"
proof (cases "max_size b = 0")
  case False
  with assms have "ret = False" "b' = b" "s' = s" by (simp_all add: probe_if_new_def)
  with False show ?thesis by - (rule leads_step, simp add: leads_refl)
next
  case True
  define so where "so = (if pr_opt a = UDP_RCVBUF then SO_RCVBUF else SO_SNDBUF)"
  obtain sd s1 where sd: "sys_num os (Socket Udp_kind) s = (sd, s1)" by fastforce
  obtain r b1 s2 where p: "probe_udp os sd so (i32 (pr_size a)) b s1 = ((r, b1), s2)"
    by (metis surj_pair)
  have e: "ret = r" "b' = b1" "s' = (if r then s2 else sys_do os (Close (Tcp sd)) s2)"
    using assms True sd p by (auto simp: probe_if_new_def so_def Let_def split: if_splits)
  have "leads os a (Open, b, s) ((if r then Done True else Shut sd), b1, s2)"
    using leads_loop [OF p so_def] sd by - (rule leads_step, simp)
  moreover have "leads os a ((if r then Done True else Shut sd), b1, s2)
      ((if ret then Done True else Compare), b', s')"
    using e by (cases r) (simp_all add: leads_refl leads_step [of _ _ "(Shut sd, _, _)"])
  ultimately have "leads os a (Open, b, s) ((if ret then Done True else Compare), b', s')"
    by (rule leads_trans)
  with True show ?thesis by - (rule leads_step, simp)
qed

lemma set_stat_same [simp]: "set_stat c (stat_of c st) st = st"
  by (simp add: set_stat_def stat_of_def)

text \<open>The rest of the function, after the probing.\<close>

lemma leads_decide:
  assumes "max_size b < pr_size a" and "\<not> pr_custom a"
  shows "leads os a (Compare, b, s) (Done False, b\<lparr>warned := True\<rparr>,
    sys_do os (Set_udt (pr_sock a) (pr_opt a) (i32 (max_size b)))
      (if \<not> warned b then sys_do os (Say LOG_WARNING ''default %s = %d is reduced'') s else s))"
  using assms
proof -
  let ?w = "if \<not> warned b then sys_do os (Say LOG_WARNING ''default %s = %d is reduced'') s else s"
  have "leads os a (Reduce, b\<lparr>warned := True\<rparr>, ?w) (Done False, b\<lparr>warned := True\<rparr>,
      sys_do os (Set_udt (pr_sock a) (pr_opt a) (i32 (max_size b))) ?w)"
    by (rule leads_last) simp
  then have "leads os a (Warn, b, s) (Done False, b\<lparr>warned := True\<rparr>,
      sys_do os (Set_udt (pr_sock a) (pr_opt a) (i32 (max_size b))) ?w)"
    by - (rule leads_stepI, simp only: probe_step.simps, rule leads_stepI, simp only: probe_step.simps)
  then show ?thesis using assms by - (rule leads_stepI, simp)
qed


text \<open>The function once the size was probed.\<close>

lemma check_udp_buffer_probed:
  assumes "opt = UDP_RCVBUF \<or> opt = UDP_SNDBUF" and "requested_size os sock opt opts s = (Some sz, s1)"
    and "\<not> (chk_size (stat_of opt st) > 0 \<and> sz \<le> chk_size (stat_of opt st))"
    and "probe_if_new os opt sz (stat_of opt st) s1 = ((r, b), s2)"
  shows "check_udp_buffer os sock opt opts st s =
    (if r then Inr (True, set_stat opt b st, s2)
     else if max_size b < sz then
       if is_custom_value opts opt then Inl (Exited 1)
       else Inr (False, set_stat opt (b\<lparr>warned := True\<rparr>) st,
         sys_do os (Set_udt sock opt (i32 (max_size b)))
           (if \<not> warned b then sys_do os (Say LOG_WARNING ''default %s = %d is reduced'') s2 else s2))
     else Inr (True, set_stat opt b st, sys_do os (Set_udt sock opt (i32 sz)) s2))"
  using assms by (auto simp: check_udp_buffer_def Let_def)


text \<open>The outcome of a finished thread, and of one that has come to the comparison.\<close>

definition outcome :: "udt_opt \<Rightarrow> udp_statics \<Rightarrow> 'w probing \<Rightarrow> (bool \<times> udp_statics \<times> 'w sys) result" where
  "outcome opt st x = (case x of (p, b, t) \<Rightarrow>
     (case p of Done ok \<Rightarrow> Inr (ok, set_stat opt b st, t) | _ \<Rightarrow> Inl (Exited 1)))"

lemma leads_compare:
  "\<exists>q. leads os a (Compare, b, s) q \<and> finished (fst q) \<and> outcome opt st q =
    (if max_size b < pr_size a then
       if pr_custom a then Inl (Exited 1)
       else Inr (False, set_stat opt (b\<lparr>warned := True\<rparr>) st,
         sys_do os (Set_udt (pr_sock a) (pr_opt a) (i32 (max_size b)))
           (if \<not> warned b then sys_do os (Say LOG_WARNING ''default %s = %d is reduced'') s else s))
     else Inr (True, set_stat opt b st, sys_do os (Set_udt (pr_sock a) (pr_opt a) (i32 (pr_size a))) s))"
proof -
  consider "pr_size a \<le> max_size b" | "max_size b < pr_size a" "pr_custom a"
    | "max_size b < pr_size a" "\<not> pr_custom a" by linarith
  then show ?thesis
  proof cases
    case 1
    then have "leads os a (Compare, b, s)
        (Done True, b, sys_do os (Set_udt (pr_sock a) (pr_opt a) (i32 (pr_size a))) s)"
      by - (rule leads_step, simp, rule leads_step, simp add: leads_refl)
    with 1 show ?thesis by (intro exI conjI) (assumption, simp_all add: outcome_def)
  next
    case 2
    then have "leads os a (Compare, b, s) (Died, b, s)"
      by - (rule leads_step, simp add: leads_refl)
    with 2 show ?thesis by (intro exI conjI) (assumption, simp_all add: outcome_def)
  next
    case 3
    with leads_decide [of b a os s] show ?thesis
      by (intro exI conjI) (assumption, simp_all add: outcome_def)
  qed
qed


section \<open>The undisturbed thread\<close>

text \<open>C32: A thread that no other thread disturbs goes through the statements to the end, and has
  then computed \<open>check_udp_buffer\<close>: the same result, the same static variables, the same
  calls.\<close>

theorem probe_steps_refine_function:
  assumes "opt = UDP_RCVBUF \<or> opt = UDP_SNDBUF" and "requested_size os sock opt opts s = (Some sz, s1)"
  shows "\<exists>n p b t. (probe_step os \<lparr>pr_sock = sock, pr_opt = opt,
      pr_custom = is_custom_value opts opt, pr_size = sz\<rparr> ^^ n) (Check, stat_of opt st, s1) = (p, b, t) \<and>
    finished p \<and>
    check_udp_buffer os sock opt opts st s =
      (case p of Done ok \<Rightarrow> Inr (ok, set_stat opt b st, t) | _ \<Rightarrow> Inl (Exited 1))"
proof -
  define a where "a = \<lparr>pr_sock = sock, pr_opt = opt, pr_custom = is_custom_value opts opt, pr_size = sz\<rparr>"
  define b where "b = stat_of opt st"
  obtain r b1 s2 where p: "probe_if_new os (pr_opt a) (pr_size a) b s1 = ((r, b1), s2)"
    by (metis surj_pair)
  have "\<exists>q. leads os a (Check, b, s1) q \<and> finished (fst q) \<and>
      check_udp_buffer os sock opt opts st s = outcome opt st q"
  proof (cases "chk_size b > 0 \<and> sz \<le> chk_size b")
    case True
    then have "leads os a (Check, b, s1) (Done True, b, s1)"
      by - (rule leads_step, simp add: a_def leads_refl)
    moreover have "check_udp_buffer os sock opt opts st s = Inr (True, st, s1)"
      using assms True by (simp add: check_udp_buffer_def b_def)
    ultimately show ?thesis by (intro exI conjI) (assumption, simp_all add: outcome_def b_def)
  next
    case False
    then have "probe_step os a (Check, b, s1) = (Test_max, b, s1)" by (auto simp: a_def)
    then have start: "leads os a (Check, b, s1) ((if r then Done True else Compare), b1, s2)"
      using leads_probe [OF p] by (rule leads_stepI)
    note f = check_udp_buffer_probed [OF assms False [unfolded b_def] p [unfolded a_def b_def, simplified]]
    show ?thesis
    proof (cases r)
      case True
      with start f show ?thesis
        by (intro exI [of _ "(Done True, b1, s2)"]) (simp add: outcome_def)
    next
      case False
      from leads_compare [of os a b1 s2 opt st] obtain q where
        q: "leads os a (Compare, b1, s2) q" "finished (fst q)" "outcome opt st q =
          check_udp_buffer os sock opt opts st s" using False f by (auto simp: a_def)
      from leads_trans [OF start [unfolded if_not_P [OF False]] q(1)] q show ?thesis
        by (intro exI [of _ q]) simp
    qed
  qed
  then show ?thesis by (auto simp: leads_def a_def b_def outcome_def)
qed

theorem probe_steps_refine_function_witness:
  "\<exists>n p b t. (probe_step script \<lparr>pr_sock = 7, pr_opt = UDP_RCVBUF, pr_custom = False, pr_size = 40000\<rparr> ^^ n)
      (Check, fresh_stat, snd (requested_size script 7 UDP_RCVBUF Map.empty
        (start [Ret 40000, Ret 3, Fail 105, Ret 0, Ret 0, Ret 0, Ret 0, Ret 0]))) = (p, b, t) \<and> finished p"
  using probe_steps_refine_function [of UDP_RCVBUF script 7 Map.empty
      "start [Ret 40000, Ret 3, Fail 105, Ret 0, Ret 0, Ret 0, Ret 0, Ret 0]" 40000 _ fresh_statics]
  by (fastforce simp: requested_size_def is_custom_value_def fresh_statics_def stat_of_def u32_def
      sys_call_def answer_def script_def start_def Let_def)

section \<open>The size that is left\<close>

text \<open>Since \<open>s\<close>, the kernel has accepted the size.\<close>

definition accepted_since :: "'w sys \<Rightarrow> so_opt \<Rightarrow> int \<Rightarrow> 'w sys \<Rightarrow> bool" where
  "accepted_since s so v s' \<longleftrightarrow>
     (\<exists>sd r. (Set_so sd so v 4, r) \<in> set (drop (length (log s)) (log s')) \<and> rv r = 0)"

text \<open>A call that does not ask the kernel for a size.\<close>

definition asks_nothing :: "call \<Rightarrow> bool" where
  "asks_nothing c \<longleftrightarrow> (\<forall>sd so v n. c \<noteq> Set_so sd so v n)"

lemma accepted_num: "sys_num os (Set_so sd so v 4) s = (0, s') \<Longrightarrow> accepted_since s so v s'"
  by (auto simp: accepted_since_def sys_num_def sys_call_log split: prod.splits)

lemma accepted_between:
  assumes "accepted_since t so v t'" and "only_calls P s t" and "only_calls Q t' s'"
  shows "accepted_since s so v s'"
proof -
  from assms(1) obtain sd r where r: "(Set_so sd so v 4, r) \<in> set (drop (length (log t)) (log t'))" "rv r = 0"
    by (auto simp: accepted_since_def)
  from assms(2,3) obtain a c where "log t = log s @ a" "log s' = log t' @ c"
    by (auto simp: only_calls_def)
  with r(1) have "(Set_so sd so v 4, r) \<in> set (drop (length (log s)) (log t'))"
    by (metis add.commute drop_drop in_set_dropD length_append)
  with \<open>log s' = log t' @ c\<close> have "(Set_so sd so v 4, r) \<in> set (drop (length (log s)) (log s'))" by simp
  with r(2) show ?thesis by (auto simp: accepted_since_def)
qed

lemmas any_calls = only_calls_sys_num [of _ _ _ _ _ "\<lambda>c. True"] only_calls_then_do [of "\<lambda>c. True"]
  only_calls_then_num [of "\<lambda>c. True"] only_calls_refl

lemma probe_leaves_accepted:
  assumes "probe_udp os sd so sz b s = ((False, b'), s')" and "max_size b = 0 \<or> max_size b = sz"
  shows "max_size b' \<le> 8096 \<or> accepted_since s so (max_size b') s'"
  using assms
proof (induction os sd so sz b s rule: probe_udp.induct)
  case (1 os sd so sz b s)
  show ?case
  proof (cases "sz > 8096")
    case False
    with "1.prems" show ?thesis by (auto simp: probe_small)
  next
    case True
    obtain rc s1 where c: "sys_num os (Set_so sd so sz 4) s = (rc, s1)" by fastforce
    obtain rb s2 where d: "(if rc = 0 then sys_num os (Bind (Tcp sd) inaddr_any) s1 else (-1, s1))
        = (rb, s2)" by (metis surj_pair)
    have x: "only_calls (\<lambda>c. True) s1 s2" using d by (auto intro: any_calls split: if_splits)
    note p = "1.prems"(1) [unfolded probe_udp.simps [of os sd so sz b s]]
    show ?thesis
    proof (cases "rc = 0 \<and> rb = 0")
      case hit: True
      then have "max_size b' = sz" "s' = sys_do os (Close (Tcp sd)) s2"
        using p True c d "1.prems"(2) by (auto simp: Let_def split: if_splits)
      with accepted_between [OF accepted_num only_calls_refl only_calls_then_do [OF x]] c hit
      show ?thesis by auto
    next
      case False
      with True p c d have
        rec: "probe_udp os sd so (sz div 2) (b\<lparr>max_size := sz div 2\<rparr>) s2 = ((False, b'), s')"
        by (auto simp: Let_def split: if_splits)
      have "only_calls (\<lambda>c. True) s s2" using any_calls(1) [OF c] x by (auto intro: only_calls_trans)
      with "1.IH" [OF True refl c [symmetric] refl d [symmetric] False rec] show ?thesis
        by (auto intro: accepted_between only_calls_refl)
    qed
  qed
qed

text \<open>What happens before the comparison.\<close>

lemma probed_max:
  assumes "requested_size os sock opt opts s = (Some sz, s1)"
    and "probe_if_new os opt sz b s1 = ((False, b'), s2)"
  shows "if max_size b = 0
    then max_size b' \<le> 8096 \<or>
      accepted_since s (if opt = UDP_RCVBUF then SO_RCVBUF else SO_SNDBUF) (max_size b') s2
    else max_size b' = max_size b \<and> only_calls asks_nothing s s2"
proof -
  have req: "only_calls asks_nothing s s1"
    using assms(1) by (auto simp: requested_size_def asks_nothing_def Let_def only_calls_refl
        split: option.splits prod.splits resp.splits intro: only_calls_sys_call)
  show ?thesis
  proof (cases "max_size b = 0")
    case True
    define so where "so = (if opt = UDP_RCVBUF then SO_RCVBUF else SO_SNDBUF)"
    obtain sd t0 where sd: "sys_num os (Socket Udp_kind) s1 = (sd, t0)" by fastforce
    with assms(2) True obtain t where t: "probe_udp os sd so (i32 sz) b t0 = ((False, b'), t)"
        "s2 = sys_do os (Close (Tcp sd)) t"
      by (auto simp: probe_if_new_def so_def Let_def split: prod.splits if_splits)
    have "only_calls (\<lambda>c. True) s s1" using req by (rule only_calls_weaken) simp
    then have a: "only_calls (\<lambda>c. True) s t0" using sd by (rule only_calls_then_num) simp
    have e: "only_calls (\<lambda>c. True) t s2" unfolding t(2) by (rule only_calls_sys_do) simp
    from probe_leaves_accepted [OF t(1)] True
    have "max_size b' \<le> 8096 \<or> accepted_since t0 so (max_size b') t" by simp
    with accepted_between [OF _ a e] True show ?thesis by (auto simp: so_def)
  qed (use assms(2) req in \<open>simp add: probe_if_new_def\<close>)
qed

text \<open>C31: A call of \<open>check_udp_buffer\<close> that no other thread disturbs, and that reduces the buffer,
  ends with setting it to the size it leaves recorded. If no size was recorded before, the
  kernel has accepted this size during this call, or it is at most 8096 bytes; if one was
  recorded, it is that one, and the kernel is not asked again.\<close>

theorem reduced_size_was_accepted:
  assumes "check_udp_buffer os sock opt opts st s = Inr (False, st', s')"
  shows "\<exists>v l r. log s' = l @ [(Set_udt sock opt (i32 v), r)] \<and> v = max_size (stat_of opt st') \<and>
    (if max_size (stat_of opt st) = 0
     then v \<le> 8096 \<or> accepted_since s (if opt = UDP_RCVBUF then SO_RCVBUF else SO_SNDBUF) v s'
     else v = max_size (stat_of opt st) \<and> only_calls asks_nothing s s')"
proof -
  obtain sz s1 r b s2 where sz: "requested_size os sock opt opts s = (Some sz, s1)"
    and p: "probe_if_new os opt sz (stat_of opt st) s1 = ((r, b), s2)"
    using assms by (auto simp: check_udp_buffer_def Let_def split: if_splits option.splits prod.splits)
  define w where "w = (if \<not> warned b then sys_do os (Say LOG_WARNING ''default %s = %d is reduced'') s2 else s2)"
  have nr: "\<not> r" and b: "stat_of opt st' = b\<lparr>warned := True\<rparr>"
    and s': "s' = sys_do os (Set_udt sock opt (i32 (max_size b))) w"
    using assms sz p by (auto simp: check_udp_buffer_def Let_def w_def split: if_splits)
  have w: "only_calls asks_nothing s2 s'"
    by (simp add: s' w_def asks_nothing_def only_calls_then_do only_calls_refl)
  have "probe_if_new os opt sz (stat_of opt st) s1 = ((False, b), s2)" using p nr by simp
  from probed_max [OF sz this] w
  have "if max_size (stat_of opt st) = 0
     then max_size b \<le> 8096 \<or>
       accepted_since s (if opt = UDP_RCVBUF then SO_RCVBUF else SO_SNDBUF) (max_size b) s'
     else max_size b = max_size (stat_of opt st) \<and> only_calls asks_nothing s s'"
    by (auto intro: accepted_between [OF _ only_calls_refl] only_calls_trans)
  moreover obtain r where "log s' = log w @ [(Set_udt sock opt (i32 (max_size b)), r)]"
    unfolding s' using sys_do_log by blast
  ultimately show ?thesis using b by (intro exI [of _ "max_size b"] exI [of _ "log w"] exI [of _ r]) simp
qed

text \<open>A first call, and a second one for another socket, which reuses the size.\<close>

theorem reduced_size_was_accepted_witness:
  "\<exists>st s' st2 s2. check_udp_buffer script 7 UDP_RCVBUF Map.empty fresh_statics
      (start [Ret 40000, Ret 3, Fail 105, Ret 0, Ret 0, Ret 0, Ret 0, Ret 0, Ret 0]) = Inr (False, st, s') \<and>
    accepted_since (start [Ret 40000, Ret 3, Fail 105, Ret 0, Ret 0, Ret 0, Ret 0, Ret 0, Ret 0])
      SO_RCVBUF 20000 s' \<and>
    check_udp_buffer script 8 UDP_RCVBUF Map.empty st (start [Ret 40000, Ret 0]) = Inr (False, st2, s2) \<and>
    only_calls asks_nothing (start [Ret 40000, Ret 0]) s2"
proof -
  note eval = check_udp_buffer_def requested_size_def probe_if_new_def probe_udp.simps
    is_custom_value_def fresh_statics_def fresh_stat_def stat_of_def set_stat_def u32_def
    sys_num_def sys_do_def sys_call_def answer_def script_def start_def of_udt_def Let_def
  obtain st s' where c: "check_udp_buffer script 7 UDP_RCVBUF Map.empty fresh_statics
      (start [Ret 40000, Ret 3, Fail 105, Ret 0, Ret 0, Ret 0, Ret 0, Ret 0, Ret 0]) = Inr (False, st, s')"
    and st: "st = fresh_statics\<lparr>rcv_stat := \<lparr>chk_size = 20000, max_size = 20000, warned = True\<rparr>\<rparr>"
    by (simp add: eval)
  obtain st2 s2 where d: "check_udp_buffer script 8 UDP_RCVBUF Map.empty st (start [Ret 40000, Ret 0]) =
      Inr (False, st2, s2)"
    by (simp add: st eval)
  from reduced_size_was_accepted [OF c] reduced_size_was_accepted [OF d] st c d show ?thesis
    by (intro exI [of _ st] exI [of _ s'] exI [of _ st2] exI [of _ s2])
      (simp add: fresh_statics_def fresh_stat_def stat_of_def)
qed


section \<open>Two threads\<close>

text \<open>At some time, the kernel has accepted the size.\<close>

definition accepted :: "so_opt \<Rightarrow> int \<Rightarrow> 'w sys \<Rightarrow> bool" where
  "accepted so v s \<longleftrightarrow> (\<exists>sd r. (Set_so sd so v 4, r) \<in> set (log s) \<and> rv r = 0)"

text \<open>A schedule names the threads in the order of their steps.\<close>

fun run_probers :: "'w os \<Rightarrow> nat list \<Rightarrow> 'w probers \<Rightarrow> 'w probers option" where
  "run_probers os [] q = Some q"
| "run_probers os (i # is) q = (if can_advance i q then run_probers os is (advance os i q) else None)"

lemma run_probers_reach:
  "run_probers os is q = Some q' \<Longrightarrow> reach init (probers_step os) q \<Longrightarrow> reach init (probers_step os) q'"
proof (induction "is" arbitrary: q)
  case (Cons i "is")
  then have "can_advance i q" "run_probers os is (advance os i q) = Some q'" by (auto split: if_splits)
  with Cons show ?case by (meson probers_step.intros reach_step)
qed simp

definition both :: "prober list" where
  "both = [\<lparr>pr_sock = 7, pr_opt = UDP_RCVBUF, pr_custom = False, pr_size = 40000\<rparr>,
           \<lparr>pr_sock = 8, pr_opt = UDP_RCVBUF, pr_custom = False, pr_size = 40000\<rparr>]"

text \<open>A kernel that refuses 40000 and 20000 bytes and accepts 10000; the second thread runs
  while the first one is between the two refusals.\<close>

definition refusals :: "resp list" where
  "refusals = [Ret 3, Fail 105, Ret 0, Fail 105, Ret 0, Ret 0, Ret 0, Ret 0, Ret 0]"

definition bad_schedule :: "nat list" where
  "bad_schedule = [0, 0, 0, 0, 0] @ replicate 6 1 @ replicate 11 0"

lemma bad_run:
  "\<exists>q. run_probers script bad_schedule
      \<lparr>q_stat = fresh_stat, q_sys = start refusals, q_threads = map (\<lambda>a. (a, Check)) both\<rparr> = Some q \<and>
    map snd (q_threads q) = [Done False, Done False] \<and> max_size (q_stat q) = 10000 \<and>
    log (q_sys q) =
      [(Socket Udp_kind, Ret 3), (Set_so 3 SO_RCVBUF 40000 4, Fail 105),
       (Say LOG_WARNING ''default %s = %d is reduced'', Ret 0), (Set_udt 8 UDP_RCVBUF 20000, Ret 0),
       (Set_so 3 SO_RCVBUF 20000 4, Fail 105), (Set_so 3 SO_RCVBUF 10000 4, Ret 0),
       (Bind (Tcp 3) inaddr_any, Ret 0), (Close (Tcp 3), Ret 0), (Close (Tcp 3), Ret 0),
       (Set_udt 7 UDP_RCVBUF 10000, Ret 0)]"
  by (simp add: bad_schedule_def both_def refusals_def can_advance_def advance_def fresh_stat_def
      sys_num_def sys_do_def sys_call_def answer_def script_def start_def of_udt_def
      Let_def numeral_eq_Suc)

text \<open>C33: When two threads prepare their sockets at the same time, the second one can take the
  size that the first one is about to try for the largest one: its buffer is reduced to a size
  that the kernel never accepted, although the process ends up knowing a smaller one that it
  did.\<close>

theorem race_on_probed_size:
  "\<exists>q s. reach (probers_start both s) (probers_step script) q \<and>
    map snd (q_threads q) = [Done False, Done False] \<and> max_size (q_stat q) = 10000 \<and>
    (Set_udt 8 UDP_RCVBUF 20000, Ret 0) \<in> set (log (q_sys q)) \<and> \<not> accepted SO_RCVBUF 20000 (q_sys q)"
proof -
  obtain q where q: "run_probers script bad_schedule
      \<lparr>q_stat = fresh_stat, q_sys = start refusals, q_threads = map (\<lambda>a. (a, Check)) both\<rparr> = Some q"
    and r: "map snd (q_threads q) = [Done False, Done False] \<and> max_size (q_stat q) = 10000"
      "(Set_udt 8 UDP_RCVBUF 20000, Ret 0) \<in> set (log (q_sys q)) \<and> \<not> accepted SO_RCVBUF 20000 (q_sys q)"
    using bad_run by (auto simp: accepted_def)
  have "reach (probers_start both (start refusals)) (probers_step script) q"
    by (rule run_probers_reach [OF q], rule reach_init) (simp add: probers_start_def)
  with r show ?thesis by (intro exI [of _ q] exI [of _ "start refusals"]) simp
qed

end
