(* ===== verification/Identity.thy ===== *)
theory Identity
  imports Relay_Process Proc_Title
begin

text \<open>
  The class \<open>globals\<close> of \<^verbatim>\<open>include/udtgate.h\<close> with its initial values from
  \<^verbatim>\<open>lib/udtgate.cpp\<close>, the access list entries it holds, and the names by which the processes of
  \<^verbatim>\<open>src/relay/udtrelay.cpp\<close> show themselves. The theorem follows a name from the fork that
  chose it to the memory of \<open>argv\<close>.
\<close>


section \<open>The variables\<close>

text \<open>An entry of an access list, as its constructor makes it, with its two special masks. The
  functions of the class \<open>acl_table\<close> have no bodies.\<close>

record acl_entry =
  src_addr :: "32 word"
  src_mask :: "32 word"
  min_port :: "16 word"
  max_port :: "16 word"

definition LOCAL_TOKEN :: "32 word" where
  "LOCAL_TOKEN = 0xFFFFFFFF"

definition ATTACHED_TOKEN :: "32 word" where
  "ATTACHED_TOKEN = 0xFFFFFFFE"

definition new_acl_entry :: acl_entry where
  "new_acl_entry = \<lparr>src_addr = 0, src_mask = 0, min_port = 0, max_port = 0xFFFF\<rparr>"

record globals =
  g_net_access :: int
  g_debug_level :: int
  g_dump_message :: int
  g_track_connections :: bool
  g_rendezvous :: bool
  g_demonize :: bool
  g_custom_acl :: bool
  g_acl :: "acl_entry set"
  g_baseport :: int
  g_maxport :: int
  sock_ident :: string
  peer_ident :: string
  app_ident :: string
  serv_ident :: string

definition globals_init :: globals where
  "globals_init =
     \<lparr>g_net_access = 0, g_debug_level = 0, g_dump_message = 0, g_track_connections = False,
      g_rendezvous = False, g_demonize = False, g_custom_acl = False, g_acl = {},
      g_baseport = 0, g_maxport = 0, sock_ident = ''?sock_ident?'', peer_ident = ''?peer_ident?'',
      app_ident = ''?app_ident?'', serv_ident = ''?app_ident?''\<rparr>"

text \<open>What the option loop and the lines after it leave in them.\<close>

definition set_options :: "options \<Rightarrow> globals \<Rightarrow> globals" where
  "set_options opts g =
     g\<lparr>g_net_access := o_net_access opts, g_debug_level := o_debug_level opts,
       g_dump_message := o_dump_message opts, g_track_connections := o_track opts,
       g_rendezvous := o_rendezvous opts, g_demonize := o_demonize opts\<rparr>"

definition set_idents :: "globals \<Rightarrow> globals" where
  "set_idents g =
     g\<lparr>app_ident := ''udtrelay'', sock_ident := ''departing'', peer_ident := ''arriving'',
       serv_ident := ''udtrelay''\<rparr>"

text \<open>In the child that a fork made a server of one direction.\<close>

definition take_role :: "mode \<Rightarrow> globals \<Rightarrow> globals" where
  "take_role m g =
     (case m of SERVER \<Rightarrow> g\<lparr>serv_ident := peer_ident g\<rparr> | CLIENT \<Rightarrow> g\<lparr>serv_ident := sock_ident g\<rparr>
      | DUAL \<Rightarrow> g)"

text \<open>\<open>utl::setproctitle("%s: %s", globals::app_ident, globals::serv_ident)\<close>\<close>

definition title_text :: "globals \<Rightarrow> byte list" where
  "title_text g = map of_char (app_ident g @ '': '' @ serv_ident g)"

text \<open>The two calls by which a server process shows its title.\<close>

definition show_title ::
  "bool \<Rightarrow> cstr list \<Rightarrow> cstr list \<Rightarrow> titles \<Rightarrow> globals \<Rightarrow> (int \<Rightarrow> byte) \<Rightarrow> (titles \<times> (int \<Rightarrow> byte)) result"
  where
  "show_title malloc_ok argv envp t g mem =
     setproctitle (title_text g) (initsetproctitle malloc_ok argv envp t) mem"


section \<open>Lemmas\<close>

text \<open>The option loop of \<open>Startup\<close> begins with the values of the class.\<close>

lemma globals_initial_options: "set_options initial_options globals_init = globals_init"
  by (simp add: set_options_def initial_options_def globals_init_def)

lemma title_text_role:
  "m \<noteq> DUAL \<Longrightarrow> title_text (take_role m (set_idents g)) =
    map of_char (if m = SERVER then ''udtrelay: arriving'' else ''udtrelay: departing'')"
  by (cases m) (simp_all add: title_text_def take_role_def set_idents_def)


section \<open>The property\<close>

text \<open>C39: A process that reaches the accept loop has written the name of the program and of its
  direction over its arguments and environment, as far as these lie next to each other, the rest
  of them zeros, and nothing else.\<close>

theorem title_names_direction:
  assumes "relay_main os order gai getopts args st0 s = Some (Inr (r, st, s'))"
    and "initsetproctitle True ((a0, str0) # argv) envp t = t'" and "a0 + 2 \<le> LastArgv t'"
  shows "\<exists>t2 mem'. show_title True ((a0, str0) # argv) envp t
      (take_role (r_mode r) (set_idents (set_options opts globals_init))) mem = Inr (t2, mem') \<and>
    (\<forall>k < nat (LastArgv t' - a0). mem' (a0 + int k) =
      (let ttl = (if r_mode r = SERVER then ''udtrelay: arriving'' else ''udtrelay: departing'')
       in if k < length ttl \<and> k < nat (LastArgv t' - a0 - 2) then of_char (ttl ! k) else 0)) \<and>
    (\<forall>x. (\<forall>str \<in> set ((a0, str0) # argv @ envp). \<not> in_str x str) \<longrightarrow> mem' x = mem x)"
proof -
  define ttl where "ttl = (if r_mode r = SERVER then ''udtrelay: arriving'' else ''udtrelay: departing'')"
  note sp = title_space_is_ours [OF assms(2)]
  have "r_mode r \<noteq> DUAL" using assms(1) by (rule main_mode)
  then have tt: "title_text (take_role (r_mode r) (set_idents (set_options opts globals_init))) =
      map of_char ttl" by (simp add: title_text_role ttl_def)
  have len: "length ttl < 2047" by (simp add: ttl_def)
  from sp title_written_in_space [of t' a0 str0 "argv" "map of_char ttl" mem] assms(3)
  obtain mem' where m: "setproctitle (map of_char ttl) t' mem = Inr (t'\<lparr>Argv := Some [(a0, str0)]\<rparr>, mem')"
      "\<forall>x. x < a0 \<or> LastArgv t' \<le> x \<longrightarrow> mem' x = mem x"
      "\<forall>k < nat (LastArgv t' - a0). mem' (a0 + int k) =
        (if k < length ttl \<and> k < nat (LastArgv t' - a0 - 2) \<and> k < 2047 then map of_char ttl ! k else 0)"
    by auto
  have "mem' x = mem x" if "\<forall>str \<in> set ((a0, str0) # argv @ envp). \<not> in_str x str" for x
    using that sp m(2) by (meson linorder_le_less_linear order_less_imp_le)
  with m(1,3) len show ?thesis
    by (intro exI [of _ "t'\<lparr>Argv := Some [(a0, str0)]\<rparr>"] exI [of _ mem'])
      (auto simp: show_title_def tt assms(2) Let_def ttl_def [symmetric])
qed

theorem title_names_direction_witness:
  "\<exists>t2 mem'. show_title True [(100, replicate 30 1)] [(131, replicate 9 2)]
      \<lparr>Argv = None, LastArgv = 0, environ = []\<rparr> (take_role CLIENT (set_idents globals_init)) (\<lambda>x. 9) =
      Inr (t2, mem') \<and> mem' 99 = 9 \<and> mem' 100 = of_char (CHR ''u'') \<and>
    mem' 110 = of_char (CHR ''d'') \<and> mem' 130 = 0"
proof -
  obtain s0 where m: "relay_main script [] (\<lambda>h p. Some (peer_at 7))
      [(CHR ''C'', ''''), (CHR ''N'', ''''), (CHR ''N'', '''')]
      [''1081'', ''9000'', ''site2''] fresh_statics
      (start ([Ret 0, Ret 0, Ret 3, Ret 0, Ret 0, Ret 0, Addr 5 inaddr_any] @ sample_child)) =
      Some (Inr (sample_ready, fresh_statics, s0))"
    using sample_main by blast
  have e: "LastArgv (initsetproctitle True [(100, replicate 30 1)] [(131, replicate 9 2)]
      \<lparr>Argv = None, LastArgv = 0, environ = []\<rparr>) = 140"
    by (simp add: initsetproctitle_def argv_end_def)
  from title_names_direction [OF m refl, of 100 "replicate 30 1" "[]" "[(131, replicate 9 2)]"
      "\<lparr>Argv = None, LastArgv = 0, environ = []\<rparr>" initial_options "\<lambda>x. 9"] e
  obtain t2 mem' where t: "show_title True [(100, replicate 30 1)] [(131, replicate 9 2)]
      \<lparr>Argv = None, LastArgv = 0, environ = []\<rparr> (take_role CLIENT (set_idents globals_init)) (\<lambda>x. 9) =
      Inr (t2, mem')"
    and k: "\<forall>k < 40. mem' (100 + int k) = (if k < length ''udtrelay: departing'' \<and> k < 38
      then of_char (''udtrelay: departing'' ! k) else 0)"
    and x: "\<forall>x. (\<forall>str \<in> set [(100, replicate 30 1), (131, replicate 9 2)]. \<not> in_str x str) \<longrightarrow> mem' x = 9"
    by (auto simp: sample_ready_def globals_initial_options Let_def)
  have "mem' 99 = 9" using x by (simp add: in_str_def)
  with t k [rule_format, of 0] k [rule_format, of 10] k [rule_format, of 30] show ?thesis by auto
qed

end
