(* ===== verification/Interleaving.thy ===== *)
theory Interleaving
  imports Relay_Process
begin

text \<open>
  A server process of \<^verbatim>\<open>src/relay/udtrelay.cpp\<close> call by call. In \<open>Relay_Process\<close> the life of a
  child is one step; here the calls of the accept loop and of all children mix in any order,
  as the threads of a process do. Every thread sees answers of its own, so each runs in an
  environment of its own, in which the effects of the others are part of the answers. The
  static variables of \<open>check_udp_buffer\<close> are arbitrary when a thread comes to them (what can
  happen inside of that function is in \<open>Udp_Race\<close>).
\<close>


section \<open>Threads\<close>

text \<open>A call together with the number of the thread that made it: 0 is the accept loop, the
  others are children. What one thread did is a subsequence.\<close>

type_synonym trace = "(nat \<times> event) list"

definition own :: "nat \<Rightarrow> trace \<Rightarrow> event list" where
  "own i l = map snd (filter (\<lambda>e. fst e = i) l)"

text \<open>The accept loop: iterations one after the other, each with the static variables that
  the children may have changed meanwhile.\<close>

inductive loop_runs :: "'w os \<Rightarrow> ready \<Rightarrow> sockaddr \<times> 'w sys \<Rightarrow> sockaddr \<times> 'w sys \<Rightarrow> bool"
  for os :: "'w os" and r :: ready where
  enter: "loop_runs os r x x"
| again: "loop_runs os r x (addr, s) \<Longrightarrow> iteration os r addr st s = Some (Inr (a, addr', st', s')) \<Longrightarrow>
    loop_runs os r x (addr', s')"

text \<open>What the loop and a child can have done so far: the beginning of what they do if their
  calls to come return. A thread that ends the whole process is covered up to the call whose
  answer it ends it for; after that it only writes a message.\<close>

definition loop_log :: "ready \<Rightarrow> event list \<Rightarrow> bool" where
  "loop_log r l \<longleftrightarrow>
     (\<exists>(os :: resp list os) addr s addr' s' m.
        loop_runs os r (addr, s) (addr', s') \<and> log s' = log s @ l @ m)"

definition child_log :: "int \<Rightarrow> ready \<Rightarrow> event list \<Rightarrow> bool" where
  "child_log dm r l \<longleftrightarrow>
     (\<exists>(os :: resp list os) fd junk jc sched st s st' s' m. length junk = 8 \<and>
        start_child os (r_cfg r) dm (r_noisy r) (r_mode r) fd junk jc sched st s = Some (Inr (st', s')) \<and>
        log s' = log s @ l @ m)"

definition process_trace :: "int \<Rightarrow> ready \<Rightarrow> trace \<Rightarrow> bool" where
  "process_trace dm r l \<longleftrightarrow>
     loop_log r (own 0 l) \<and> (\<forall>i. own (Suc i) l = [] \<or> child_log dm r (own (Suc i) l))"


section \<open>Lemmas\<close>

lemma own_append [simp]: "own i (l @ m) = own i l @ own i m"
  by (simp add: own_def)

lemma own_Cons [simp]: "own i ((j, e) # l) = (if i = j then e # own i l else own i l)"
  by (simp add: own_def)

lemma own_Nil [simp]: "own i [] = []"
  by (simp add: own_def)

lemma connects_checked_prefix: "connects_checked r (l @ m) \<Longrightarrow> connects_checked r l"
  by (auto simp: connects_checked_def)

lemma connects_well_log: "connects_well r s s' \<Longrightarrow> log s' = log s @ l \<Longrightarrow> connects_checked r l"
  by (auto simp: connects_well_def)

lemma loop_runs_connects: "loop_runs os r x y \<Longrightarrow> r_mode r \<noteq> DUAL \<Longrightarrow> connects_well r (snd x) (snd y)"
  by (induction rule: loop_runs.induct) (auto dest: iteration_connects intro: connects_well_trans)

lemma loop_log_checked:
  assumes "loop_log r l" and "r_mode r \<noteq> DUAL"
  shows "connects_checked r l"
proof -
  from assms(1) obtain os :: "resp list os" and addr s addr' s' m where
      run: "loop_runs os r (addr, s) (addr', s')" and l: "log s' = log s @ l @ m"
    unfolding loop_log_def by blast
  from loop_runs_connects [OF run assms(2)] have "connects_well r s s'" by simp
  from connects_well_log [OF this l] show ?thesis by (rule connects_checked_prefix)
qed

lemma child_log_checked:
  assumes "child_log dm r l" and "r_mode r \<noteq> DUAL"
  shows "connects_checked r l"
proof -
  from assms(1) obtain os :: "resp list os" and fd junk jc sched st s st' s' m where
      "length junk = 8" "log s' = log s @ l @ m"
      "start_child os (r_cfg r) dm (r_noisy r) (r_mode r) fd junk jc sched st s = Some (Inr (st', s'))"
    unfolding child_log_def by blast
  with child_connects [OF _ _ assms(2)] connects_well_log show ?thesis
    by (blast intro: connects_checked_prefix)
qed

lemma own_checked:
  assumes "process_trace dm r l" and "r_mode r \<noteq> DUAL"
  shows "connects_checked r (own i l)"
proof (cases i)
  case 0
  with assms show ?thesis by (simp add: process_trace_def loop_log_checked)
next
  case (Suc j)
  with assms(1) have "own i l = [] \<or> child_log dm r (own i l)" by (simp add: process_trace_def)
  with child_log_checked [OF _ assms(2)] show ?thesis by (auto simp: connects_checked_def)
qed


section \<open>The property\<close>

text \<open>C3: However the calls of the threads of a process mix and whatever they are answered, a
  process that serves socks connections connects only over UDT, and only to the configured
  peer. A process that serves peer connections connects over TCP only to addresses for which
  the access check has said yes before, in the same thread (or access is unlimited), and over
  UDT only in rendezvous mode, to the port that the peer opens.\<close>

theorem threads_connect_where_allowed:
  assumes "relay_main os order gai getopts args st s = Some (Inr (r, st', s'))"
    and "process_trace dm r (l1 @ (i, (Connect ep a, q)) # l2)"
  shows "(r_mode r = CLIENT \<longrightarrow> is_udt ep \<and> a = peer_addr (r_cfg r)) \<and>
    (r_mode r = SERVER \<longrightarrow> \<not> is_udt ep \<and> allowed_by (r_cfg r) (own i l1) a \<or>
      is_rendezvous (r_cfg r) \<and> is_udt ep \<and> a = a_rzv_remote (r_addrs r))"
proof -
  have "connects_checked r (own i l1 @ (Connect ep a, q) # own i l2)"
    using own_checked [OF assms(2) main_mode [OF assms(1)], of i] by simp
  then have "connect_ok r (own i l1) (ep, a)" by (simp add: connects_checked_def)
  then show ?thesis by (auto simp: connect_ok_def split: if_splits)
qed

lemma sample_trace:
  "\<exists>l1 q l2. process_trace 0 sample_ready (l1 @ (1, (Connect (Udt 9) (peer_at 7), q)) # l2)"
proof -
  define s where "s = start sample_child"
  obtain st2 s2 where run: "start_child script (r_cfg sample_ready) 0 False CLIENT 5 (replicate 8 0) 0 []
      fresh_statics s = Some (Inr (st2, s2))"
    and c: "calls_of connects s2 = calls_of connects s @ [(Udt 9, peer_at 7)]"
    using sample_serve [of s] by (auto simp: s_def start_def)
  obtain l1 q l2 where l: "log s2 = l1 @ (Connect (Udt 9) (peer_at 7), q) # l2"
    using connect_in_log [of "Udt 9" "peer_at 7" s2] c by auto
  have own: "own i (map (Pair (Suc 0)) es) = (if i = 1 then es else [])" for i :: nat and es
    by (induction es) auto
  have "child_log 0 sample_ready (log s2)"
    unfolding child_log_def
    by (intro exI [of _ script] exI [of _ 5] exI [of _ "replicate 8 0"] exI [of _ 0] exI [of _ "[]"]
        exI [of _ fresh_statics] exI [of _ s] exI [of _ st2] exI [of _ s2])
      (use run in \<open>simp add: sample_ready_def s_def start_def\<close>)
  moreover have "loop_log sample_ready []"
    unfolding loop_log_def by (blast intro: loop_runs.enter)
  ultimately have "process_trace 0 sample_ready (map (Pair 1) (log s2))"
    by (simp add: process_trace_def own)
  then show ?thesis by (auto simp: l)
qed

theorem threads_connect_where_allowed_witness:
  "\<exists>l1 q l2. process_trace 0 sample_ready (l1 @ (1, (Connect (Udt 9) (peer_at 7), q)) # l2) \<and>
    peer_addr (r_cfg sample_ready) = peer_at 7"
proof -
  obtain l1 q l2 where l: "process_trace 0 sample_ready (l1 @ (1, (Connect (Udt 9) (peer_at 7), q)) # l2)"
    using sample_trace by blast
  obtain s0 where "relay_main script [] (\<lambda>h p. Some (peer_at 7))
      [(CHR ''C'', ''''), (CHR ''N'', ''''), (CHR ''N'', '''')]
      [''1081'', ''9000'', ''site2''] fresh_statics
      (start ([Ret 0, Ret 0, Ret 3, Ret 0, Ret 0, Ret 0, Addr 5 inaddr_any] @ sample_child)) =
      Some (Inr (sample_ready, fresh_statics, s0))"
    using sample_main by blast
  from threads_connect_where_allowed [OF this l] l show ?thesis
    by (auto simp: sample_ready_def)
qed

end
