(* ===== verification/Main_Log.thy ===== *)
theory Main_Log
  imports Logger Startup
begin

text \<open>
  What \<open>main\<close> of \<^verbatim>\<open>src/relay/udtrelay.cpp\<close> does with the logger and with the standard streams:
  it switches the logger off its interactive state once the command line was accepted and
  closes the standard input; a daemon opens the system log and closes the other two streams.
  Between these points, and after them, any part of the program may log.
\<close>


section \<open>The console\<close>










section \<open>Lemmas\<close>









section \<open>The property\<close>



end
