(* ===== verification/Agreement.thy ===== *)
theory Agreement
  imports End_To_End
begin

text \<open>
  The application, its relay and the peer relay agree about the outcome of a request. \<open>End_To_End\<close>
  shows what a successful \<open>connect\<close> means, without any assumption that messages arrive; here the
  two answers arrive whole, and then the three processes come to the same conclusion, also when
  the request is refused.
\<close>


section \<open>The three processes\<close>

text \<open>Between two states, one message of eight bytes was received from an endpoint.\<close>

definition answered_on :: "endpoint \<Rightarrow> 'w sys \<Rightarrow> 'w sys \<Rightarrow> bool" where
  "answered_on ep s s' \<longleftrightarrow> length (received ep s') = length (received ep s) + 8"

text \<open>The client side passed a request on to the peer relay.\<close>

definition passed_on :: "child_end \<Rightarrow> 'w sys \<Rightarrow> 'w sys \<Rightarrow> int \<Rightarrow> bool" where
  "passed_on e s s' v \<longleftrightarrow>
     (\<exists>args. (e = Relay args \<or> e = Broken args) \<and> v = udtsock args) \<and>
     calls_of (sends (Udt v)) s' \<noteq> calls_of (sends (Udt v)) s"

definition relays :: "child_end \<Rightarrow> bool" where
  "relays e \<longleftrightarrow> (\<exists>args. e = Relay args)"

lemma relays_simps [simp]: "relays (Relay args)" "\<not> relays (Broken args)" "\<not> relays Returned"
  by (simp_all add: relays_def)

lemma relays_code: "relays e \<longleftrightarrow> reply_code e = 90"
  by (cases e) simp_all

text \<open>An application that was answered decides by the code of the answer.\<close>

lemma minisocks_answered:
  assumes run: "minisocks_connect os env resolve sd name m s = Inr (rc, m', s')"
    and name: "sa_family name = AF_INET" "6 \<le> length (sa_data name)"
    and full: "answered_on (Tcp sd) s s'"
  obtains x where "received (Tcp sd) s' = received (Tcp sd) s @ x" and "length x = 8"
    and "calls_of (sends (Tcp sd)) s' =
      calls_of (sends (Tcp sd)) s @ [pkt_bytes (request_for name) @ [0]]"
    and "rc = (if x ! 1 = 90 then 0 else -1)" and "rc \<noteq> 0 \<longrightarrow> errno s' = ECONNREFUSED"
proof -
  note quiet = mute_num [of os _ _ _ _ "Tcp sd"]
  have sent: "calls_of (sends (Tcp sd)) s3 =
      calls_of (sends (Tcp sd)) s @ [pkt_bytes (request_for name) @ [0]]"
    and got: "received (Tcp sd) s3 = received (Tcp sd) s @ resp_data r"
    and len: "rv r = 8 \<longleftrightarrow> length (resp_data r) = 8"
    if "sys_num os (Connect (Tcp sd) a) s = (0, s1)"
      "sys_num os (Send (Tcp sd) (pkt_bytes (request_for name) @ [0]) 0) s1 = (9, s2)"
      "sys_call os (Recv (Tcp sd) 8 0) s2 = (r, s3)" for a s1 s2 r s3
    using that sys_call_recv [OF that(3), of "Tcp sd"] quiet [OF that(1)] quiet [OF that(2)]
      calls_of_num [OF that(1), of "sends (Tcp sd)"] calls_of_num [OF that(2), of "sends (Tcp sd)"]
      calls_of_call [OF that(3), of "sends (Tcp sd)"] by auto
  from run name show ?thesis
  proof (cases rule: minisocks_cases)
    case (2 a)
    with quiet full show ?thesis by (simp add: answered_on_def)
  next
    case (3 a s1 n s2)
    with quiet [OF 3(3)] quiet [OF 3(5)] full show ?thesis by (simp add: answered_on_def split: if_splits)
  next
    case (4 a s1 s2 r s3)
    with got [OF 4(3-5)] len [OF 4(3-5)] full show ?thesis by (simp add: answered_on_def split: if_splits)
  next
    case (5 a s1 s2 r s3)
    with sent [OF 5(3-5)] got [OF 5(3-5)] len [OF 5(3-5)] show ?thesis
      by (intro that [of "resp_data r"]) (simp_all add: mute_do mute_def in_bytes_def sends_def)
  next
    case (6 a s1 s2 r)
    with sent [OF 6(3-5)] got [OF 6(3-5)] len [OF 6(3-5)] show ?thesis
      by (intro that [of "resp_data r"]) simp_all
  qed (use full in \<open>simp add: answered_on_def\<close>)
qed

text \<open>A peer relay that was sent the request, and whose answer arrived whole, relays if the
  answer says so.\<close>

lemma server_answered:
  assumes server: "server_handshake osS cfgS u junkS jS sS = Some (Inr (eS, sS'))"
      "length junkS = 8" "recvs_ok (Udt u) sS sS'"
    and udt: "channel (Udt u) sS sS' (Udt v) sC sC'"
    and answer: "received (Udt v) sC' = received (Udt v) sC @ d" "length d = 8"
  shows "d ! 1 = 90 \<longleftrightarrow> relays eS"
proof -
  from server obtain spktS where s: "length spktS = 8"
      "calls_of (sends (Udt u)) sS' = calls_of (sends (Udt u)) sS @ [spktS[1 := reply_code eS]]"
    by (rule server_outcome)
  from channel_bytes [OF udt s(2) answer(1)] obtain rest where
    e: "spktS[1 := reply_code eS] = d @ rest" by auto
  from arg_cong [OF e, of length] s(1) answer(2) have "rest = []" by simp
  with e have "d = spktS[1 := reply_code eS]" by simp
  with s(1) show ?thesis by (simp add: relays_code)
qed


section \<open>The property\<close>

text \<open>C2: When the answers to a request arrive whole, the three processes agree: \<open>connect\<close>
  returns 0 in the application exactly when its relay starts its relay threads; a request that
  was passed on to the peer relay succeeds exactly when that one starts its own; and one that
  is not passed on is refused. A refused application sees -1 and \<open>ECONNREFUSED\<close>.\<close>

theorem outcome_agreed:
  assumes app: "minisocks_connect osA env resolve sd name m sA = Inr (rc, m', sA')"
    and name: "sa_family name = AF_INET" "6 \<le> length (sa_data name)"
    and client: "client_handshake osC cfgC fd junkC jC st sC = Some (Inr (eC, st', sC'))"
    and server: "server_handshake osS cfgS u junkS jS sS = Some (Inr (eS, sS'))"
    and junk: "length junkC = 8" "length junkS = 8"
    and waitall: "\<forall>r. (Recv (Tcp fd) 8 MSG_WAITALL, r) \<in> set (drop (length (log sC)) (log sC')) \<longrightarrow>
      length (resp_data r) = 8"
    and receives: "recvs_ok (Udt u) sS sS'"
    and tcp: "channel (Tcp sd) sA sA' (Tcp fd) sC sC'" "channel (Tcp fd) sC sC' (Tcp sd) sA sA'"
    and udt: "\<forall>v. passed_on eC sC sC' v \<longrightarrow>
      channel (Udt u) sS sS' (Udt v) sC sC' \<and> answered_on (Udt v) sC sC'"
    and answered: "answered_on (Tcp sd) sA sA'"
  shows "(rc = 0 \<longleftrightarrow> relays eC) \<and>
    (if \<exists>v. passed_on eC sC sC' v then rc = 0 \<longleftrightarrow> relays eS else rc \<noteq> 0) \<and>
    (rc \<noteq> 0 \<longrightarrow> rc = -1 \<and> errno sA' = ECONNREFUSED)"
proof -
  define req where "req = pkt_bytes (request_for name)"
  have req: "length req = 8" "req ! 0 = 4" "req ! 1 = 1"
    using length_pkt_bytes [OF wf_request_for [OF name(2)]]
    by (simp_all add: req_def pkt_bytes_def request_for_def)
  from app name answered obtain x where
      x: "received (Tcp sd) sA' = received (Tcp sd) sA @ x" "length x = 8" and
      sent: "calls_of (sends (Tcp sd)) sA' = calls_of (sends (Tcp sd)) sA @ [req @ [0]]" and
      rc: "rc = (if x ! 1 = 90 then 0 else -1)" "rc \<noteq> 0 \<longrightarrow> errno sA' = ECONNREFUSED"
    unfolding req_def by (rule minisocks_answered)
  have answer: "x = msg" if "length msg = 8"
      "calls_of (sends (Tcp fd)) sC' = calls_of (sends (Tcp fd)) sC @ [msg]" for msg
    using channel_bytes [OF tcp(2) that(2) x(1)] x(2) that(1) by auto
  have asked: "spkt = req" if "length spkt = 8"
      "received (Tcp fd) sC' = received (Tcp fd) sC @ spkt @ more" for spkt more
    using channel_prefix [OF tcp(1) sent that(2)] that(1) req(1) by simp
  from client junk(1) waitall show ?thesis
  proof (cases rule: client_outcome)
    case (1 spkt msg rest)
    from asked [OF 1(1,3)] answer [OF 1(5,4)] 1(2) req have "x ! 1 = 92" by simp
    with 1(6,7) rc show ?thesis by (auto simp: passed_on_def)
  next
    case (2 spkt v d rest)
    from 2(6,8) have v: "passed_on eC sC sC' w \<longleftrightarrow> w = v" for w by (auto simp: passed_on_def)
    then have v': "\<exists>w. passed_on eC sC sC' w" by blast
    from v udt 2(5) have d: "length d = 8" by (simp add: answered_on_def)
    with 2(1) have o: "overwrite 0 d spkt = d" by (simp add: overwrite_def)
    from answer [OF d 2(7) [unfolded o]] have "x = d" .
    moreover have "d ! 1 = 90 \<longleftrightarrow> relays eS"
      using udt v by (intro server_answered [OF server junk(2) receives _ 2(5) d]) simp
    moreover have "relays eC \<longleftrightarrow> d ! 1 = 90" by (simp add: 2(8) o)
    ultimately show ?thesis using rc by (simp add: v')
  qed
qed

text \<open>A request that the peer relay refuses, as all three see it.\<close>

definition refused_script :: "resp list" where
  "refused_script = take (length relayed_script - 2) relayed_script @
     [Data [4, 92, 0, 80, 10, 0, 0, 1], Ret 8]"

definition unreachable_script :: "resp list" where
  "unreachable_script = [Ret 9, Data [4, 1, 0], Data [80, 10, 0, 0, 1], Data [0], Fail 111, Ret 8]"

lemma refused_app:
  "\<exists>rc m' s'. minisocks_connect script (Some ''localhost'') (\<lambda>h p. Some sample_server) 6 sample_name
      minisocks_initial (start [Ret 0, Ret 9, Data [4, 92, 0, 80, 10, 0, 0, 1], Ret 0]) =
      Inr (rc, m', s') \<and>
    received (Tcp 6) s' = [4, 92, 0, 80, 10, 0, 0, 1] \<and>
    concat (calls_of (sends (Tcp 6)) s') = [4, 1, 0, 80, 10, 0, 0, 1, 0]"
  by (simp add: minisocks_connect_def sample_name_def sample_server_def sa_field_def
      getserver_def minisocks_init_def minisocks_initial_def scan_server_def pkt_bytes_def
      sys_num_def sys_do_def sys_call_def answer_def script_def start_def of_udt_def Let_def
      received_def in_bytes_def calls_of_def sends_def)

lemma refused_server:
  "\<exists>s'. server_handshake script sample_config 5 (replicate 8 0) 1 (start unreachable_script) =
      Some (Inr (Broken \<lparr>udtsock = 5, tcpsock = 9, shutdown = 0\<rparr>, s')) \<and>
    recvs_ok (Udt 5) (start unreachable_script) s' \<and>
    concat (calls_of (sends (Udt 5)) s') = [4, 92, 0, 80, 10, 0, 0, 1]"
  by (simp add: server_handshake_def run_simps sample_config_def unreachable_script_def
      check_access_def recvs_ok_def recv_call_def Let_def calls_of_def sends_def)

lemma refused_client:
  "\<exists>st' s'. client_handshake script sample_config 5 (replicate 8 0) 1 fresh_statics
       (start refused_script) =
       Some (Inr (Broken \<lparr>udtsock = 9, tcpsock = 5, shutdown = 0\<rparr>, st', s')) \<and>
     (\<forall>r. (Recv (Tcp 5) 8 MSG_WAITALL, r) \<in> set (log s') \<longrightarrow> length (resp_data r) = 8) \<and>
     received (Tcp 5) s' = [4, 1, 0, 80, 10, 0, 0, 1, 0] \<and>
     received (Udt 9) s' = [4, 92, 0, 80, 10, 0, 0, 1] \<and>
     concat (calls_of (sends (Tcp 5)) s') = [4, 92, 0, 80, 10, 0, 0, 1] \<and>
     calls_of (sends (Udt 9)) s' = [[4, 1, 0, 80, 10, 0, 0, 1], [0]]"
  by (simp add: client_handshake_def run_simps sample_config_def refused_script_def
      relayed_script_def
      relay_setsockopt_def check_udp_buffer_def fresh_statics_def fresh_stat_def
      stat_of_def set_stat_def requested_size_def probe_if_new_def probe_udp.simps u32_def
      is_custom_value_def Let_def received_def in_bytes_def calls_of_def MSG_WAITALL_def sends_def)

theorem outcome_agreed_witness:
  "\<exists>m' s'. minisocks_connect script (Some ''localhost'') (\<lambda>h p. Some sample_server) 6 sample_name
      minisocks_initial (start [Ret 0, Ret 9, Data [4, 92, 0, 80, 10, 0, 0, 1], Ret 0]) =
      Inr (-1, m', s') \<and> errno s' = ECONNREFUSED"
proof -
  have [simp]: "received ep (start w) = []" "calls_of f (start w) = []" "log (start w) = []"
    for ep w and f :: "call \<Rightarrow> 'x list" by (simp_all add: received_def calls_of_def start_def)
  obtain rc m' sA where a: "minisocks_connect script (Some ''localhost'') (\<lambda>h p. Some sample_server)
      6 sample_name minisocks_initial
      (start [Ret 0, Ret 9, Data [4, 92, 0, 80, 10, 0, 0, 1], Ret 0]) = Inr (rc, m', sA)"
    and ra: "received (Tcp 6) sA = [4, 92, 0, 80, 10, 0, 0, 1]"
      "concat (calls_of (sends (Tcp 6)) sA) = [4, 1, 0, 80, 10, 0, 0, 1, 0]"
    using refused_app by blast
  obtain st' sC where c: "client_handshake script sample_config 5 (replicate 8 0) 1 fresh_statics
      (start refused_script) = Some (Inr (Broken \<lparr>udtsock = 9, tcpsock = 5, shutdown = 0\<rparr>, st', sC))"
    and rc: "\<forall>r. (Recv (Tcp 5) 8 MSG_WAITALL, r) \<in> set (log sC) \<longrightarrow> length (resp_data r) = 8"
      "received (Tcp 5) sC = [4, 1, 0, 80, 10, 0, 0, 1, 0]"
      "received (Udt 9) sC = [4, 92, 0, 80, 10, 0, 0, 1]"
      "concat (calls_of (sends (Tcp 5)) sC) = [4, 92, 0, 80, 10, 0, 0, 1]"
      "calls_of (sends (Udt 9)) sC = [[4, 1, 0, 80, 10, 0, 0, 1], [0]]"
    using refused_client by blast
  obtain sS where s: "server_handshake script sample_config 5 (replicate 8 0) 1
      (start unreachable_script) = Some (Inr (Broken \<lparr>udtsock = 5, tcpsock = 9, shutdown = 0\<rparr>, sS))"
    and rs: "recvs_ok (Udt 5) (start unreachable_script) sS"
      "concat (calls_of (sends (Udt 5)) sS) = [4, 92, 0, 80, 10, 0, 0, 1]"
    using refused_server by blast
  have "sa_family sample_name = 2" "6 \<le> length (sa_data sample_name)"
    by (simp_all add: sample_name_def)
  from outcome_agreed [OF a this c s _ _ _ rs(1)] ra rc rs a show ?thesis
    by (auto simp: channel_def passed_on_def answered_on_def)
qed

end
