(* ===== verification/Spec2Isabelle.thy ===== *)
theory Spec2Isabelle
  imports Prelude Loopbuffer Sockaddr System Sock_Api Sock_Io Sock_Select C_Text Utils Logger
    Proc_Title Title_Select Udt_Options Socks Relay_Threads Startup Getopt Build_Options Accept_Loop
    Relay_Main Relay_Process Worker Minisocks End_To_End Data_Path Getifaddrs Source_Check
    Usage Process_Group Parent_Run Udp_Race Identity Interleaving Main_Log Agreement
begin

text \<open>
  Verification library of udtgate.

  The program is \<^verbatim>\<open>udtrelay\<close>
  (\<^verbatim>\<open>src/relay/udtrelay.cpp\<close>): two relays, one at each end of a long link,
  carry TCP connections over UDT. An application asks the relay next to it for a connection by
  SOCKS4, by itself or through the preloaded library \<^verbatim>\<open>minisocks.c\<close>; that
  relay (the client side) connects to the peer relay over UDT and forwards the request; the peer
  relay (the server side) connects to the destination; then two threads in each relay copy bytes
  between the TCP and the UDT socket until one of them ends. One process serves each direction, and
  a parent supervises them. \<^verbatim>\<open>src/lib\<close> and
  \<^verbatim>\<open>src/include\<close> hold what the program shares: wrappers that give kernel
  sockets and UDT sockets one number space, a ring buffer, address and text helpers, the logger.

  Theories and the code they model:

  \<^item> \<open>Prelude\<close>: bytes, 32-bit integers, failures as values, lists as memory, and
    the locale \<open>inductive_invariant\<close> with the reachable states of a transition system.
  \<^item> \<open>Loopbuffer\<close>: \<^verbatim>\<open>include/loopbuffer.h\<close>, one
    definition \<open>lb_...\<close> per member function.
  \<^item> \<open>Sockaddr\<close>: the address functions and the access check of
    \<^verbatim>\<open>lib/utils.cpp\<close>.
  \<^item> \<open>System\<close>: the environment. The kernel and the UDT library are one parameter
    \<open>os\<close>, which answers every call from a hidden state; an answer outside of the
    documented range counts as a failure, and every call may fail. The state threaded through the
    model is that hidden state, \<open>errno\<close>, the last UDT error, and the log of all calls
    and answers, from which the byte streams of a socket (\<open>received\<close>,
    \<open>sent\<close>) and the calls of a kind (\<open>calls_of\<close>) are read.
  \<^item> \<open>Sock_Api\<close>, \<open>Sock_Io\<close>, \<open>Sock_Select\<close>:
    \<^verbatim>\<open>lib/socket_api.cpp\<close>: the wrappers \<open>sapi_...\<close> and the
    class \<open>FDSET\<close>; \<open>readn\<close> and \<open>writen\<close>;
    \<open>select\<close> with its growing intervals.
  \<^item> \<open>C_Text\<close>, \<open>Utils\<close>: the C library functions on text that are
    used, and the other functions of \<^verbatim>\<open>lib/utils.cpp\<close>.
  \<^item> \<open>Logger\<close>: \<^verbatim>\<open>lib/logger.cpp\<close>.
    \<open>Proc_Title\<close>: \<^verbatim>\<open>lib/setproctitle.cpp\<close> in the variant that
    writes the title over \<open>argv\<close>; \<open>Title_Select\<close>: how
    \<^verbatim>\<open>include/setproctitle.h\<close> chooses a variant from the macros of the
    platform, and what the other variants do.
  \<^item> \<open>Getifaddrs\<close>: \<^verbatim>\<open>lib/getifaddrs.cpp\<close>, on an explicit
    heap, with a kernel and a \<open>malloc\<close> of its own (\<open>ifos\<close>).
    \<open>Source_Check\<close>: \<open>check_source\<close> on that list, in place.
  \<^item> \<open>Udt_Options\<close>: \<open>parse_udt_option\<close>,
    \<open>check_udp_buffer\<close> with its static variables, and \<open>setsockopt\<close> of
    \<^verbatim>\<open>udtrelay.cpp\<close>.
  \<^item> \<open>Socks\<close>: the two handshakes of \<open>start_child\<close>.
    \<open>Relay_Threads\<close>: the two copying threads as step functions on their shared state,
    every interleaving of them, and \<open>start_child\<close>.
  \<^item> \<open>Startup\<close>: option loop, positional arguments, daemon and server processes,
    address lookup and listening socket of \<open>main\<close>. \<open>Accept_Loop\<close>: one
    iteration of its loop for each direction, and the variable by which a connection is handed to
    its thread. \<open>Relay_Main\<close>: \<open>main\<close> up to the loop, composed of these.
    \<open>Getopt\<close>: the words of the command line, and what the C library makes of them with
    the option string of \<open>main\<close>. \<open>Build_Options\<close>: the options that only
    some builds have, as a loop that takes the macros of the build as an argument.
  \<^item> \<open>Usage\<close>: the help text of every build, and the command lines that are
    written as it shows. \<open>Main_Log\<close>: what \<open>main\<close> does with the logger and
    the standard streams. \<open>Identity\<close>: the class \<open>globals\<close>, and the names
    of the processes up to the title they write.
  \<^item> \<open>Process_Group\<close>: the parent, its servers and their signals as a transition
    system: the forks, the installation of the handlers, \<open>wait\<close>, and
    \<open>exit_handler\<close>, which may be entered again for another signal between any two of
    its statements. \<open>Parent_Run\<close>: the code of the parent in \<open>Startup\<close>,
    against any kernel that obeys the laws of the locale \<open>group_kernel\<close>, runs inside of
    that system.
  \<^item> \<open>Relay_Process\<close>: a server process as a transition system. A step is an
    iteration of the accept loop, a thread reading its argument, or the life of one child; the steps
    come in any order, and inside of a child so do the steps of its two threads.
    \<open>Interleaving\<close>: the same process call by call, with the calls of the loop and of
    all children in any order. \<open>Udp_Race\<close>: \<open>check_udp_buffer\<close> statement by
    statement, with several threads on its static variables.
  \<^item> \<open>Worker\<close>: the single-threaded copying loop of
    \<^verbatim>\<open>lib/worker.cpp\<close>.
  \<^item> \<open>Minisocks\<close>: \<^verbatim>\<open>minisocks/minisocks.c\<close>.
    \<open>End_To_End\<close>: application, relay and peer relay together up to the granted request.
    \<open>Data_Path\<close>: the bytes that follow it, from the application through both relays to
    the destination. \<open>Agreement\<close>: what the three of them take for the outcome of the
    request, refusals included.

  How failures appear. \<open>Inl\<close> is a computation that stops: a call of
  \<open>exit\<close>, or a \<open>Fault\<close> where the C++ program would have undefined
  behaviour or fail an assertion. A loop that need not end is a \<open>partial_function\<close> in
  the option monad, so \<open>None\<close> is a run that does not return; where the code does
  return, that is proved (\<open>writen_returns\<close>, \<open>select_ends\<close>,
  \<open>relay_threads_stop\<close>, \<open>group_ends_together\<close>), and where it need not,
  that too (\<open>userid_loop_spins\<close>, \<open>rendezvous_never_gives_up\<close>,
  \<open>writen_spins_on_broken_udt\<close>). No fuel is used. Arguments named \<open>junk\<close>
  are the contents of uninitialised variables.

  What the groups of lemmas show. The ring buffer refines a queue of bytes, but a buffer made by its
  constructor never offers space, so the worker moves nothing. The access check decides the rule of
  the manual. The SOCKS handshakes answer each request once and connect only where the access check
  allows; together with the library of the application, a successful \<open>connect\<close> means
  that the peer relay is connected to the address asked for, and where the answer of the peer relay
  arrives whole, the application and both relays agree about the outcome. The threads deliver a
  prefix of what was received, in order, under every interleaving, and in an environment without
  interruptions by signals both stop once one of them does; along the whole path the destination is
  sent a prefix of what the application wrote after its request. That rests on hypotheses about the
  connections (\<open>delivers\<close>: what an endpoint has received is a prefix of what its peer
  has sent) and about the calls of the handshakes (the \<open>recv\<close> of eight bytes with
  \<open>MSG_WAITALL\<close> and that of the answer return eight bytes, a \<open>send\<close> of a
  message is accepted whole, no receive of the peer relay fails, and those of a user name deliver
  its bytes), which the code does not check. A process connects, in its whole life and however its
  threads interleave, only where its options allow and the access check has said yes before. A
  command line written as the help text shows it is read as it was meant; an accepted one leaves
  usable variables in every build, and, in the build without additional options, the values that its
  options stand for, except that the remote rendezvous port is always the local one. The processes
  that \<open>main\<close> starts serve what the command line asks for, show it in their titles, and
  end together: once the handlers are installed, when one of \<open>SIGTERM\<close>,
  \<open>SIGINT\<close> and \<open>SIGQUIT\<close> comes or a server ends, and however many more of
  these signals come, at most 40 steps of the group are left, and none of it remains. (40 is the
  initial value of the measure \<open>work\<close>, which every step decreases.) Before the handlers
  are installed, when a fork fails, and when a signal without a handler such as
  \<open>SIGHUP\<close> ends the parent, the servers are left alone. Against a kernel with its
  documented laws, the parent does return, with status 1, and unless a fork has failed it has waited
  for each of its servers once. The help text describes the options that do something, and no
  message goes to a stream that was closed. The size to which a UDP buffer is reduced is one that
  the kernel accepted, or at most 8096 bytes, when one thread asks, but need not be when two do. The
  list that \<open>getifaddrs\<close> builds shows what the kernel answered, and freeing it restores
  the heap; the access check on it in place gives the answer of the check in
  \<open>Sockaddr\<close>.

  What is not modelled. The bodies of the debug messages and the conversion of addresses to text for
  messages (\<open>getnameinfo\<close>) are left out; a message of the program is the call
  \<open>Say\<close> of its format, and what the logger makes of a format is in
  \<open>Logger\<close>. Signals are modelled for the parent, with the semantics that
  \<open>Process_Group\<close> states; the signals that are sent to it are a parameter. Messages for
  which the logger faults, those with an empty format outside of the system log, are not among the
  messages that \<open>Main_Log\<close> follows. The functions of the class \<open>acl_table\<close>
  have no bodies in the repository, so its \<open>add\<close> is an argument of
  \<open>Build_Options\<close>; the two lines of \<open>setsockopt\<close> under
  \<open>UDP_BASEPORT_OPTION\<close> name variables that do not exist. The access check takes the
  interfaces from the environment, not from \<open>Getifaddrs\<close>, which is compiled only where
  the system has no \<open>getifaddrs\<close>; \<open>Source_Check\<close> relates the two. In
  \<open>Relay_Process\<close> a child runs as one step; in \<open>Interleaving\<close>, where it
  does not, a thread finds arbitrary static variables when it comes to
  \<open>check_udp_buffer\<close>, and the races inside of that function are those of
  \<open>Udp_Race\<close>. The lines of \<open>main\<close> after its endless loop are never
  reached. The Perl wrapper and the build files hold no logic of the relay. \<close>

end
